(* ===== verification/Prelude.thy ===== *)
theory Prelude
  imports Main "HOL-Library.Multiset" "HOL-Library.Monad_Syntax" "HOL-Library.Word"
    "HOL-Library.Sublist"
begin

text \<open>
  The shared prelude of the flashaccept development: the C integer conversions the sources use,
  memory addresses and byte buffers, the abstraction of a singly linked list kept in memory
  (the shape of every freelist), generic facts on the option monad (\<open>None\<close> is undefined
  behaviour of the C program) and on multisets of owners, and the collections
  \<open>own_intros\<close>, \<open>hist_simps\<close> and \<open>sqe_simps\<close> that the component theories fill.
\<close>

named_theorems own_intros \<open>operations keep the ownership invariant\<close>
named_theorems hist_simps \<open>how one external call changes the readings of the history\<close>
named_theorems sqe_simps \<open>the shape of the prepared submission entries\<close>

subsection \<open>C integers\<close>

text \<open>
  A C \<open>int\<close> is an integer in \<open>-2\<^sup>3\<^sup>1 .. 2\<^sup>3\<^sup>1 - 1\<close>. Conversions are written out where the
  sources convert: \<open>(int)x\<close>, \<open>(size_t)x\<close>, \<open>(unsigned short)x\<close>, \<open>(unsigned)x\<close>.
\<close>

definition c_int :: "int \<Rightarrow> int" where
  "c_int x = signed_take_bit 31 x"

definition c_size_t :: "int \<Rightarrow> nat" where
  "c_size_t x = nat (take_bit 64 x)"

definition c_ushort :: "int \<Rightarrow> int" where
  "c_ushort x = take_bit 16 x"

definition c_unsigned :: "int \<Rightarrow> nat" where
  "c_unsigned x = nat (take_bit 32 x)"

definition is_c_int :: "int \<Rightarrow> bool" where
  "is_c_int x \<longleftrightarrow> - (2 ^ 31) \<le> x \<and> x < 2 ^ 31"

definition INT_MAX :: int where
  "INT_MAX = 2 ^ 31 - 1"

lemma c_int_id [simp]: "is_c_int x \<Longrightarrow> c_int x = x"
  by (simp add: is_c_int_def c_int_def signed_take_bit_int_eq_self)

lemma c_int_range: "is_c_int (c_int x)"
  unfolding is_c_int_def c_int_def
  by (metis signed_take_bit_int_greater_eq_minus_exp signed_take_bit_int_less_exp)

lemma c_size_t_nonneg [simp]: "0 \<le> x \<Longrightarrow> x < 2 ^ 64 \<Longrightarrow> c_size_t x = nat x"
  by (simp add: c_size_t_def take_bit_int_eq_self)

lemma c_unsigned_nonneg [simp]: "0 \<le> x \<Longrightarrow> x < 2 ^ 31 \<Longrightarrow> c_unsigned x = nat x"
  by (simp add: c_unsigned_def take_bit_int_eq_self)

lemma c_ushort_id [simp]: "0 \<le> x \<Longrightarrow> x < 65536 \<Longrightarrow> c_ushort x = x"
  by (simp add: c_ushort_def take_bit_int_eq_self)

lemma c_int_wrap:
  assumes "2 ^ 31 \<le> x" and "x < 2 ^ 32"
  shows "c_int x = x - 2 ^ 32"
proof -
  have "(x + 2 ^ 31) mod 2 ^ 32 = x + 2 ^ 31 - 2 ^ 32"
  proof -
    have "(x + 2 ^ 31) mod 2 ^ 32 = (x + 2 ^ 31 - 2 ^ 32) mod 2 ^ 32"
      by (metis mod_add_self2 diff_add_cancel)
    then show ?thesis using assms by simp
  qed
  then show ?thesis
    by (simp add: c_int_def signed_take_bit_eq_take_bit_shift take_bit_eq_mod)
qed

lemma c_size_t_wrap:
  assumes "- (2 ^ 63) \<le> x" and "x < 0"
  shows "c_size_t x = nat (x + 2 ^ 64)"
proof -
  have "x mod 2 ^ 64 = (x + 2 ^ 64) mod 2 ^ 64"
    by simp
  also have "\<dots> = x + 2 ^ 64"
    by (rule mod_pos_pos_trivial) (use assms in simp_all)
  finally show ?thesis
    by (simp add: c_size_t_def take_bit_eq_mod)
qed

subsection \<open>Memory, pointers and byte buffers\<close>

text \<open>
  A pointer is \<open>None\<close> (NULL) or the address of an object. Buffers are byte strings
  (an Isabelle character is a byte); storing \<open>bs\<close> at the start of a buffer keeps what lies
  beyond it.
\<close>

type_synonym addr = nat
type_synonym ptr = "addr option"
type_synonym bytes = string

definition store_bytes :: "bytes \<Rightarrow> bytes \<Rightarrow> bytes" where
  "store_bytes bs b = bs @ drop (length bs) b"

lemma take_store_bytes [simp]: "n \<le> length bs \<Longrightarrow> take n (store_bytes bs b) = take n bs"
  by (simp add: store_bytes_def)

lemma length_store_bytes: "length (store_bytes bs b) = max (length bs) (length b)"
  by (simp add: store_bytes_def)

subsection \<open>Linked lists in memory\<close>

text \<open>
  \<open>cells nx p xs\<close>: following the link field \<open>nx\<close> from \<open>p\<close> visits exactly the cells
  \<open>xs\<close> and ends in NULL. \<open>nx\<close> is partial: a dangling link is no list.
\<close>

fun cells :: "(addr \<Rightarrow> ptr option) \<Rightarrow> ptr \<Rightarrow> addr list \<Rightarrow> bool" where
  "cells nx p [] \<longleftrightarrow> p = None"
| "cells nx p (x # xs) \<longleftrightarrow> p = Some x \<and> (\<exists>q. nx x = Some q \<and> cells nx q xs)"

lemma cells_None [simp]: "cells nx None xs \<longleftrightarrow> xs = []"
  by (cases xs) auto

lemma cells_Some:
  "cells nx (Some x) xs \<longleftrightarrow> (\<exists>q ys. xs = x # ys \<and> nx x = Some q \<and> cells nx q ys)"
  by (cases xs) auto

lemma cells_cong:
  "(\<And>x. x \<in> set xs \<Longrightarrow> nx x = nx' x) \<Longrightarrow> cells nx p xs = cells nx' p xs"
  by (induction xs arbitrary: p) auto

lemma cells_upd [simp]: "x \<notin> set xs \<Longrightarrow> cells (nx(x := v)) p xs = cells nx p xs"
  by (rule cells_cong) auto

lemma cells_unique: "cells nx p xs \<Longrightarrow> cells nx p ys \<Longrightarrow> xs = ys"
proof (induction xs arbitrary: p ys)
  case Nil
  then show ?case by simp
next
  case (Cons x xs)
  then obtain q where "p = Some x" and q: "nx x = Some q" and xs: "cells nx q xs"
    by auto
  with Cons.prems(2) obtain zs where "ys = x # zs" and "cells nx q zs"
    by (auto simp: cells_Some)
  with Cons.IH [OF xs] show ?case by simp
qed

lemma cells_defined: "cells nx p xs \<Longrightarrow> x \<in> set xs \<Longrightarrow> nx x \<noteq> None"
  by (induction xs arbitrary: p) auto

subsection \<open>The option monad\<close>

lemma bind_SomeI: "m = Some x \<Longrightarrow> f x = r \<Longrightarrow> Option.bind m f = r"
  by simp

lemma bind_ex_SomeI:
  assumes "\<exists>x. m = Some x \<and> P x" and "\<And>x. P x \<Longrightarrow> \<exists>y. f x = Some y \<and> Q y"
  shows "\<exists>y. Option.bind m f = Some y \<and> Q y"
  using assms by auto

lemma list_all2_list_all: "list_all2 P xs ys \<Longrightarrow> (\<And>x y. P x y \<Longrightarrow> Q y) \<Longrightarrow> list_all Q ys"
  by (induction rule: list_all2_induct) auto

subsection \<open>Multisets of owners\<close>

lemma mset_set_unionD:
  assumes "M + N = mset_set A" and "finite A"
  shows "set_mset M \<subseteq> A" and "set_mset N \<subseteq> A" and "set_mset M \<inter> set_mset N = {}"
proof -
  have "set_mset (M + N) = A"
    using assms by simp
  then show "set_mset M \<subseteq> A" and "set_mset N \<subseteq> A"
    by auto
  show "set_mset M \<inter> set_mset N = {}"
  proof (rule ccontr)
    assume "set_mset M \<inter> set_mset N \<noteq> {}"
    then obtain x where "x \<in># M" and "x \<in># N"
      by auto
    then have "count M x \<ge> 1" and "count N x \<ge> 1"
      by (simp_all add: Suc_leI)
    then have "count (M + N) x \<ge> 2"
      by (metis add_mono count_union one_add_one)
    then show False
      using assms by (simp add: count_mset_set' split: if_splits)
  qed
qed

lemma mset_set_distinct:
  assumes "mset xs + N = mset_set A"
  shows "distinct xs"
proof (cases "finite A")
  case True
  have "count (mset xs) x \<le> 1" for x
  proof -
    have "count (mset xs) x \<le> count (mset xs + N) x"
      by simp
    also have "\<dots> \<le> 1"
      using assms True by (simp add: count_mset_set')
    finally show ?thesis .
  qed
  then show ?thesis
    by (metis distinct_count_atmost_1 count_eq_zero_iff le_numeral_extra(4) less_one
        linorder_not_le order_antisym set_mset_mset)
next
  case False
  then show ?thesis using assms by simp
qed

lemma add_mset_conv_plus: "add_mset x M = {#x#} + M"
  by simp

end
