(* ===== verification/Uring.thy ===== *)
theory Uring
  imports Prelude
begin

text \<open>
  The boundary between a worker thread and everything it calls: liburing and the kernel behind
  it, malloc, close, the request handler. None of that code is part of the repository, so it is
  a parameter. Each external call a worker makes is recorded in its history (most recent call
  first), and every answer the worker gets is a function of the history so far, a field of the
  record \<open>uring_env\<close>. Since the functions are arbitrary, a theorem about every environment
  covers every kernel, every allocator and every interleaving with other threads; what is
  relied on is stated as a named contract (\<open>sq_drained\<close>, \<open>malloc_fresh\<close>, \<open>kernel_ok\<close>,
  \<open>handler_ok\<close>).

  The readings of a history (\<open>inflight\<close>, \<open>accepted\<close>, \<open>closed\<close>, \<open>transmitted\<close>, \<open>standing\<close>)
  are what the theorems talk about: which connections have a receive in flight, which
  descriptors came in and were given back, which bytes left.
\<close>

subsection \<open>Submission and completion entries\<close>

text \<open>
  The user data of an entry is a pointer: NULL, the worker's accept marker, or a connection.
  The buffer of an entry is a pointer too: the bytes are read or written when the kernel
  executes the entry, not when it is prepared. \<open>ReplyBuf\<close> is the program's reply buffer (the
  per-worker scratch of the library, the static REPLY array of the benchmark server).
\<close>

datatype uref = UNull | UMarker | UConn addr

datatype buf_ref = NoBuf | ConnBuf addr | ReplyBuf

datatype sqe_flag = IOSQE_FIXED_FILE | IOSQE_CQE_SKIP_SUCCESS

datatype sqe_opcode =
    OP_ACCEPT bool bool \<comment> \<open>multishot, into a direct descriptor\<close>
  | OP_RECV
  | OP_SEND
  | OP_CLOSE bool \<comment> \<open>of a direct descriptor\<close>

record sqe =
  sqe_op :: sqe_opcode
  sqe_fd :: int
  sqe_buf :: buf_ref
  sqe_len :: nat
  sqe_msg_more :: bool
  sqe_flags :: "sqe_flag set"
  sqe_user_data :: uref

text \<open>
  The preparation calls record their arguments; they leave no flags set, and the flags and the
  user data are assigned afterwards, as \<open>io_uring_sqe_set_flags\<close> and
  \<open>io_uring_sqe_set_data\<close> do.
\<close>

definition prep_accept :: "bool \<Rightarrow> bool \<Rightarrow> int \<Rightarrow> sqe" where
  "prep_accept multishot direct fd =
     \<lparr>sqe_op = OP_ACCEPT multishot direct, sqe_fd = fd, sqe_buf = NoBuf, sqe_len = 0,
      sqe_msg_more = False, sqe_flags = {}, sqe_user_data = UNull\<rparr>"

definition prep_recv :: "int \<Rightarrow> addr \<Rightarrow> nat \<Rightarrow> sqe" where
  "prep_recv fd a len =
     \<lparr>sqe_op = OP_RECV, sqe_fd = fd, sqe_buf = ConnBuf a, sqe_len = len,
      sqe_msg_more = False, sqe_flags = {}, sqe_user_data = UNull\<rparr>"

definition prep_send :: "int \<Rightarrow> nat \<Rightarrow> bool \<Rightarrow> sqe" where
  "prep_send fd len msg_more =
     \<lparr>sqe_op = OP_SEND, sqe_fd = fd, sqe_buf = ReplyBuf, sqe_len = len,
      sqe_msg_more = msg_more, sqe_flags = {}, sqe_user_data = UNull\<rparr>"

definition prep_close :: "bool \<Rightarrow> int \<Rightarrow> sqe" where
  "prep_close direct fd =
     \<lparr>sqe_op = OP_CLOSE direct, sqe_fd = fd, sqe_buf = NoBuf, sqe_len = 0,
      sqe_msg_more = False, sqe_flags = {}, sqe_user_data = UNull\<rparr>"

lemmas prep_defs [sqe_simps] = prep_accept_def prep_recv_def prep_send_def prep_close_def

text \<open>A completion: \<open>cqe_more\<close> is the flag IORING_CQE_F_MORE, and \<open>cqe_bytes\<close> what the
  kernel has stored at the start of the buffer of the request it completes.\<close>

record cqe =
  cqe_user_data :: uref
  cqe_res :: int
  cqe_more :: bool
  cqe_bytes :: bytes

subsection \<open>External calls and their answers\<close>

text \<open>
  The calls through which the kernel gets to see queued entries (\<open>C_submit\<close>, \<open>C_wait\<close>) carry
  the content of the reply buffer at that moment: this is what a queued send transmits.
\<close>

datatype call =
    C_prep sqe \<comment> \<open>io_uring_get_sqe gave an entry, which was filled in\<close>
  | C_submit bytes \<comment> \<open>io_uring_submit\<close>
  | C_wait bytes int \<comment> \<open>io_uring_submit_and_wait(_timeout) and its result\<close>
  | C_peek "cqe list" \<comment> \<open>io_uring_peek_batch_cqe and the batch it gave\<close>
  | C_advance nat \<comment> \<open>io_uring_cq_advance\<close>
  | C_close int \<comment> \<open>close\<close>
  | C_malloc nat ptr \<comment> \<open>malloc: size and result\<close>
  | C_free addr \<comment> \<open>free\<close>
  | C_handler bytes int int \<comment> \<open>the request handler: request, capacity, result\<close>
  | C_stderr string \<comment> \<open>a diagnostic\<close>
  | C_affinity int \<comment> \<open>pthread_setaffinity_np\<close>
  | C_queue_init bool int \<comment> \<open>ring setup (with SINGLE_ISSUER and DEFER_TASKRUN or plain), result\<close>
  | C_register_files nat int \<comment> \<open>io_uring_register_files_sparse: table size, result\<close>
  | C_queue_exit \<comment> \<open>io_uring_queue_exit\<close>

type_synonym history = "call list"

record 'c uring_env =
  e_get_sqe :: "history \<Rightarrow> bool" \<comment> \<open>does io_uring_get_sqe give an entry\<close>
  e_wait :: "history \<Rightarrow> int"
  e_peek :: "history \<Rightarrow> nat \<Rightarrow> cqe list"
  e_malloc :: "history \<Rightarrow> nat \<Rightarrow> ptr"
  e_uninit :: "history \<Rightarrow> 'c" \<comment> \<open>indeterminate content of a new object\<close>
  e_stop :: "history \<Rightarrow> bool" \<comment> \<open>the stop flag as the worker reads it\<close>
  e_handler :: "history \<Rightarrow> bytes \<Rightarrow> int \<Rightarrow> bytes \<times> int" \<comment> \<open>bytes written, result\<close>
  e_queue_init :: "history \<Rightarrow> bool \<Rightarrow> int"
  e_register_files :: "history \<Rightarrow> nat \<Rightarrow> int"

subsection \<open>Readings of a batch of completions\<close>

fun conns_of :: "cqe list \<Rightarrow> addr list" where
  "conns_of [] = []"
| "conns_of (q # qs) =
     (case cqe_user_data q of UConn a \<Rightarrow> a # conns_of qs | _ \<Rightarrow> conns_of qs)"

fun accepts_of :: "cqe list \<Rightarrow> int list" where
  "accepts_of [] = []"
| "accepts_of (q # qs) =
     (if cqe_user_data q = UMarker \<and> 0 \<le> cqe_res q then cqe_res q # accepts_of qs
      else accepts_of qs)"

text \<open>Completions that end an accept request: those without F_MORE.\<close>

fun accept_ends :: "cqe list \<Rightarrow> nat" where
  "accept_ends [] = 0"
| "accept_ends (q # qs) =
     (if cqe_user_data q = UMarker \<and> \<not> cqe_more q then Suc (accept_ends qs)
      else accept_ends qs)"

subsection \<open>Readings of a history\<close>

definition recv_target :: "sqe \<Rightarrow> addr multiset" where
  "recv_target q = (case (sqe_op q, sqe_user_data q) of (OP_RECV, UConn a) \<Rightarrow> {#a#} | _ \<Rightarrow> {#})"

definition close_target :: "sqe \<Rightarrow> int multiset" where
  "close_target q = (case sqe_op q of OP_CLOSE _ \<Rightarrow> {#sqe_fd q#} | _ \<Rightarrow> {#})"

definition is_accept :: "sqe \<Rightarrow> bool" where
  "is_accept q = (case sqe_op q of OP_ACCEPT _ _ \<Rightarrow> True | _ \<Rightarrow> False)"

text \<open>Connections with a receive queued or in flight: prepared and not completed yet.\<close>

fun inflight :: "history \<Rightarrow> addr multiset" where
  "inflight [] = {#}"
| "inflight (C_prep q # h) = recv_target q + inflight h"
| "inflight (C_peek qs # h) = inflight h - mset (conns_of qs)"
| "inflight (_ # h) = inflight h"

text \<open>Descriptors (or direct slots) handed to the worker, and those it gave back.\<close>

fun accepted :: "history \<Rightarrow> int multiset" where
  "accepted [] = {#}"
| "accepted (C_peek qs # h) = mset (accepts_of qs) + accepted h"
| "accepted (_ # h) = accepted h"

fun closed :: "history \<Rightarrow> int multiset" where
  "closed [] = {#}"
| "closed (C_prep q # h) = close_target q + closed h"
| "closed (C_close fd # h) = add_mset fd (closed h)"
| "closed (_ # h) = closed h"

text \<open>
  The descriptors that came back in any way: besides those closed, tearing the ring down releases the
  table of direct descriptors and with it every slot still in use. The others are still open.
\<close>

fun returned :: "bool \<Rightarrow> history \<Rightarrow> int multiset" where
  "returned direct [] = {#}"
| "returned direct (C_prep q # h) = close_target q + returned direct h"
| "returned direct (C_close fd # h) = add_mset fd (returned direct h)"
| "returned direct (C_queue_exit # h) = (if direct then accepted h else returned direct h)"
| "returned direct (_ # h) = returned direct h"

definition open_clients :: "bool \<Rightarrow> history \<Rightarrow> int multiset" where
  "open_clients direct h = accepted h - returned direct h"

lemma returned_regular [simp]: "returned False h = closed h"
  by (induction h rule: closed.induct) auto

text \<open>Objects obtained from malloc and not freed.\<close>

fun live :: "history \<Rightarrow> addr set" where
  "live [] = {}"
| "live (C_malloc n p # h) = set_option p \<union> live h"
| "live (C_free a # h) = live h - {a}"
| "live (_ # h) = live h"

text \<open>The length the latest receive for a connection was prepared with.\<close>

fun recv_len :: "history \<Rightarrow> addr \<Rightarrow> nat" where
  "recv_len [] a = 0"
| "recv_len (C_prep q # h) a = (if a \<in># recv_target q then sqe_len q else recv_len h a)"
| "recv_len (_ # h) a = recv_len h a"

text \<open>Accept requests standing: prepared minus ended.\<close>

fun standing :: "history \<Rightarrow> int" where
  "standing [] = 0"
| "standing (C_prep q # h) = (if is_accept q then 1 else 0) + standing h"
| "standing (C_peek qs # h) = standing h - int (accept_ends qs)"
| "standing (_ # h) = standing h"

text \<open>All entries ever prepared, oldest first, and those not handed to the kernel yet.\<close>

fun prepared :: "history \<Rightarrow> sqe list" where
  "prepared [] = []"
| "prepared (C_prep q # h) = prepared h @ [q]"
| "prepared (_ # h) = prepared h"

fun unsent :: "history \<Rightarrow> sqe list" where
  "unsent [] = []"
| "unsent (C_prep q # h) = unsent h @ [q]"
| "unsent (C_submit _ # h) = []"
| "unsent (C_wait _ _ # h) = []"
| "unsent (_ # h) = unsent h"

text \<open>
  What the sends put on the wire: the reply buffer as it is when the queued entry reaches the
  kernel, which is the next submission after its preparation.
\<close>

fun payloads :: "bytes \<Rightarrow> sqe list \<Rightarrow> (int \<times> bytes) list" where
  "payloads b [] = []"
| "payloads b (q # qs) =
     (if sqe_op q = OP_SEND then (sqe_fd q, take (sqe_len q) b) # payloads b qs
      else payloads b qs)"

fun transmitted :: "history \<Rightarrow> (int \<times> bytes) list" where
  "transmitted [] = []"
| "transmitted (C_submit b # h) = transmitted h @ payloads b (unsent h)"
| "transmitted (C_wait b _ # h) = transmitted h @ payloads b (unsent h)"
| "transmitted (_ # h) = transmitted h"

lemma recv_target_simps [simp]:
  "recv_target (prep_accept m d fd\<lparr>sqe_user_data := u\<rparr>) = {#}"
  "recv_target (prep_recv fd a n\<lparr>sqe_flags := f, sqe_user_data := UConn b\<rparr>) = {#b#}"
  "recv_target (prep_send fd n m\<lparr>sqe_flags := f, sqe_user_data := u\<rparr>) = {#}"
  "recv_target (prep_close d fd\<lparr>sqe_flags := f, sqe_user_data := u\<rparr>) = {#}"
  by (simp_all add: recv_target_def prep_defs)

lemma close_target_simps [simp]:
  "close_target (prep_accept m d fd\<lparr>sqe_user_data := u\<rparr>) = {#}"
  "close_target (prep_recv fd a n\<lparr>sqe_flags := f, sqe_user_data := u\<rparr>) = {#}"
  "close_target (prep_send fd n m\<lparr>sqe_flags := f, sqe_user_data := u\<rparr>) = {#}"
  "close_target (prep_close d fd\<lparr>sqe_flags := f, sqe_user_data := u\<rparr>) = {#fd#}"
  by (simp_all add: close_target_def prep_defs)

lemma is_accept_simps [simp]:
  "is_accept (prep_accept m d fd\<lparr>sqe_user_data := u\<rparr>)"
  "\<not> is_accept (prep_recv fd a n\<lparr>sqe_flags := f, sqe_user_data := u\<rparr>)"
  "\<not> is_accept (prep_send fd n m\<lparr>sqe_flags := f, sqe_user_data := u\<rparr>)"
  "\<not> is_accept (prep_close d fd\<lparr>sqe_flags := f, sqe_user_data := u\<rparr>)"
  by (simp_all add: is_accept_def prep_defs)

lemma payloads_append [simp]: "payloads b (xs @ ys) = payloads b xs @ payloads b ys"
  by (induction xs) auto

subsection \<open>Contracts\<close>

text \<open>io_uring_submit hands every queued entry to the kernel, so an entry is free after it.\<close>

definition sq_drained :: "'c uring_env \<Rightarrow> bool" where
  "sq_drained env \<longleftrightarrow> (\<forall>h b. e_get_sqe env (C_submit b # h))"

text \<open>malloc never gives an object that is still allocated.\<close>

definition malloc_fresh :: "'c uring_env \<Rightarrow> bool" where
  "malloc_fresh env \<longleftrightarrow> (\<forall>h n a. e_malloc env h n = Some a \<longrightarrow> a \<notin> live h)"

text \<open>
  A receive posts one completion, which carries the user data it was prepared with, at most as
  many bytes as its length allows, and those bytes.
\<close>

definition cqes_justified :: "history \<Rightarrow> cqe list \<Rightarrow> bool" where
  "cqes_justified h qs \<longleftrightarrow> mset (conns_of qs) \<subseteq># inflight h \<and>
     list_all (\<lambda>q. case cqe_user_data q of
         UConn a \<Rightarrow> nat (cqe_res q) \<le> recv_len h a \<and> length (cqe_bytes q) = nat (cqe_res q)
       | _ \<Rightarrow> True) qs"

definition kernel_ok :: "'c uring_env \<Rightarrow> bool" where
  "kernel_ok env \<longleftrightarrow>
     (\<forall>h n. length (e_peek env h n) \<le> n \<and> cqes_justified h (e_peek env h n))"

text \<open>The documented duty of the handler: given the capacity \<open>cap\<close>, it writes at most that
  many bytes.\<close>

definition handler_ok :: "'c uring_env \<Rightarrow> int \<Rightarrow> bool" where
  "handler_ok env cap \<longleftrightarrow> (\<forall>h req. length (fst (e_handler env h req cap)) \<le> nat cap)"

lemma sq_drainedD: "sq_drained env \<Longrightarrow> e_get_sqe env (C_submit b # h)"
  by (simp add: sq_drained_def)

lemma malloc_freshD: "malloc_fresh env \<Longrightarrow> e_malloc env h n = Some a \<Longrightarrow> a \<notin> live h"
  by (simp add: malloc_fresh_def)

lemma handler_okD: "handler_ok env cap \<Longrightarrow> e_handler env h req cap = (bs, r) \<Longrightarrow> length bs \<le> nat cap"
  unfolding handler_ok_def by (metis fst_conv)

lemma kernel_okD:
  assumes "kernel_ok env"
  shows "length (e_peek env h n) \<le> n" and "cqes_justified h (e_peek env h n)"
  using assms by (auto simp: kernel_ok_def)

end
