(* ===== verification/Conn_Pool.thy ===== *)
theory Conn_Pool
  imports Uring
begin

text \<open>
  Pools of connection objects. Both servers of the repository keep a per-worker freelist: a
  linked list threaded through the \<open>next\<close> fields of connection objects in memory.

  The ownership predicate \<open>owned\<close> says that every connection object is in exactly one
  place: on the freelist, in flight (its receive is queued or in the kernel), completed and
  waiting in the current batch, or in the hands of the code. Its laws are proved once, for any
  connection type, and the interface \<open>conn_pool\<close> states what an event loop relies on.
\<close>

subsection \<open>Ownership of connection objects\<close>

definition links :: "('c \<Rightarrow> ptr) \<Rightarrow> (addr \<rightharpoonup> 'c) \<Rightarrow> addr \<Rightarrow> ptr option" where
  "links nx heap a = map_option nx (heap a)"

text \<open>
  \<open>owned nx busy heap head I L T H\<close>: \<open>head\<close> is a well-formed freelist; the freelist, the
  connections in flight \<open>I\<close>, those completed in the current batch \<open>T\<close> and those in hand
  \<open>H\<close> partition the allocated objects \<open>L\<close>; those in flight or completed are in the receiving
  state.
\<close>

definition owned ::
  "('c \<Rightarrow> ptr) \<Rightarrow> ('c \<Rightarrow> bool) \<Rightarrow> (addr \<rightharpoonup> 'c) \<Rightarrow> ptr \<Rightarrow> addr multiset \<Rightarrow> addr set \<Rightarrow>
   addr multiset \<Rightarrow> addr multiset \<Rightarrow> bool" where
  "owned nx busy heap head I L T H \<longleftrightarrow>
     finite (dom heap) \<and> L = dom heap \<and>
     (\<exists>fl. cells (links nx heap) head fl \<and> mset fl + (I + T + H) = mset_set (dom heap)) \<and>
     (\<forall>a. a \<in># I + T \<longrightarrow> (\<exists>c. heap a = Some c \<and> busy c))"

lemma links_upd [simp]: "links nx (heap(a \<mapsto> c)) = (links nx heap)(a := Some (nx c))"
  by (auto simp: links_def)

lemma owned_I:
  "finite (dom heap) \<Longrightarrow> cells (links nx heap) head fl \<Longrightarrow>
   mset fl + (I + T + H) = mset_set (dom heap) \<Longrightarrow>
   (\<And>a. a \<in># I + T \<Longrightarrow> \<exists>c. heap a = Some c \<and> busy c) \<Longrightarrow> L = dom heap \<Longrightarrow>
   owned nx busy heap head I L T H"
  unfolding owned_def by blast

lemma owned_E:
  assumes "owned nx busy heap head I L T H"
  obtains fl where "finite (dom heap)" "L = dom heap" "cells (links nx heap) head fl"
    "mset fl + (I + T + H) = mset_set (dom heap)" "distinct fl"
    "set fl \<inter> set_mset (I + T + H) = {}" "set fl \<subseteq> dom heap"
    "\<forall>a. a \<in># I + T \<longrightarrow> (\<exists>c. heap a = Some c \<and> busy c)"
proof -
  from assms obtain fl where *: "finite (dom heap)" "L = dom heap"
      "cells (links nx heap) head fl" "mset fl + (I + T + H) = mset_set (dom heap)"
      "\<forall>a. a \<in># I + T \<longrightarrow> (\<exists>c. heap a = Some c \<and> busy c)"
    unfolding owned_def by blast
  moreover have "distinct fl"
    using *(4) by (rule mset_set_distinct)
  moreover have "set fl \<inter> set_mset (I + T + H) = {}" "set fl \<subseteq> dom heap"
    using mset_set_unionD [OF *(4,1)] by auto
  ultimately show thesis by (intro that) auto
qed

lemma owned_held: "owned nx busy heap head I L T H \<Longrightarrow> a \<in># H \<Longrightarrow> \<exists>c. heap a = Some c"
proof -
  assume o: "owned nx busy heap head I L T H" and a: "a \<in># H"
  from o obtain fl where "mset fl + (I + T + H) = mset_set (dom heap)" "finite (dom heap)"
    by (rule owned_E)
  then have "set_mset (I + T + H) \<subseteq> dom heap"
    by (metis mset_set_unionD(2))
  with a show ?thesis by auto
qed

lemma owned_busy: "owned nx busy heap head I L T H \<Longrightarrow> a \<in># I + T \<Longrightarrow>
    \<exists>c. heap a = Some c \<and> busy c"
  unfolding owned_def by blast

lemma owned_apart:
  assumes "owned nx busy heap head I L T (add_mset a H)"
  shows "a \<notin># I + T" and "a \<notin># H"
proof -
  from assms obtain fl where fin: "finite (dom heap)"
      and eq: "mset fl + (I + T + add_mset a H) = mset_set (dom heap)"
    by (rule owned_E)
  from eq have eq1: "{#a#} + (mset fl + I + T + H) = mset_set (dom heap)"
    by (simp add: ac_simps)
  from mset_set_unionD(3) [OF eq1 fin] show "a \<notin># I + T" and "a \<notin># H"
    by auto
qed

lemma owned_pop:
  assumes "owned nx busy heap (Some a) I L T H"
  shows "\<exists>c. heap a = Some c \<and> owned nx busy heap (nx c) I L T (add_mset a H)"
proof -
  from assms obtain fl where o: "finite (dom heap)" "L = dom heap"
      "cells (links nx heap) (Some a) fl" "mset fl + (I + T + H) = mset_set (dom heap)"
      "\<forall>b. b \<in># I + T \<longrightarrow> (\<exists>c. heap b = Some c \<and> busy c)"
    by (rule owned_E) blast
  from o(3) obtain q ys where fl: "fl = a # ys" and q: "links nx heap a = Some q"
      and ys: "cells (links nx heap) q ys"
    by (auto simp: cells_Some)
  from q obtain c where c: "heap a = Some c" "q = nx c"
    by (auto simp: links_def)
  have "owned nx busy heap (nx c) I L T (add_mset a H)"
    by (rule owned_I [OF o(1)]) (use o ys c fl in \<open>auto\<close>)
  with c show ?thesis by blast
qed

lemma owned_push:
  assumes own: "owned nx busy heap head I L T (add_mset a H)" and nx: "nx c = head"
  shows "owned nx busy (heap(a \<mapsto> c)) (Some a) I L T H"
proof -
  from own obtain fl where o: "finite (dom heap)" "L = dom heap"
      "cells (links nx heap) head fl" "mset fl + (I + T + add_mset a H) = mset_set (dom heap)"
      "set fl \<inter> set_mset (I + T + add_mset a H) = {}"
      "\<forall>b. b \<in># I + T \<longrightarrow> (\<exists>c. heap b = Some c \<and> busy c)"
    by (rule owned_E) blast
  have a: "a \<in> dom heap"
    using owned_held [OF own, of a] by auto
  have "a \<notin> set fl"
    using o(5) by auto
  then have "cells (links nx (heap(a \<mapsto> c))) (Some a) (a # fl)"
    using o(3) nx by simp
  then show ?thesis
    by (rule owned_I [rotated])
      (use o a owned_apart [OF own] in \<open>auto simp: insert_absorb\<close>)
qed

lemma owned_new:
  assumes own: "owned nx busy heap head I L T H" and a: "a \<notin> L"
  shows "owned nx busy (heap(a \<mapsto> c)) head I (insert a L) T (add_mset a H)"
proof -
  from own obtain fl where o: "finite (dom heap)" "L = dom heap"
      "cells (links nx heap) head fl" "mset fl + (I + T + H) = mset_set (dom heap)"
      "set fl \<subseteq> dom heap"
      "\<forall>b. b \<in># I + T \<longrightarrow> (\<exists>c. heap b = Some c \<and> busy c)"
    by (rule owned_E) blast
  have "a \<notin> set fl"
    using o(2,5) a by auto
  then have "cells (links nx (heap(a \<mapsto> c))) head fl"
    using o(3) by simp
  then show ?thesis
    by (rule owned_I [rotated]) (use o a in \<open>auto\<close>)
qed

lemma owned_upd:
  assumes own: "owned nx busy heap head I L T H" and a: "a \<in># H"
  shows "owned nx busy (heap(a \<mapsto> c)) head I L T H"
proof -
  from a obtain H' where H: "H = add_mset a H'"
    by (metis multi_member_split)
  from own obtain fl where o: "finite (dom heap)" "L = dom heap"
      "cells (links nx heap) head fl" "mset fl + (I + T + H) = mset_set (dom heap)"
      "set fl \<inter> set_mset (I + T + H) = {}"
      "\<forall>b. b \<in># I + T \<longrightarrow> (\<exists>c. heap b = Some c \<and> busy c)"
    by (rule owned_E) blast
  have "a \<notin> set fl"
    using o(5) a by auto
  then have "cells (links nx (heap(a \<mapsto> c))) head fl"
    using o(3) by simp
  moreover have "a \<in> dom heap"
    using owned_held [OF own a] by auto
  ultimately show ?thesis
    using o owned_apart(1) [OF own [unfolded H]]
    by (intro owned_I [of _ nx _ fl]) (auto simp: insert_absorb)
qed

lemma owned_depart:
  assumes own: "owned nx busy heap head I L T (add_mset a H)" and "heap a = Some c" "busy c"
  shows "owned nx busy heap head (add_mset a I) L T H"
proof -
  from own obtain fl where o: "finite (dom heap)" "L = dom heap"
      "cells (links nx heap) head fl" "mset fl + (I + T + add_mset a H) = mset_set (dom heap)"
      "\<forall>b. b \<in># I + T \<longrightarrow> (\<exists>c. heap b = Some c \<and> busy c)"
    by (rule owned_E) blast
  show ?thesis
    by (rule owned_I [OF o(1) o(3)]) (use o assms(2,3) in \<open>auto\<close>)
qed

lemma owned_take:
  "owned nx busy heap head I L (add_mset a T) H \<Longrightarrow> owned nx busy heap head I L T (add_mset a H)"
  by (erule owned_E, rule owned_I) auto

lemma owned_deliver:
  assumes "owned nx busy heap head I L T H" and "M \<subseteq># I"
  shows "owned nx busy heap head (I - M) L (M + T) H"
proof -
  have I: "I - M + (M + T) = I + T"
    using assms(2) by (metis add.assoc subset_mset.diff_add)
  from assms(1) obtain fl where o: "finite (dom heap)" "L = dom heap"
      "cells (links nx heap) head fl" "mset fl + (I + T + H) = mset_set (dom heap)"
      "\<forall>b. b \<in># I + T \<longrightarrow> (\<exists>c. heap b = Some c \<and> busy c)"
    by (rule owned_E) blast
  show ?thesis
    by (rule owned_I [OF o(1) o(3)]) (use o I in \<open>simp_all only: I\<close>)
qed

text \<open>Storing into the buffers of objects changes neither links nor states.\<close>

lemma owned_map_heap:
  assumes own: "owned nx busy heap head I L T H"
    and keep: "\<And>a c. nx (f a c) = nx c" "\<And>a c. busy (f a c) = busy c"
  shows "owned nx busy (\<lambda>a. map_option (f a) (heap a)) head I L T H"
proof -
  have "links nx (\<lambda>a. map_option (f a) (heap a)) = links nx heap"
    by (rule ext) (simp add: links_def keep(1) option.map_comp comp_def)
  moreover have "dom (\<lambda>a. map_option (f a) (heap a)) = dom heap"
    by auto
  ultimately show ?thesis
    using own keep(2) unfolding owned_def by fastforce
qed

subsection \<open>The interface of a connection pool\<close>

text \<open>
  What an event loop needs of its pool. \<open>holds H w\<close>: the code holds exactly the connections
  \<open>H\<close> (besides those in flight); \<open>pool w fl\<close>: the freelist of \<open>w\<close> is \<open>fl\<close>.
\<close>

locale conn_pool =
  fixes alloc :: "'w \<Rightarrow> (ptr \<times> 'w) option"
    and release :: "addr \<Rightarrow> 'w \<Rightarrow> 'w option"
    and holds :: "addr multiset \<Rightarrow> 'w \<Rightarrow> bool"
    and pool :: "'w \<Rightarrow> addr list \<Rightarrow> bool"
  assumes alloc_reuses: "holds H w \<Longrightarrow> pool w (a # fl) \<Longrightarrow>
      \<exists>w'. alloc w = Some (Some a, w') \<and> holds (add_mset a H) w' \<and> pool w' fl"
    and alloc_mallocs: "holds H w \<Longrightarrow> pool w [] \<Longrightarrow>
      \<exists>p w'. alloc w = Some (p, w') \<and> pool w' [] \<and>
             holds (case p of None \<Rightarrow> H | Some a \<Rightarrow> add_mset a H) w'"
    and release_pushes: "holds (add_mset a H) w \<Longrightarrow> pool w fl \<Longrightarrow>
      \<exists>w'. release a w = Some w' \<and> holds H w' \<and> pool w' (a # fl)"
    and pool_exists: "holds H w \<Longrightarrow> \<exists>fl. pool w fl"
    and pool_apart: "holds H w \<Longrightarrow> pool w fl \<Longrightarrow>
      distinct fl \<and> set fl \<inter> set_mset H = {} \<and> (\<forall>a. count H a \<le> 1)"
begin

text \<open>Allocation is always defined: it gives a connection the code did not hold, or NULL.\<close>

lemma alloc_total:
  assumes "holds H w"
  shows "\<exists>p w'. alloc w = Some (p, w') \<and> holds (case p of None \<Rightarrow> H | Some a \<Rightarrow> add_mset a H) w'"
proof -
  from assms obtain fl where fl: "pool w fl"
    using pool_exists by blast
  show ?thesis
  proof (cases fl)
    case Nil
    with alloc_mallocs [OF assms] fl show ?thesis by blast
  next
    case (Cons a ys)
    with fl have "pool w (a # ys)"
      by simp
    from alloc_reuses [OF assms this] obtain w' where
      "alloc w = Some (Some a, w')" "holds (add_mset a H) w'"
      by blast
    then show ?thesis by auto
  qed
qed

lemma alloc_not_held:
  assumes "holds H w" and "alloc w = Some (Some a, w')"
  shows "a \<notin># H" and "holds (add_mset a H) w'"
proof -
  from alloc_total [OF assms(1)] assms(2) show held: "holds (add_mset a H) w'"
    by auto
  from pool_exists [OF held] obtain fl where "pool w' fl" ..
  from pool_apart [OF held this] have "count (add_mset a H) a \<le> 1"
    by blast
  then show "a \<notin># H"
    by (simp add: count_eq_zero_iff)
qed

lemma release_total: "holds (add_mset a H) w \<Longrightarrow> \<exists>w'. release a w = Some w' \<and> holds H w'"
  using pool_exists release_pushes by blast

text \<open>The freelist is a stack: what was released last is handed out first.\<close>

lemma release_then_alloc:
  assumes "holds (add_mset a H) w"
  shows "\<exists>w1 w2. release a w = Some w1 \<and> alloc w1 = Some (Some a, w2) \<and> holds (add_mset a H) w2"
proof -
  from pool_exists [OF assms] obtain fl where "pool w fl" ..
  from release_pushes [OF assms this] obtain w1 where
    w1: "release a w = Some w1" "holds H w1" "pool w1 (a # fl)" by blast
  from alloc_reuses [OF w1(2,3)] w1(1) show ?thesis by blast
qed

lemma release_pool: "holds (add_mset a H) w \<Longrightarrow> pool w fl \<Longrightarrow> release a w = Some w' \<Longrightarrow>
    pool w' (a # fl)"
  using release_pushes by fastforce

end

end
