(* ===== verification/Freelist.thy ===== *)
theory Freelist
  imports Conn_Pool
begin

text \<open>
  The data of the library (\<open>include/flashaccept.h\<close>, \<open>src/flashaccept.c\<close>): configuration,
  connection, worker and server, and the freelist operations \<open>fa_conn_alloc\<close> and
  \<open>fa_conn_free\<close>. They implement the interface \<open>conn_pool\<close>.

  A worker's state holds, besides the fields of \<open>struct fa_worker\<close>, its own memory (the
  connection objects it allocated) and the history of its external calls. The server a worker
  points back to is an argument \<open>s\<close> of the operations. A result \<open>None\<close> is undefined
  behaviour: a dereference of an object that does not exist or a write beyond a buffer.
\<close>

subsection \<open>Constants\<close>

definition FA_QUEUE_DEPTH :: nat where "FA_QUEUE_DEPTH = 4096"
definition FA_NFILES :: nat where "FA_NFILES = 4096"
definition FA_CQE_BATCH :: nat where "FA_CQE_BATCH = 256"
definition FA_FREELIST_WARM :: nat where "FA_FREELIST_WARM = 128"

text \<open>Size of \<open>struct fa_conn\<close> without its flexible buffer: a pointer, an enum and an int.\<close>

definition SIZEOF_FA_CONN :: int where "SIZEOF_FA_CONN = 16"

subsection \<open>Configuration, connection, worker, server\<close>

record fa_config =
  cfg_port :: int
  cfg_workers :: int
  cfg_backlog :: int
  cfg_recv_buf :: int
  cfg_reply_cap :: int
  cfg_multishot :: int
  cfg_direct_files :: int

datatype fa_conn_state = FA_ST_ACCEPT | FA_ST_RECV

text \<open>\<open>fc_room\<close> is the number of bytes the object was allocated with.\<close>

record fa_conn =
  fc_next :: ptr
  fc_state :: fa_conn_state
  fc_fd :: int
  fc_buf :: bytes
  fc_room :: nat

record fa_worker =
  w_listen_fd :: int
  w_direct :: bool
  w_cpu :: int
  w_ring_ready :: bool
  w_marker :: fa_conn_state
  w_free_head :: ptr
  w_reply :: bytes
  w_heap :: "addr \<rightharpoonup> fa_conn"
  w_log :: history

record fa_server =
  srv_cfg :: fa_config
  srv_conn_size :: int
  srv_nworkers :: int
  srv_workers :: "fa_worker list"
  srv_stop :: bool

type_synonym fa_env = "fa_conn uring_env"

text \<open>Making an external call.\<close>

definition call :: "call \<Rightarrow> fa_worker \<Rightarrow> fa_worker" where
  "call c w = w\<lparr>w_log := c # w_log w\<rparr>"

lemma call_simps [simp]:
  "w_log (call c w) = c # w_log w"
  "w_listen_fd (call c w) = w_listen_fd w"
  "w_direct (call c w) = w_direct w"
  "w_cpu (call c w) = w_cpu w"
  "w_ring_ready (call c w) = w_ring_ready w"
  "w_marker (call c w) = w_marker w"
  "w_free_head (call c w) = w_free_head w"
  "w_reply (call c w) = w_reply w"
  "w_heap (call c w) = w_heap w"
  by (simp_all add: call_def)

subsection \<open>The freelist\<close>

text \<open>malloc of one connection: on success a new object with indeterminate content.\<close>

definition conn_malloc :: "fa_env \<Rightarrow> fa_server \<Rightarrow> fa_worker \<Rightarrow> ptr \<times> fa_worker" where
  "conn_malloc env s w =
     (let n = c_size_t (srv_conn_size s);
          p = e_malloc env (w_log w) n;
          w' = call (C_malloc n p) w
      in case p of
           None \<Rightarrow> (None, w')
         | Some a \<Rightarrow> (Some a,
             w'\<lparr>w_heap := (w_heap w)(a \<mapsto> (e_uninit env (w_log w))\<lparr>fc_room := n\<rparr>)\<rparr>))"

definition fa_conn_alloc :: "fa_env \<Rightarrow> fa_server \<Rightarrow> fa_worker \<Rightarrow> (ptr \<times> fa_worker) option" where
  "fa_conn_alloc env s w =
     (case w_free_head w of
        Some c \<Rightarrow> do {
          obj \<leftarrow> w_heap w c;
          Some (Some c, w\<lparr>w_free_head := fc_next obj\<rparr>)
        }
      | None \<Rightarrow> Some (conn_malloc env s w))"

definition fa_conn_free :: "addr \<Rightarrow> fa_worker \<Rightarrow> fa_worker option" where
  "fa_conn_free c w = do {
     obj \<leftarrow> w_heap w c;
     Some (w\<lparr>w_heap := (w_heap w)(c \<mapsto> obj\<lparr>fc_next := w_free_head w\<rparr>), w_free_head := Some c\<rparr>)
   }"

subsection \<open>Ownership in a worker\<close>

definition own :: "addr multiset \<Rightarrow> addr multiset \<Rightarrow> fa_worker \<Rightarrow> bool" where
  "own T H w \<longleftrightarrow> owned fc_next (\<lambda>c. fc_state c = FA_ST_RECV) (w_heap w) (w_free_head w)
     (inflight (w_log w)) (live (w_log w)) T H"

definition freelist :: "fa_worker \<Rightarrow> addr list \<Rightarrow> bool" where
  "freelist w fl \<longleftrightarrow> cells (links fc_next (w_heap w)) (w_free_head w) fl"

lemma own_call [simp]:
  "inflight (c # w_log w) = inflight (w_log w) \<Longrightarrow> live (c # w_log w) = live (w_log w) \<Longrightarrow>
   own T H (call c w) = own T H w"
  by (simp add: own_def)

lemma own_reply [simp]:
  "own T H (w\<lparr>w_reply := r\<rparr>) = own T H w"
  "own T H (w\<lparr>w_marker := m\<rparr>) = own T H w"
  by (simp_all add: own_def)

lemma own_held: "own T H w \<Longrightarrow> a \<in># H \<Longrightarrow> \<exists>c. w_heap w a = Some c"
  unfolding own_def by (rule owned_held)

lemma own_busy: "own T H w \<Longrightarrow> a \<in># inflight (w_log w) + T \<Longrightarrow>
    \<exists>c. w_heap w a = Some c \<and> fc_state c = FA_ST_RECV"
  unfolding own_def by (rule owned_busy)

lemma own_take: "own (add_mset a T) H w \<Longrightarrow> own T (add_mset a H) w"
  unfolding own_def by (rule owned_take)

lemma own_upd: "own T H w \<Longrightarrow> a \<in># H \<Longrightarrow> own T H (w\<lparr>w_heap := (w_heap w)(a \<mapsto> c)\<rparr>)"
  unfolding own_def by (simp add: owned_upd)

lemma fa_conn_free_own [own_intros]:
  "own T (add_mset a H) w \<Longrightarrow> \<exists>w'. fa_conn_free a w = Some w' \<and> own T H w'"
  using own_held [of T "add_mset a H" w a]
  by (auto simp: fa_conn_free_def own_def intro!: owned_push)

lemma conn_malloc_own:
  assumes "malloc_fresh env" and "own T H w" and "conn_malloc env s w = (p, w')"
  shows "own T (case p of None \<Rightarrow> H | Some a \<Rightarrow> add_mset a H) w'"
  using assms malloc_freshD [OF assms(1)]
  by (auto simp: conn_malloc_def own_def Let_def owned_new split: option.splits)

lemma fa_conn_alloc_own [own_intros]:
  assumes "malloc_fresh env" and "own T H w"
  shows "\<exists>p w'. fa_conn_alloc env s w = Some (p, w') \<and>
     own T (case p of None \<Rightarrow> H | Some a \<Rightarrow> add_mset a H) w'"
proof (cases "w_free_head w")
  case None
  obtain p w' where "conn_malloc env s w = (p, w')"
    by (cases "conn_malloc env s w")
  with None conn_malloc_own [OF assms] show ?thesis
    by (simp add: fa_conn_alloc_def)
next
  case (Some a)
  with assms(2) obtain c where "w_heap w a = Some c"
    "own T (add_mset a H) (w\<lparr>w_free_head := fc_next c\<rparr>)"
    unfolding own_def using owned_pop by fastforce
  with Some show ?thesis
    by (simp add: fa_conn_alloc_def)
qed

lemma own_freelist: "own T H w \<Longrightarrow> \<exists>fl. freelist w fl"
  unfolding own_def owned_def freelist_def by blast

lemma own_partition:
  assumes "own T H w" and "freelist w fl"
  shows "mset fl + (inflight (w_log w) + T + H) = mset_set (dom (w_heap w))"
    and "finite (dom (w_heap w))"
proof -
  from assms(1) obtain fl' where "finite (dom (w_heap w))"
    "cells (links fc_next (w_heap w)) (w_free_head w) fl'"
    "mset fl' + (inflight (w_log w) + T + H) = mset_set (dom (w_heap w))"
    unfolding own_def by (rule owned_E) blast
  moreover from this(2) assms(2) have "fl' = fl"
    unfolding freelist_def by (rule cells_unique)
  ultimately show "mset fl + (inflight (w_log w) + T + H) = mset_set (dom (w_heap w))"
    and "finite (dom (w_heap w))"
    by auto
qed

lemma own_held_distinct:
  assumes "own T H w" and "freelist w fl"
  shows "distinct fl" and "set fl \<inter> set_mset H = {}" and "count H a \<le> 1"
proof -
  note eq = own_partition [OF assms]
  show "distinct fl" and "set fl \<inter> set_mset H = {}"
    using mset_set_distinct [OF eq(1)] mset_set_unionD(3) [OF eq] by auto
  have "count H a \<le> count (mset fl + (inflight (w_log w) + T + H)) a"
    by simp
  also have "\<dots> \<le> 1"
    unfolding eq(1) by (simp add: count_mset_set')
  finally show "count H a \<le> 1" .
qed

text \<open>The library's freelist is a connection pool.\<close>

interpretation fa: conn_pool "fa_conn_alloc env s" fa_conn_free
  "\<lambda>H w. malloc_fresh env \<and> own T H w" freelist
proof (unfold_locales, goal_cases)
  case (1 H w a fl)
  then have head: "w_free_head w = Some a"
    by (simp add: freelist_def)
  with 1 obtain c where c: "w_heap w a = Some c"
    and own: "own T (add_mset a H) (w\<lparr>w_free_head := fc_next c\<rparr>)"
    unfolding own_def using owned_pop by fastforce
  have "freelist (w\<lparr>w_free_head := fc_next c\<rparr>) fl"
    using 1 c by (auto simp: freelist_def links_def)
  with 1 head c own show ?case
    by (simp add: fa_conn_alloc_def)
next
  case (2 H w)
  obtain p w' where m: "conn_malloc env s w = (p, w')"
    by (cases "conn_malloc env s w")
  moreover have "w_free_head w' = None"
    using m 2 by (auto simp: conn_malloc_def freelist_def Let_def split: option.splits)
  ultimately show ?case
    using 2 conn_malloc_own [of env T H w s p w']
    by (auto simp: fa_conn_alloc_def freelist_def)
next
  case (3 a H w fl)
  then have own: "own T (add_mset a H) w" and fl: "freelist w fl"
    by auto
  have "a \<notin> set fl"
    using mset_set_unionD(3) [OF own_partition [OF own fl]] by auto
  with fl have "freelist w' (a # fl)" if "fa_conn_free a w = Some w'" for w'
    using that by (auto simp: fa_conn_free_def freelist_def split: bind_splits)
  with 3 fa_conn_free_own [OF own] show ?case
    by blast
next
  case (4 H w)
  then show ?case using own_freelist by blast
next
  case (5 H w fl)
  then show ?case
    using own_held_distinct [of T H w fl] by blast
qed

text \<open>An allocated connection always has room for the header and the receive buffer.\<close>

definition roomy :: "fa_server \<Rightarrow> fa_worker \<Rightarrow> bool" where
  "roomy s w \<longleftrightarrow> (\<forall>a c. w_heap w a = Some c \<longrightarrow> fc_room c = c_size_t (srv_conn_size s))"

end
