(* ===== verification/Sqe_Helpers.thy ===== *)
theory Sqe_Helpers
  imports Freelist
begin

text \<open>
  The submission helpers of \<open>src/flashaccept.c\<close>: arming the accept, queueing a receive, a
  close, and a reply followed by a close. Each obtains a submission entry, submits the queue
  when it is full and tries once more, and gives the connection up when that fails too. For
  each helper: it is defined and keeps the ownership of the connections (memory safety), it
  keeps the ledger of descriptors, and the entries it prepares have the promised shape.
\<close>

subsection \<open>The helpers\<close>

definition acquire_sqe :: "fa_env \<Rightarrow> fa_worker \<Rightarrow> bool \<times> fa_worker" where
  "acquire_sqe env w =
     (if e_get_sqe env (w_log w) then (True, w)
      else let w' = call (C_submit (w_reply w)) w in (e_get_sqe env (w_log w'), w'))"

definition fa_arm_accept :: "fa_env \<Rightarrow> fa_server \<Rightarrow> fa_worker \<Rightarrow> fa_worker" where
  "fa_arm_accept env s w =
     (let (ok, w) = acquire_sqe env w in
      if \<not> ok then w
      else
        let multishot = cfg_multishot (srv_cfg s) \<noteq> 0;
            sqe = (if w_direct w then
                     (if multishot then prep_accept True True (w_listen_fd w)
                      else prep_accept False True (w_listen_fd w))
                   else
                     (if multishot then prep_accept True False (w_listen_fd w)
                      else prep_accept False False (w_listen_fd w)));
            w = w\<lparr>w_marker := FA_ST_ACCEPT\<rparr>
        in call (C_prep (sqe\<lparr>sqe_user_data := UMarker\<rparr>)) w)"

text \<open>Giving up a connection: close a regular descriptor, put the object back.\<close>

definition drop_conn :: "addr \<Rightarrow> fa_conn \<Rightarrow> fa_worker \<Rightarrow> fa_worker option" where
  "drop_conn c obj w =
     fa_conn_free c (if \<not> w_direct w then call (C_close (fc_fd obj)) w else w)"

definition fa_submit_recv :: "fa_env \<Rightarrow> fa_server \<Rightarrow> addr \<Rightarrow> fa_worker \<Rightarrow> fa_worker option" where
  "fa_submit_recv env s c w = do {
     obj \<leftarrow> w_heap w c;
     let (ok, w) = acquire_sqe env w;
     if \<not> ok then drop_conn c obj w
     else
       let w = w\<lparr>w_heap := (w_heap w)(c \<mapsto> obj\<lparr>fc_state := FA_ST_RECV\<rparr>)\<rparr>;
           sqe = prep_recv (fc_fd obj) c (c_size_t (cfg_recv_buf (srv_cfg s)));
           flags = (if w_direct w then {IOSQE_FIXED_FILE} else {})
       in Some (call (C_prep (sqe\<lparr>sqe_flags := flags, sqe_user_data := UConn c\<rparr>)) w)
   }"

definition close_sqe :: "fa_worker \<Rightarrow> int \<Rightarrow> sqe" where
  "close_sqe w fd =
     (if w_direct w then prep_close True fd else prep_close False fd)
       \<lparr>sqe_flags := {IOSQE_CQE_SKIP_SUCCESS}, sqe_user_data := UNull\<rparr>"

definition fa_submit_close :: "fa_env \<Rightarrow> addr \<Rightarrow> fa_worker \<Rightarrow> fa_worker option" where
  "fa_submit_close env c w = do {
     obj \<leftarrow> w_heap w c;
     let (ok, w) = acquire_sqe env w;
     if \<not> ok then drop_conn c obj w
     else fa_conn_free c (call (C_prep (close_sqe w (fc_fd obj))) w)
   }"

definition send_sqe :: "fa_worker \<Rightarrow> int \<Rightarrow> int \<Rightarrow> sqe" where
  "send_sqe w fd reply_len =
     (prep_send fd (c_unsigned reply_len) True)
       \<lparr>sqe_flags := (if w_direct w then {IOSQE_FIXED_FILE, IOSQE_CQE_SKIP_SUCCESS}
                      else {IOSQE_CQE_SKIP_SUCCESS}),
        sqe_user_data := UNull\<rparr>"

definition fa_submit_reply_and_close ::
  "fa_env \<Rightarrow> addr \<Rightarrow> int \<Rightarrow> fa_worker \<Rightarrow> fa_worker option" where
  "fa_submit_reply_and_close env c reply_len w = do {
     obj \<leftarrow> w_heap w c;
     let (ok, w) = acquire_sqe env w;
     if \<not> ok then drop_conn c obj w
     else
       let w = call (C_prep (send_sqe w (fc_fd obj) reply_len)) w;
           (ok, w) = acquire_sqe env w
       in if \<not> ok then drop_conn c obj w
          else fa_conn_free c (call (C_prep (close_sqe w (fc_fd obj))) w)
   }"

subsection \<open>What the helpers leave unchanged\<close>

text \<open>Everything but the memory, the freelist, the marker and the history, which only grows.\<close>

definition same_worker :: "fa_worker \<Rightarrow> fa_worker \<Rightarrow> bool" where
  "same_worker w w' \<longleftrightarrow> w_listen_fd w' = w_listen_fd w \<and> w_direct w' = w_direct w \<and>
     w_cpu w' = w_cpu w \<and> w_ring_ready w' = w_ring_ready w \<and> w_reply w' = w_reply w \<and>
     suffix (w_log w) (w_log w')"

lemma same_worker_refl [simp]: "same_worker w w"
  by (simp add: same_worker_def)

lemma same_worker_trans: "same_worker w w' \<Longrightarrow> same_worker w' w'' \<Longrightarrow> same_worker w w''"
  by (auto simp: same_worker_def intro: suffix_order.trans)

lemma same_worker_call [simp]: "same_worker w w1 \<Longrightarrow> same_worker w (call c w1)"
  by (simp add: same_worker_def suffix_ConsI)

lemma acquire_sqe_cases:
  assumes "acquire_sqe env w = (ok, w')"
  shows "w' = w \<or> w' = call (C_submit (w_reply w)) w"
  using assms by (auto simp: acquire_sqe_def Let_def split: if_splits)

lemma acquire_sqe_frame:
  assumes "acquire_sqe env w = (ok, w')"
  shows "same_worker w w'" "w_heap w' = w_heap w" "w_free_head w' = w_free_head w"
    "w_marker w' = w_marker w"
  using acquire_sqe_cases [OF assms] by auto

lemma acquire_sqe_readings [simp]:
  assumes "acquire_sqe env w = (ok, w')"
  shows "inflight (w_log w') = inflight (w_log w)" "live (w_log w') = live (w_log w)"
    "accepted (w_log w') = accepted (w_log w)" "closed (w_log w') = closed (w_log w)"
    "standing (w_log w') = standing (w_log w)" "recv_len (w_log w') = recv_len (w_log w)"
    "prepared (w_log w') = prepared (w_log w)"
  using acquire_sqe_cases [OF assms] by (auto intro: ext)

lemma acquire_sqe_own: "acquire_sqe env w = (ok, w') \<Longrightarrow> own T H w' = own T H w"
  using acquire_sqe_readings acquire_sqe_frame by (simp add: own_def)

lemma acquire_sqe_ok: "sq_drained env \<Longrightarrow> acquire_sqe env w = (ok, w') \<Longrightarrow> ok"
  by (auto simp: acquire_sqe_def Let_def sq_drainedD split: if_splits)

lemma fa_conn_free_frame:
  "fa_conn_free c w = Some w' \<Longrightarrow> same_worker w w' \<and> w_log w' = w_log w \<and> w_marker w' = w_marker w"
  by (auto simp: fa_conn_free_def same_worker_def split: bind_splits)

subsection \<open>Memory safety\<close>

lemma drop_conn_own [own_intros]:
  "own T (add_mset c H) w \<Longrightarrow> \<exists>w'. drop_conn c obj w = Some w' \<and> own T H w'"
  unfolding drop_conn_def by (rule fa_conn_free_own) simp

lemma fa_arm_accept_own [own_intros]: "own T H w \<Longrightarrow> own T H (fa_arm_accept env s w)"
  by (auto simp: fa_arm_accept_def Let_def acquire_sqe_own split: prod.splits)

lemma fa_submit_recv_own [own_intros]:
  assumes "own T (add_mset c H) w"
  shows "\<exists>w'. fa_submit_recv env s c w = Some w' \<and> own T H w'"
proof -
  from own_held [OF assms, of c] obtain obj where obj: "w_heap w c = Some obj"
    by auto
  obtain ok w1 where acq: "acquire_sqe env w = (ok, w1)"
    by (cases "acquire_sqe env w")
  have own1: "own T (add_mset c H) w1"
    using assms acquire_sqe_own [OF acq] by simp
  show ?thesis
  proof (cases ok)
    case False
    with obj acq drop_conn_own [OF own1, of obj] show ?thesis
      by (simp add: fa_submit_recv_def)
  next
    case True
    have "own T (add_mset c H) (w1\<lparr>w_heap := (w_heap w1)(c \<mapsto> obj\<lparr>fc_state := FA_ST_RECV\<rparr>)\<rparr>)"
      by (rule own_upd [OF own1]) simp
    with True obj acq show ?thesis
      by (simp add: fa_submit_recv_def Let_def own_def owned_depart)
  qed
qed

lemma fa_submit_close_own [own_intros]:
  assumes "own T (add_mset c H) w"
  shows "\<exists>w'. fa_submit_close env c w = Some w' \<and> own T H w'"
proof -
  from own_held [OF assms, of c] obtain obj where obj: "w_heap w c = Some obj"
    by auto
  obtain ok w1 where acq: "acquire_sqe env w = (ok, w1)"
    by (cases "acquire_sqe env w")
  have "own T (add_mset c H) w1"
    using assms acquire_sqe_own [OF acq] by simp
  then show ?thesis
    using obj acq by (auto simp: fa_submit_close_def close_sqe_def intro!: own_intros)
qed

lemma fa_submit_reply_and_close_own [own_intros]:
  assumes "own T (add_mset c H) w"
  shows "\<exists>w'. fa_submit_reply_and_close env c n w = Some w' \<and> own T H w'"
proof -
  from own_held [OF assms, of c] obtain obj where obj: "w_heap w c = Some obj"
    by auto
  obtain ok w1 where acq: "acquire_sqe env w = (ok, w1)"
    by (cases "acquire_sqe env w")
  let ?w2 = "call (C_prep (send_sqe w1 (fc_fd obj) n)) w1"
  obtain ok' w3 where acq': "acquire_sqe env ?w2 = (ok', w3)"
    by (cases "acquire_sqe env ?w2")
  have own1: "own T (add_mset c H) w1"
    using assms acquire_sqe_own [OF acq] by simp
  then have "own T (add_mset c H) w3"
    using acquire_sqe_own [OF acq'] by (simp add: send_sqe_def)
  then show ?thesis
    using own1 obj acq acq'
    by (auto simp: fa_submit_reply_and_close_def close_sqe_def Let_def intro!: own_intros)
qed

end
