(* ===== verification/Protocol.thy ===== *)
theory Protocol
  imports Sqe_Helpers
begin

text \<open>
  Two more invariants of the submission helpers. \<open>ledger\<close> accounts for descriptors: every
  descriptor the kernel handed out is held by exactly one connection, waits in the current
  batch, was given back, or was lost. \<open>tidy\<close> is the discipline of the submission entries: what
  kind of accept is armed, which descriptor space an entry refers to, which entries may post a
  completion, how long the buffers are.
\<close>

subsection \<open>The ledger of descriptors\<close>

definition conn_fd :: "fa_worker \<Rightarrow> addr \<Rightarrow> int" where
  "conn_fd w a = (case w_heap w a of Some c \<Rightarrow> fc_fd c | None \<Rightarrow> 0)"

text \<open>\<open>X\<close>: accepted in the current batch and not looked at yet. \<open>P\<close>: nothing may be lost.\<close>

definition ledger :: "bool \<Rightarrow> addr multiset \<Rightarrow> int multiset \<Rightarrow> fa_worker \<Rightarrow> bool" where
  "ledger P H X w \<longleftrightarrow> (\<exists>lost. (P \<longrightarrow> lost = {#}) \<and>
     accepted (w_log w) =
       image_mset (conn_fd w) (inflight (w_log w) + H) + X + closed (w_log w) + lost)"

lemma ledger_cong:
  assumes "accepted (w_log w') = accepted (w_log w)" and "conn_fd w' = conn_fd w"
    and "inflight (w_log w') + H' = inflight (w_log w) + H"
    and "closed (w_log w') + X' = closed (w_log w) + X"
  shows "ledger P H' X' w' = ledger P H X w"
proof -
  have eq: "M + X' + closed (w_log w') + L = M + X + closed (w_log w) + L" for M L
    using assms(4) by (metis add.assoc add.commute)
  show ?thesis
    unfolding ledger_def assms(1,2,3) by (simp only: eq)
qed

lemma conn_fd_call [simp]: "conn_fd (call c w) = conn_fd w"
  by (rule ext) (simp add: conn_fd_def)

lemma conn_fd_free: "fa_conn_free c w = Some w' \<Longrightarrow> conn_fd w' = conn_fd w"
  by (rule ext) (auto simp: fa_conn_free_def conn_fd_def split: bind_splits)

lemma conn_fd_acquire: "acquire_sqe env w = (ok, w') \<Longrightarrow> conn_fd w' = conn_fd w"
  using acquire_sqe_frame(2) by (auto simp: conn_fd_def intro: ext)

lemma conn_fd_obj: "w_heap w c = Some obj \<Longrightarrow> conn_fd w c = fc_fd obj"
  by (simp add: conn_fd_def)

lemma ledger_acquire: "acquire_sqe env w = (ok, w') \<Longrightarrow> ledger P H X w' = ledger P H X w"
  by (rule ledger_cong) (simp_all add: conn_fd_acquire)

lemma ledger_free: "fa_conn_free c w = Some w' \<Longrightarrow> ledger P H X w' = ledger P H X w"
  using fa_conn_free_frame by (intro ledger_cong) (auto simp: conn_fd_free)

lemma ledger_close:
  assumes "ledger P (add_mset c H) X w" and "w_heap w c = Some obj"
    and "closed (q # w_log w) = add_mset (fc_fd obj) (closed (w_log w))"
    and "inflight (q # w_log w) = inflight (w_log w)"
    and "accepted (q # w_log w) = accepted (w_log w)"
  shows "ledger P H X (call q w)"
  using assms by (simp add: ledger_def conn_fd_obj [OF assms(2)])

lemma ledger_lose:
  assumes "ledger P (add_mset c H) X w" and "\<not> P"
  shows "ledger P H X w"
proof -
  from assms obtain lost where
    "accepted (w_log w) = image_mset (conn_fd w) (inflight (w_log w) + add_mset c H) + X +
       closed (w_log w) + lost"
    by (auto simp: ledger_def)
  then have "accepted (w_log w) = image_mset (conn_fd w) (inflight (w_log w) + H) + X +
       closed (w_log w) + add_mset (conn_fd w c) lost"
    by simp
  with assms(2) show ?thesis unfolding ledger_def by blast
qed

lemma drop_conn_ledger:
  assumes "ledger P (add_mset c H) X w" and "w_heap w c = Some obj"
    and "drop_conn c obj w = Some w'" and "P \<Longrightarrow> \<not> w_direct w"
  shows "ledger P H X w'"
proof (cases "w_direct w")
  case True
  with assms(4) have "\<not> P" by blast
  with True assms ledger_lose [OF assms(1)] show ?thesis
    by (simp add: drop_conn_def ledger_free)
next
  case False
  have "ledger P H X (call (C_close (fc_fd obj)) w)"
    by (rule ledger_close [OF assms(1,2)]) simp_all
  with False assms(3) show ?thesis
    by (simp add: drop_conn_def ledger_free)
qed

lemma fa_arm_accept_ledger: "ledger P H X w \<Longrightarrow> ledger P H X (fa_arm_accept env s w)"
proof -
  assume l: "ledger P H X w"
  obtain ok w1 where acq: "acquire_sqe env w = (ok, w1)"
    by (cases "acquire_sqe env w")
  have "ledger P H X w1"
    using l ledger_acquire [OF acq] by simp
  moreover have "ledger P H X (call (C_prep q) (w1\<lparr>w_marker := FA_ST_ACCEPT\<rparr>)) = ledger P H X w1"
    if "recv_target q = {#}" "close_target q = {#}" for q
    using that by (intro ledger_cong) (auto simp: conn_fd_def intro: ext)
  ultimately show ?thesis
    using acq by (simp add: fa_arm_accept_def Let_def)
qed

lemma fa_submit_recv_ledger:
  assumes "ledger P (add_mset c H) X w" and "fa_submit_recv env s c w = Some w'"
    and "P \<Longrightarrow> \<not> w_direct w \<or> sq_drained env"
  shows "ledger P H X w'"
proof -
  from assms(2) obtain obj where obj: "w_heap w c = Some obj"
    by (auto simp: fa_submit_recv_def split: bind_splits)
  obtain ok w1 where acq: "acquire_sqe env w = (ok, w1)"
    by (cases "acquire_sqe env w")
  have l1: "ledger P (add_mset c H) X w1" and obj1: "w_heap w1 c = Some obj"
    and d: "w_direct w1 = w_direct w"
    using assms(1) obj ledger_acquire [OF acq] acquire_sqe_frame [OF acq]
    by (simp_all add: same_worker_def)
  show ?thesis
  proof (cases ok)
    case False
    with assms(3) acquire_sqe_ok [OF _ acq] d have "P \<Longrightarrow> \<not> w_direct w1"
      by blast
    with False assms(2) obj acq drop_conn_ledger [OF l1 obj1] show ?thesis
      by (simp add: fa_submit_recv_def)
  next
    case True
    let ?w2 = "w1\<lparr>w_heap := (w_heap w1)(c \<mapsto> obj\<lparr>fc_state := FA_ST_RECV\<rparr>)\<rparr>"
    have fd: "conn_fd ?w2 = conn_fd w1"
      using obj1 by (auto simp: conn_fd_def intro: ext)
    have "ledger P H X (call (C_prep q) ?w2) = ledger P (add_mset c H) X w1"
      if "recv_target q = {#c#}" "close_target q = {#}" for q
      using that fd by (intro ledger_cong) auto
    with True assms(2) obj acq l1 show ?thesis
      by (auto simp: fa_submit_recv_def Let_def)
  qed
qed

lemma close_and_free_ledger:
  assumes "ledger P (add_mset c H) X w" and "w_heap w c = Some obj"
    and "fa_conn_free c (call (C_prep (close_sqe w (fc_fd obj))) w) = Some w'"
  shows "ledger P H X w'"
proof -
  have "ledger P H X (call (C_prep (close_sqe w (fc_fd obj))) w)"
    by (rule ledger_close [OF assms(1,2)]) (simp_all add: close_sqe_def)
  with ledger_free [OF assms(3)] show ?thesis by simp
qed

lemma fa_submit_close_ledger:
  assumes "ledger P (add_mset c H) X w" and "fa_submit_close env c w = Some w'"
    and "P \<Longrightarrow> \<not> w_direct w \<or> sq_drained env"
  shows "ledger P H X w'"
proof -
  from assms(2) obtain obj where obj: "w_heap w c = Some obj"
    by (auto simp: fa_submit_close_def split: bind_splits)
  obtain ok w1 where acq: "acquire_sqe env w = (ok, w1)"
    by (cases "acquire_sqe env w")
  have l1: "ledger P (add_mset c H) X w1" and obj1: "w_heap w1 c = Some obj"
    and d: "w_direct w1 = w_direct w"
    using assms(1) obj ledger_acquire [OF acq] acquire_sqe_frame [OF acq]
    by (simp_all add: same_worker_def)
  have "P \<Longrightarrow> \<not> ok \<Longrightarrow> \<not> w_direct w1"
    using assms(3) acquire_sqe_ok [OF _ acq] d by blast
  then show ?thesis
    using assms(2) obj acq drop_conn_ledger [OF l1 obj1] close_and_free_ledger [OF l1 obj1]
    by (auto simp: fa_submit_close_def split: if_splits)
qed

lemma fa_submit_reply_and_close_ledger:
  assumes "ledger P (add_mset c H) X w" and "fa_submit_reply_and_close env c n w = Some w'"
    and "P \<Longrightarrow> \<not> w_direct w \<or> sq_drained env"
  shows "ledger P H X w'"
proof -
  from assms(2) obtain obj where obj: "w_heap w c = Some obj"
    by (auto simp: fa_submit_reply_and_close_def split: bind_splits)
  obtain ok w1 where acq: "acquire_sqe env w = (ok, w1)"
    by (cases "acquire_sqe env w")
  let ?w2 = "call (C_prep (send_sqe w1 (fc_fd obj) n)) w1"
  obtain ok' w3 where acq': "acquire_sqe env ?w2 = (ok', w3)"
    by (cases "acquire_sqe env ?w2")
  have l1: "ledger P (add_mset c H) X w1" and obj1: "w_heap w1 c = Some obj"
    and d: "w_direct w1 = w_direct w" "w_direct w3 = w_direct w"
    using assms(1) obj ledger_acquire [OF acq] acquire_sqe_frame [OF acq]
      acquire_sqe_frame [OF acq'] by (simp_all add: same_worker_def)
  have l2: "ledger P (add_mset c H) X ?w2"
    using l1 by (subst ledger_cong [where w = w1]) (auto simp: send_sqe_def)
  then have l3: "ledger P (add_mset c H) X w3" and obj3: "w_heap w3 c = Some obj"
    using obj1 ledger_acquire [OF acq'] acquire_sqe_frame [OF acq'] by simp_all
  have "P \<Longrightarrow> \<not> ok \<Longrightarrow> \<not> w_direct w1" "P \<Longrightarrow> \<not> ok' \<Longrightarrow> \<not> w_direct w3"
    using assms(3) acquire_sqe_ok [OF _ acq] acquire_sqe_ok [OF _ acq'] d by blast+
  then show ?thesis
    using assms(2) obj acq acq' drop_conn_ledger [OF l1 obj1] drop_conn_ledger [OF l3 obj3]
      close_and_free_ledger [OF l3 obj3]
    by (auto simp: fa_submit_reply_and_close_def Let_def split: if_splits)
qed

subsection \<open>The discipline of the entries\<close>

definition sqe_ok :: "fa_server \<Rightarrow> bool \<Rightarrow> int \<Rightarrow> sqe \<Rightarrow> bool" where
  "sqe_ok s direct listen_fd q = (case sqe_op q of
     OP_ACCEPT m d \<Rightarrow> m = (cfg_multishot (srv_cfg s) \<noteq> 0) \<and> d = direct \<and>
       sqe_fd q = listen_fd \<and> sqe_user_data q = UMarker
   | OP_RECV \<Rightarrow> (case sqe_user_data q of UConn a \<Rightarrow> sqe_buf q = ConnBuf a | _ \<Rightarrow> False) \<and>
       sqe_len q = c_size_t (cfg_recv_buf (srv_cfg s)) \<and>
       sqe_flags q = (if direct then {IOSQE_FIXED_FILE} else {})
   | OP_SEND \<Rightarrow> sqe_user_data q = UNull \<and> sqe_buf q = ReplyBuf \<and> sqe_msg_more q \<and>
       0 < sqe_len q \<and> sqe_len q \<le> nat (cfg_reply_cap (srv_cfg s)) \<and>
       sqe_flags q = (if direct then {IOSQE_FIXED_FILE, IOSQE_CQE_SKIP_SUCCESS}
                      else {IOSQE_CQE_SKIP_SUCCESS})
   | OP_CLOSE d \<Rightarrow> sqe_user_data q = UNull \<and> d = direct \<and> sqe_flags q = {IOSQE_CQE_SKIP_SUCCESS})"

definition shaped :: "fa_server \<Rightarrow> fa_worker \<Rightarrow> bool" where
  "shaped s w \<longleftrightarrow> list_all (sqe_ok s (w_direct w) (w_listen_fd w)) (prepared (w_log w))"

definition tidy :: "fa_server \<Rightarrow> fa_worker \<Rightarrow> bool" where
  "tidy s w \<longleftrightarrow> w_marker w = FA_ST_ACCEPT \<and> roomy s w \<and> shaped s w \<and>
     length (w_reply w) = nat (cfg_reply_cap (srv_cfg s))"

lemma prepared_other [simp]: "(\<And>q. c \<noteq> C_prep q) \<Longrightarrow> prepared (c # h) = prepared h"
  by (cases c) auto

lemma tidy_call [simp]: "(\<And>q. c \<noteq> C_prep q) \<Longrightarrow> tidy s (call c w) = tidy s w"
  by (simp add: tidy_def shaped_def roomy_def)

lemma tidy_prep:
  "tidy s w \<Longrightarrow> sqe_ok s (w_direct w) (w_listen_fd w) q \<Longrightarrow> tidy s (call (C_prep q) w)"
  by (simp add: tidy_def shaped_def roomy_def)

lemma tidy_upd:
  assumes "tidy s w" and "w_heap w a = Some c" and "fc_room c' = fc_room c"
  shows "tidy s (w\<lparr>w_heap := (w_heap w)(a \<mapsto> c')\<rparr>)"
  using assms by (simp add: tidy_def roomy_def shaped_def)

lemma tidy_head [simp]: "tidy s (w\<lparr>w_free_head := p\<rparr>) = tidy s w"
  by (simp add: tidy_def roomy_def shaped_def)

lemma tidy_marker [simp]: "tidy s w \<Longrightarrow> tidy s (w\<lparr>w_marker := FA_ST_ACCEPT\<rparr>)"
  by (simp add: tidy_def roomy_def shaped_def)

lemma tidy_acquire: "acquire_sqe env w = (ok, w') \<Longrightarrow> tidy s w' = tidy s w"
  using acquire_sqe_cases by fastforce

lemma fa_conn_free_tidy: "tidy s w \<Longrightarrow> fa_conn_free c w = Some w' \<Longrightarrow> tidy s w'"
proof -
  assume t: "tidy s w" and f: "fa_conn_free c w = Some w'"
  from f obtain obj where obj: "w_heap w c = Some obj"
    and w': "w' = (w\<lparr>w_heap := (w_heap w)(c \<mapsto> obj\<lparr>fc_next := w_free_head w\<rparr>)\<rparr>)\<lparr>w_free_head := Some c\<rparr>"
    by (auto simp: fa_conn_free_def split: bind_splits)
  show ?thesis
    unfolding w' tidy_head by (rule tidy_upd [OF t obj]) simp
qed

lemma conn_malloc_tidy: "tidy s w \<Longrightarrow> conn_malloc env s w = (p, w') \<Longrightarrow> tidy s w'"
  by (fastforce simp: conn_malloc_def Let_def tidy_def roomy_def shaped_def
      split: option.splits if_splits)

lemma fa_conn_alloc_tidy: "tidy s w \<Longrightarrow> fa_conn_alloc env s w = Some (p, w') \<Longrightarrow> tidy s w'"
  by (auto simp: fa_conn_alloc_def conn_malloc_tidy split: option.splits bind_splits)

lemma drop_conn_tidy: "tidy s w \<Longrightarrow> drop_conn c obj w = Some w' \<Longrightarrow> tidy s w'"
  unfolding drop_conn_def by (rule fa_conn_free_tidy [of s]) auto

lemma fa_arm_accept_tidy: "tidy s w \<Longrightarrow> tidy s (fa_arm_accept env s w)"
  using tidy_acquire [of env w]
  by (auto simp: fa_arm_accept_def Let_def sqe_ok_def prep_defs intro!: tidy_prep
      split: prod.splits)

lemma fa_submit_recv_tidy:
  assumes "tidy s w" and "fa_submit_recv env s c w = Some w'"
  shows "tidy s w'"
proof -
  from assms(2) obtain obj where obj: "w_heap w c = Some obj"
    by (auto simp: fa_submit_recv_def split: bind_splits)
  obtain ok w1 where acq: "acquire_sqe env w = (ok, w1)"
    by (cases "acquire_sqe env w")
  have t1: "tidy s w1" and obj1: "w_heap w1 c = Some obj"
    using assms(1) obj tidy_acquire [OF acq] acquire_sqe_frame [OF acq] by simp_all
  have "tidy s (w1\<lparr>w_heap := (w_heap w1)(c \<mapsto> obj\<lparr>fc_state := FA_ST_RECV\<rparr>)\<rparr>)"
    by (rule tidy_upd [OF t1 obj1]) simp
  then show ?thesis
    using assms(2) obj acq drop_conn_tidy [OF t1]
    by (auto simp: fa_submit_recv_def Let_def sqe_ok_def prep_defs intro!: tidy_prep
        split: if_splits)
qed

lemma close_sqe_ok [simp]: "sqe_ok s (w_direct w) l (close_sqe w fd)"
  by (simp add: sqe_ok_def close_sqe_def prep_defs)

lemma send_sqe_ok [simp]:
  "0 < n \<Longrightarrow> n \<le> cfg_reply_cap (srv_cfg s) \<Longrightarrow> n < 2 ^ 31 \<Longrightarrow>
   sqe_ok s (w_direct w) l (send_sqe w fd n)"
  by (simp add: sqe_ok_def send_sqe_def prep_defs)

lemma close_and_free_tidy:
  "tidy s w \<Longrightarrow> fa_conn_free c (call (C_prep (close_sqe w fd)) w) = Some w' \<Longrightarrow> tidy s w'"
  by (rule fa_conn_free_tidy [OF tidy_prep]) auto

lemma fa_submit_close_tidy:
  assumes "tidy s w" and "fa_submit_close env c w = Some w'"
  shows "tidy s w'"
proof -
  obtain ok w1 where acq: "acquire_sqe env w = (ok, w1)"
    by (cases "acquire_sqe env w")
  have t1: "tidy s w1"
    using assms(1) tidy_acquire [OF acq] by simp
  then show ?thesis
    using assms(2) acq
    by (auto simp: fa_submit_close_def split: if_splits bind_splits
        intro: drop_conn_tidy close_and_free_tidy)
qed

lemma fa_submit_reply_and_close_tidy:
  assumes "tidy s w" and "fa_submit_reply_and_close env c n w = Some w'"
    and "0 < n" and "n \<le> cfg_reply_cap (srv_cfg s)" and "n < 2 ^ 31"
  shows "tidy s w'"
proof -
  from assms(2) obtain obj where obj: "w_heap w c = Some obj"
    by (auto simp: fa_submit_reply_and_close_def split: bind_splits)
  obtain ok w1 where acq: "acquire_sqe env w = (ok, w1)"
    by (cases "acquire_sqe env w")
  let ?w2 = "call (C_prep (send_sqe w1 (fc_fd obj) n)) w1"
  obtain ok' w3 where acq': "acquire_sqe env ?w2 = (ok', w3)"
    by (cases "acquire_sqe env ?w2")
  have t1: "tidy s w1"
    using assms(1) tidy_acquire [OF acq] by simp
  then have "tidy s ?w2"
    by (rule tidy_prep) (use assms(3-5) in simp)
  then have t3: "tidy s w3"
    using tidy_acquire [OF acq'] by simp
  from t1 t3 show ?thesis
    using assms(2) obj acq acq'
    by (auto simp: fa_submit_reply_and_close_def Let_def split: if_splits
        intro: drop_conn_tidy close_and_free_tidy)
qed

text \<open>No receive ever asks for more than the configured buffer.\<close>

lemma recv_len_bound:
  "list_all (sqe_ok s d l) (prepared h) \<Longrightarrow> recv_len h a \<le> c_size_t (cfg_recv_buf (srv_cfg s))"
proof (induction h)
  case Nil
  then show ?case by simp
next
  case (Cons c h)
  show ?case
  proof (cases c)
    case (C_prep q)
    with Cons show ?thesis
      by (auto simp: recv_target_def sqe_ok_def split: sqe_opcode.splits uref.splits)
  qed (use Cons in auto)
qed

end
