(* ===== verification/Event_Loop.thy ===== *)
theory Event_Loop
  imports Uring
begin

text \<open>
  The control structure both servers share: a loop over a batch of completions inside a
  \<open>while\<close> loop around the wait call. \<open>None\<close> from the body is undefined behaviour; a loop that
  never ends has the result \<open>None\<close>. Two interfaces state when a batch is processed and when
  the loop keeps an invariant and returns.
\<close>

subsection \<open>Batches\<close>

fun for_each :: "('q \<Rightarrow> 'w \<Rightarrow> 'w option) \<Rightarrow> 'q list \<Rightarrow> 'w \<Rightarrow> 'w option" where
  "for_each f [] w = Some w"
| "for_each f (q # qs) w = do { w' \<leftarrow> f q w; for_each f qs w' }"

lemma for_each_append:
  "for_each f (xs @ ys) w = do { w' \<leftarrow> for_each f xs w; for_each f ys w' }"
  by (induction xs arbitrary: w) (auto split: bind_splits)

text \<open>\<open>inv qs w\<close>: the invariant in the middle of a batch of which \<open>qs\<close> remains.\<close>

locale completion_handler =
  fixes handle :: "'q \<Rightarrow> 'w \<Rightarrow> 'w option"
    and inv :: "'q list \<Rightarrow> 'w \<Rightarrow> bool"
  assumes handles: "inv (q # qs) w \<Longrightarrow> \<exists>w'. handle q w = Some w' \<and> inv qs w'"
begin

lemma drains: "inv (qs @ rest) w \<Longrightarrow> \<exists>w'. for_each handle qs w = Some w' \<and> inv rest w'"
proof (induction qs arbitrary: w)
  case Nil
  then show ?case by simp
next
  case (Cons q qs)
  then obtain w1 where "handle q w = Some w1" "inv (qs @ rest) w1"
    using handles by fastforce
  with Cons.IH show ?case by simp
qed

lemma drains_all: "inv qs w \<Longrightarrow> \<exists>w'. for_each handle qs w = Some w' \<and> inv [] w'"
  using drains [of qs "[]"] by simp

end

text \<open>Two handlers that keep matching states matching, undefined behaviour included, process a
  whole batch alike.\<close>

locale batch_simulation =
  fixes handle :: "'q \<Rightarrow> 'w \<Rightarrow> 'w option"
    and handle' :: "'q \<Rightarrow> 't \<Rightarrow> 't option"
    and match :: "'q list \<Rightarrow> 'w \<Rightarrow> 't \<Rightarrow> bool"
  assumes handled_alike: "match (q # qs) w t \<Longrightarrow> rel_option (match qs) (handle q w) (handle' q t)"
begin

lemma drained_alike: "match qs w t \<Longrightarrow> rel_option (match []) (for_each handle qs w) (for_each handle' qs t)"
proof (induction qs arbitrary: w t)
  case Nil
  then show ?case by simp
next
  case (Cons q qs)
  from handled_alike [OF Cons.prems] show ?case
    by (cases rule: option.rel_cases) (auto dest: Cons.IH)
qed

end

subsection \<open>The loop\<close>

datatype 'w loop_next = Continue 'w | Break 'w

datatype 'w loop_exit = Exited 'w | Undefined

partial_function (option) run_loop ::
  "('w \<Rightarrow> bool) \<Rightarrow> ('w \<Rightarrow> 'w loop_next option) \<Rightarrow> 'w \<Rightarrow> 'w loop_exit option" where
  "run_loop stop body w =
     (if stop w then Some (Exited w)
      else case body w of
             None \<Rightarrow> Some Undefined
           | Some r \<Rightarrow> (case r of Break w' \<Rightarrow> Some (Exited w')
                               | Continue w' \<Rightarrow> run_loop stop body w'))"

text \<open>The states in which the loop head is reached.\<close>

inductive loop_head :: "('w \<Rightarrow> bool) \<Rightarrow> ('w \<Rightarrow> 'w loop_next option) \<Rightarrow> 'w \<Rightarrow> 'w \<Rightarrow> bool"
  for stop body w0 where
  enter: "loop_head stop body w0 w0"
| again: "loop_head stop body w0 w \<Longrightarrow> \<not> stop w \<Longrightarrow> body w = Some (Continue w') \<Longrightarrow>
    loop_head stop body w0 w'"

inductive_cases loop_headE: "loop_head stop body w0 w"

lemma loop_head_step:
  assumes "loop_head stop body w1 w" and "body w0 = Some (Continue w1)" and "\<not> stop w0"
  shows "loop_head stop body w0 w"
  using assms by (induction rule: loop_head.induct) (auto intro: loop_head.intros)

text \<open>
  The contract of a loop: what holds at its head, what holds when it is left, and a clock that
  every iteration advances.
\<close>

locale loop_contract =
  fixes stop :: "'w \<Rightarrow> bool"
    and body :: "'w \<Rightarrow> 'w loop_next option"
    and inv :: "'w \<Rightarrow> bool"
    and post :: "'w \<Rightarrow> bool"
    and clock :: "'w \<Rightarrow> nat"
  assumes iteration_continues: "inv w \<Longrightarrow> body w = Some (Continue w') \<Longrightarrow> inv w' \<and> clock w < clock w'"
    and iteration_breaks: "inv w \<Longrightarrow> body w = Some (Break w') \<Longrightarrow> post w'"
    and iteration_defined: "inv w \<Longrightarrow> body w \<noteq> None"
    and stop_leaves: "inv w \<Longrightarrow> stop w \<Longrightarrow> post w"
begin

lemma head_inv: "loop_head stop body w0 w \<Longrightarrow> inv w0 \<Longrightarrow> inv w"
  by (induction rule: loop_head.induct) (auto dest: iteration_continues)

lemma exit_inv:
  assumes ret: "run_loop stop body w = Some r" and inv: "inv w"
  shows "\<exists>w'. r = Exited w' \<and> post w'"
proof -
  let ?P = "\<lambda>st b v r. st = stop \<longrightarrow> b = body \<longrightarrow> inv v \<longrightarrow> (\<exists>w'. r = Exited w' \<and> post w')"
  have "?P stop body w r"
  proof (rule run_loop.raw_induct [where P = ?P, OF _ ret], intro impI)
    fix f st b v r
    assume IH: "\<And>st b v r. f st b v = Some r \<Longrightarrow> ?P st b v r" and eq: "st = stop" "b = body" "inv v"
      and res: "(if st v then Some (Exited v)
        else case b v of None \<Rightarrow> Some Undefined
             | Some n \<Rightarrow> (case n of Break w' \<Rightarrow> Some (Exited w') | Continue w' \<Rightarrow> f st b w')) = Some r"
    from eq iteration_defined obtain n where n: "body v = Some n"
      by blast
    show "\<exists>w'. r = Exited w' \<and> post w'"
    proof (cases n)
      case (Continue w')
      with n eq iteration_continues have "inv w'" by blast
      with Continue n eq res IH stop_leaves show ?thesis by (auto split: if_splits)
    next
      case (Break w')
      with n eq iteration_breaks have "post w'" by blast
      with Break n eq res stop_leaves show ?thesis by (auto split: if_splits)
    qed
  qed
  with inv show ?thesis by blast
qed

text \<open>
  The loop returns if from some point of the clock on it stops or breaks: every iteration
  advances the clock.
\<close>

lemma returns_or_breaks:
  assumes "inv w" and "\<And>v. inv v \<Longrightarrow> n \<le> clock v \<Longrightarrow> stop v \<or> (\<exists>w'. body v = Some (Break w'))"
  shows "\<exists>w'. run_loop stop body w = Some (Exited w') \<and> post w'"
  using assms(1)
proof (induction "n - clock w" arbitrary: w rule: less_induct)
  case less
  show ?case
  proof (cases "stop w \<or> (\<exists>w'. body w = Some (Break w'))")
    case True
    with less.prems stop_leaves iteration_breaks show ?thesis by (auto simp: run_loop.simps)
  next
    case False
    then have c: "clock w < n"
      using assms(2) less.prems linorder_not_less by blast
    from less.prems iteration_defined obtain r where r: "body w = Some r" by blast
    with False obtain w' where Continue: "r = Continue w'"
      by (cases r) auto
    with r less.prems have w': "inv w'" "clock w < clock w'"
      using iteration_continues by auto
    with c have "n - clock w' < n - clock w" by simp
    from less.hyps [OF this w'(1)] False r Continue show ?thesis
      by (simp add: run_loop.simps [of stop body w])
  qed
qed

lemma returns:
  assumes "inv w" and "\<And>v. inv v \<Longrightarrow> n \<le> clock v \<Longrightarrow> stop v"
  shows "\<exists>w'. run_loop stop body w = Some (Exited w') \<and> post w'"
  using returns_or_breaks [OF assms(1)] assms(2) by blast

end

text \<open>The contract of a loop that keeps its invariant to the end.\<close>

locale event_loop =
  fixes stop :: "'w \<Rightarrow> bool"
    and body :: "'w \<Rightarrow> 'w loop_next option"
    and inv :: "'w \<Rightarrow> bool"
    and clock :: "'w \<Rightarrow> nat"
  assumes body_continues: "inv w \<Longrightarrow> body w = Some (Continue w') \<Longrightarrow> inv w' \<and> clock w < clock w'"
    and body_breaks: "inv w \<Longrightarrow> body w = Some (Break w') \<Longrightarrow> inv w'"
    and body_defined: "inv w \<Longrightarrow> body w \<noteq> None"

sublocale event_loop \<subseteq> loop_contract stop body inv inv clock
  by unfold_locales (blast intro: body_continues [THEN conjunct1] body_continues [THEN conjunct2]
      body_breaks dest: body_defined)+

text \<open>
  A loop that follows another: each of its iterations is matched by an iteration of the other,
  or leaves the match as it is.
\<close>

locale loop_simulation =
  fixes stop :: "'w \<Rightarrow> bool"
    and body :: "'w \<Rightarrow> 'w loop_next option"
    and stop' :: "'t \<Rightarrow> bool"
    and body' :: "'t \<Rightarrow> 't loop_next option"
    and match :: "'w \<Rightarrow> 't \<Rightarrow> bool"
  assumes iteration_followed: "match w t \<Longrightarrow> \<not> stop w \<Longrightarrow> body w = Some (Continue w') \<Longrightarrow>
    match w' t \<or> \<not> stop' t \<and> (\<exists>t'. body' t = Some (Continue t') \<and> match w' t')"
begin

lemma heads_followed:
  "loop_head stop body w0 w \<Longrightarrow> match w0 t0 \<Longrightarrow> \<exists>t. loop_head stop' body' t0 t \<and> match w t"
proof (induction rule: loop_head.induct)
  case enter
  then show ?case by (auto intro: loop_head.enter)
next
  case (again w w')
  then obtain t where "loop_head stop' body' t0 t" "match w t"
    by blast
  with iteration_followed [of w t w'] again.hyps show ?case
    by (blast intro: loop_head.again)
qed

end

end
