(* ===== verification/Worker.thy ===== *)
theory Worker
  imports Protocol Event_Loop
begin

text \<open>
  The worker of \<open>src/flashaccept.c\<close>: processing one completion, the event loop, the thread
  entry. The invariant \<open>worker_inv\<close> joins ownership, ledger and entry discipline; every
  completion keeps it, so the loop keeps it and is free of undefined behaviour.
\<close>

subsection \<open>Processing a completion\<close>

text \<open>The accept branch of the drain loop.\<close>

definition fa_on_accept :: "fa_env \<Rightarrow> fa_server \<Rightarrow> cqe \<Rightarrow> fa_worker \<Rightarrow> fa_worker option" where
  "fa_on_accept env s q w =
     (let w = (if \<not> cqe_more q then fa_arm_accept env s w else w) in
      if cqe_res q < 0 then Some w
      else do {
        (nc, w) \<leftarrow> fa_conn_alloc env s w;
        case nc of
          None \<Rightarrow> Some (if \<not> w_direct w then call (C_close (cqe_res q)) w else w)
        | Some c \<Rightarrow> do {
            obj \<leftarrow> w_heap w c;
            fa_submit_recv env s c (w\<lparr>w_heap := (w_heap w)(c \<mapsto> obj\<lparr>fc_fd := cqe_res q\<rparr>)\<rparr>)
          }
      })"

text \<open>
  Calling the handler: it reads \<open>req_len\<close> bytes of the connection's buffer, which must lie
  within the object, and writes at the start of the worker's reply scratch, which has
  \<open>reply_cap\<close> bytes.
\<close>

definition call_handler ::
  "fa_env \<Rightarrow> fa_server \<Rightarrow> fa_conn \<Rightarrow> int \<Rightarrow> fa_worker \<Rightarrow> (int \<times> fa_worker) option" where
  "call_handler env s obj req_len w =
     (let req = take (nat req_len) (fc_buf obj);
          cap = cfg_reply_cap (srv_cfg s);
          (bs, rlen) = e_handler env (w_log w) req cap
      in if fc_room obj < nat SIZEOF_FA_CONN + nat req_len \<or> length (w_reply w) < length bs then None
         else Some (rlen, call (C_handler req cap rlen) (w\<lparr>w_reply := store_bytes bs (w_reply w)\<rparr>)))"

text \<open>The receive branch.\<close>

definition fa_on_recv :: "fa_env \<Rightarrow> fa_server \<Rightarrow> addr \<Rightarrow> cqe \<Rightarrow> fa_worker \<Rightarrow> fa_worker option" where
  "fa_on_recv env s c q w =
     (if cqe_res q \<le> 0 then fa_submit_close env c w
      else do {
        obj \<leftarrow> w_heap w c;
        (rlen, w) \<leftarrow> call_handler env s obj (cqe_res q) w;
        if 0 < rlen then
          let rlen = (if cfg_reply_cap (srv_cfg s) < rlen then cfg_reply_cap (srv_cfg s) else rlen)
          in fa_submit_reply_and_close env c rlen w
        else fa_submit_close env c w
      })"

text \<open>
  One iteration of the drain loop. The branch depends on the state field of the object the
  completion points to; the accept marker is no heap object, so the receive branch on it (which
  would put the marker on the freelist) is undefined.
\<close>

definition fa_handle_cqe :: "fa_env \<Rightarrow> fa_server \<Rightarrow> cqe \<Rightarrow> fa_worker \<Rightarrow> fa_worker option" where
  "fa_handle_cqe env s q w =
     (case cqe_user_data q of
        UNull \<Rightarrow> Some w
      | UMarker \<Rightarrow> (if w_marker w = FA_ST_ACCEPT then fa_on_accept env s q w else None)
      | UConn c \<Rightarrow> do {
          obj \<leftarrow> w_heap w c;
          if fc_state obj = FA_ST_ACCEPT then fa_on_accept env s q w
          else fa_on_recv env s c q w
        })"

subsection \<open>The event loop\<close>

definition ETIME :: int where "ETIME = 62"
definition EINTR :: int where "EINTR = 4"

text \<open>The bytes the kernel has stored for the receives completed in a batch.\<close>

definition recv_bytes :: "cqe list \<Rightarrow> addr \<Rightarrow> bytes" where
  "recv_bytes qs a =
     (case find (\<lambda>q. cqe_user_data q = UConn a) qs of None \<Rightarrow> [] | Some q \<Rightarrow> cqe_bytes q)"

definition deliver :: "cqe list \<Rightarrow> fa_worker \<Rightarrow> fa_worker" where
  "deliver qs w = w\<lparr>w_heap := \<lambda>a.
     map_option (\<lambda>c. c\<lparr>fc_buf := store_bytes (recv_bytes qs a) (fc_buf c)\<rparr>) (w_heap w a)\<rparr>"

definition fa_loop_body :: "fa_env \<Rightarrow> fa_server \<Rightarrow> fa_worker \<Rightarrow> fa_worker loop_next option" where
  "fa_loop_body env s w =
     (let ret = e_wait env (w_log w);
          w = call (C_wait (w_reply w) ret) w
      in if ret < 0 then
           (if ret = - ETIME \<or> ret = - EINTR then Some (Continue w)
            else Some (Break (call (C_stderr ''flashaccept: submit_and_wait'') w)))
         else
           let qs = e_peek env (w_log w) FA_CQE_BATCH in
           if FA_CQE_BATCH < length qs then None
           else do {
             w \<leftarrow> for_each (fa_handle_cqe env s) qs (deliver qs (call (C_peek qs) w));
             Some (Continue (call (C_advance (length qs)) w))
           })"

fun fa_warm :: "fa_env \<Rightarrow> fa_server \<Rightarrow> nat \<Rightarrow> fa_worker \<Rightarrow> fa_worker option" where
  "fa_warm env s 0 w = Some w"
| "fa_warm env s (Suc n) w =
     (let (p, w) = conn_malloc env s w in do {
        w \<leftarrow> (case p of None \<Rightarrow> Some w | Some c \<Rightarrow> fa_conn_free c w);
        fa_warm env s n w
      })"

definition fa_stopped :: "fa_env \<Rightarrow> fa_worker \<Rightarrow> bool" where
  "fa_stopped env w = e_stop env (w_log w)"

definition fa_worker_loop :: "fa_env \<Rightarrow> fa_server \<Rightarrow> fa_worker \<Rightarrow> fa_worker loop_exit option" where
  "fa_worker_loop env s w =
     (case fa_warm env s FA_FREELIST_WARM w of
        None \<Rightarrow> Some Undefined
      | Some w \<Rightarrow> run_loop (fa_stopped env) (fa_loop_body env s) (fa_arm_accept env s w))"

text \<open>Pinning, ring setup with its fallback, the direct descriptor table with its fallback.\<close>

definition fa_ring_setup :: "fa_env \<Rightarrow> fa_server \<Rightarrow> fa_worker \<Rightarrow> bool \<times> fa_worker" where
  "fa_ring_setup env s w =
     (let w = (if 0 \<le> w_cpu w then call (C_affinity (w_cpu w)) w else w);
          ret = e_queue_init env (w_log w) True;
          w = call (C_queue_init True ret) w;
          (ret, w) = (if ret < 0
                      then let ret = e_queue_init env (w_log w) False
                           in (ret, call (C_queue_init False ret) w)
                      else (ret, w))
      in if ret < 0 then (False, call (C_stderr ''flashaccept: io_uring_queue_init'') w)
         else
           let w = w\<lparr>w_ring_ready := True\<rparr> in
           if cfg_direct_files (srv_cfg s) \<noteq> 0 then
             let ret = e_register_files env (w_log w) FA_NFILES;
                 w = call (C_register_files FA_NFILES ret) w
             in (True, if ret = 0 then w\<lparr>w_direct := True\<rparr> else w)
           else (True, w))"

definition fa_thread_entry :: "fa_env \<Rightarrow> fa_server \<Rightarrow> fa_worker \<Rightarrow> fa_worker loop_exit option" where
  "fa_thread_entry env s w =
     (let (ok, w) = fa_ring_setup env s w in
      if ok then fa_worker_loop env s w else Some (Exited w))"

subsection \<open>The invariant\<close>

text \<open>A server as \<open>fa_server_new\<close> makes it.\<close>

definition srv_ok :: "fa_server \<Rightarrow> bool" where
  "srv_ok s \<longleftrightarrow>
     0 < cfg_recv_buf (srv_cfg s) \<and> cfg_recv_buf (srv_cfg s) \<le> INT_MAX \<and>
     0 < cfg_reply_cap (srv_cfg s) \<and> cfg_reply_cap (srv_cfg s) \<le> INT_MAX \<and>
     srv_conn_size s = c_int (SIZEOF_FA_CONN + cfg_recv_buf (srv_cfg s))"

text \<open>
  The size passed to malloc is computed in \<open>int\<close> and converted to \<open>size_t\<close>. Near INT_MAX the
  sum wraps to a negative number, and the conversion makes it huge: never too small.
\<close>

lemma conn_size_enough:
  assumes "srv_ok s"
  shows "nat SIZEOF_FA_CONN + c_size_t (cfg_recv_buf (srv_cfg s)) \<le> c_size_t (srv_conn_size s)"
proof -
  define r where "r = cfg_recv_buf (srv_cfg s)"
  have r: "0 < r" "r < 2 ^ 31" and size: "srv_conn_size s = c_int (16 + r)"
    using assms by (auto simp: srv_ok_def r_def INT_MAX_def SIZEOF_FA_CONN_def)
  show ?thesis
  proof (cases "16 + r < 2 ^ 31")
    case True
    then have "c_int (16 + r) = 16 + r"
      using r by (intro c_int_id) (simp add: is_c_int_def)
    with True r size show ?thesis
      by (simp add: r_def [symmetric] SIZEOF_FA_CONN_def nat_add_distrib)
  next
    case False
    then have "c_int (16 + r) = 16 + r - 2 ^ 32"
      using r by (intro c_int_wrap) auto
    with False r size have "c_size_t (srv_conn_size s) = nat (16 + r - 2 ^ 32 + 2 ^ 64)"
      by (simp add: c_size_t_wrap)
    with r show ?thesis
      by (simp add: r_def [symmetric] SIZEOF_FA_CONN_def nat_le_iff)
  qed
qed

definition contracts :: "fa_env \<Rightarrow> fa_server \<Rightarrow> bool" where
  "contracts env s \<longleftrightarrow>
     malloc_fresh env \<and> kernel_ok env \<and> handler_ok env (cfg_reply_cap (srv_cfg s))"

lemma contracts_malloc: "contracts env s \<Longrightarrow> malloc_fresh env"
  by (simp add: contracts_def)

text \<open>A completed receive asked for no more than the buffer holds.\<close>

definition fits :: "fa_server \<Rightarrow> cqe \<Rightarrow> bool" where
  "fits s q = (case cqe_user_data q of
     UConn a \<Rightarrow> nat (cqe_res q) \<le> c_size_t (cfg_recv_buf (srv_cfg s)) | _ \<Rightarrow> True)"

text \<open>Nothing may be lost: descriptors are regular, or neither entries nor memory run out.\<close>

definition lossless :: "'c uring_env \<Rightarrow> bool \<Rightarrow> bool" where
  "lossless env direct \<longleftrightarrow> \<not> direct \<or> (sq_drained env \<and> (\<forall>h n. e_malloc env h n \<noteq> None))"

definition worker_inv :: "fa_env \<Rightarrow> fa_server \<Rightarrow> cqe list \<Rightarrow> fa_worker \<Rightarrow> bool" where
  "worker_inv env s qs w \<longleftrightarrow>
     own (mset (conns_of qs)) {#} w \<and> tidy s w \<and> list_all (fits s) qs \<and>
     ledger (lossless env (w_direct w)) (mset (conns_of qs)) (mset (accepts_of qs)) w"

end
