(* ===== verification/Worker_Inv.thy ===== *)
theory Worker_Inv
  imports Worker
begin

text \<open>
  The worker invariant is kept: by each branch of the drain loop, hence by a whole batch (the
  interface \<open>completion_handler\<close>), hence by the event loop (the interface \<open>event_loop\<close>). The
  pre-warming of the freelist and the arming of the accept establish it.
\<close>

subsection \<open>Frames\<close>

lemma fa_conn_alloc_frame:
  "fa_conn_alloc env s w = Some (p, w') \<Longrightarrow> same_worker w w'"
  by (auto simp: fa_conn_alloc_def conn_malloc_def same_worker_def Let_def suffix_ConsI
      split: option.splits bind_splits)

lemma fa_arm_accept_frame: "same_worker w (fa_arm_accept env s w)"
proof -
  obtain ok w1 where acq: "acquire_sqe env w = (ok, w1)"
    by (cases "acquire_sqe env w")
  with acquire_sqe_frame(1) [OF acq] show ?thesis
    by (simp add: fa_arm_accept_def same_worker_def Let_def suffix_ConsI)
qed

lemma close_and_free_frame: "fa_conn_free c (call q w) = Some w' \<Longrightarrow> same_worker w w'"
  using fa_conn_free_frame [of c "call q w" w'] same_worker_call [OF same_worker_refl]
  by (blast intro: same_worker_trans)

lemma drop_conn_frame: "drop_conn c obj w = Some w' \<Longrightarrow> same_worker w w'"
  by (auto simp: drop_conn_def dest: fa_conn_free_frame close_and_free_frame split: if_splits)

lemma same_worker_upd [simp]: "same_worker w (w1\<lparr>w_heap := h\<rparr>) = same_worker w w1"
  by (simp add: same_worker_def)

lemma fa_submit_recv_frame:
  assumes "fa_submit_recv env s c w = Some w'"
  shows "same_worker w w'"
proof -
  obtain ok w1 where acq: "acquire_sqe env w = (ok, w1)"
    by (cases "acquire_sqe env w")
  then have "same_worker w w1"
    by (rule acquire_sqe_frame)
  with assms acq show ?thesis
    by (auto simp: fa_submit_recv_def Let_def split: if_splits bind_splits
        intro: same_worker_trans drop_conn_frame)
qed

lemma fa_submit_close_frame:
  assumes "fa_submit_close env c w = Some w'"
  shows "same_worker w w'"
proof -
  obtain ok w1 where acq: "acquire_sqe env w = (ok, w1)"
    by (cases "acquire_sqe env w")
  then have "same_worker w w1"
    by (rule acquire_sqe_frame)
  with assms acq show ?thesis
    by (auto simp: fa_submit_close_def split: if_splits bind_splits
        intro: same_worker_trans drop_conn_frame close_and_free_frame)
qed

lemma fa_submit_reply_and_close_frame:
  assumes "fa_submit_reply_and_close env c n w = Some w'"
  shows "same_worker w w'"
proof -
  from assms obtain obj where obj: "w_heap w c = Some obj"
    by (auto simp: fa_submit_reply_and_close_def split: bind_splits)
  obtain ok w1 where acq: "acquire_sqe env w = (ok, w1)"
    by (cases "acquire_sqe env w")
  let ?w2 = "call (C_prep (send_sqe w1 (fc_fd obj) n)) w1"
  obtain ok' w3 where acq': "acquire_sqe env ?w2 = (ok', w3)"
    by (cases "acquire_sqe env ?w2")
  have "same_worker w w1"
    using acq by (rule acquire_sqe_frame)
  moreover from this have "same_worker w w3"
    using acquire_sqe_frame(1) [OF acq'] by (blast intro: same_worker_trans same_worker_call)
  ultimately show ?thesis
    using assms obj acq acq'
    by (auto simp: fa_submit_reply_and_close_def Let_def split: if_splits
        intro: same_worker_trans drop_conn_frame close_and_free_frame)
qed

subsection \<open>Accepting a connection\<close>

lemma ledger_assign:
  assumes "ledger P H (add_mset fd X) w" and "c \<notin># inflight (w_log w) + H"
    and "w_heap w c = Some obj"
  shows "ledger P (add_mset c H) X (w\<lparr>w_heap := (w_heap w)(c \<mapsto> obj\<lparr>fc_fd := fd\<rparr>)\<rparr>)"
proof -
  let ?w = "w\<lparr>w_heap := (w_heap w)(c \<mapsto> obj\<lparr>fc_fd := fd\<rparr>)\<rparr>"
  have "image_mset (conn_fd ?w) M = image_mset (conn_fd w) M" if "c \<notin># M" for M
    using that by (intro image_mset_cong) (auto simp: conn_fd_def)
  moreover have "conn_fd ?w c = fd"
    by (simp add: conn_fd_def)
  ultimately show ?thesis
    using assms by (auto simp: ledger_def)
qed

lemma conn_malloc_conn_fd:
  assumes "malloc_fresh env" and "own T H w" and "conn_malloc env s w = (p, w')"
    and "a \<in># inflight (w_log w) + T"
  shows "conn_fd w' a = conn_fd w a"
proof (cases p)
  case None
  with assms(3) have "w_heap w' = w_heap w"
    by (auto simp: conn_malloc_def Let_def split: option.splits)
  then show ?thesis by (simp add: conn_fd_def)
next
  case (Some b)
  with assms(3) obtain n c where "e_malloc env (w_log w) n = Some b"
      and heap: "w_heap w' = (w_heap w)(b \<mapsto> c)"
    by (auto simp: conn_malloc_def Let_def split: option.splits)
  then have "b \<notin> live (w_log w)"
    using malloc_freshD [OF assms(1)] by blast
  moreover have "a \<in> live (w_log w)"
    using own_busy [OF assms(2,4)] assms(2) by (fastforce simp: own_def owned_def)
  ultimately have "a \<noteq> b" by auto
  with heap show ?thesis by (simp add: conn_fd_def)
qed

lemma conn_malloc_ledger:
  assumes "malloc_fresh env" and "own T H w" and "ledger P T X w"
    and "conn_malloc env s w = (p, w')"
  shows "ledger P T X w'"
proof -
  have log: "\<exists>n. w_log w' = C_malloc n p # w_log w"
    using assms(4) by (auto simp: conn_malloc_def Let_def split: option.splits)
  have "image_mset (conn_fd w') (inflight (w_log w) + T) =
      image_mset (conn_fd w) (inflight (w_log w) + T)"
    by (intro image_mset_cong conn_malloc_conn_fd [OF assms(1,2,4)])
  with assms(3) log show ?thesis
    by (auto simp: ledger_def)
qed

lemma fa_conn_alloc_conn_fd:
  assumes "malloc_fresh env" and "own T H w" and "fa_conn_alloc env s w = Some (p, w')"
    and "a \<in># inflight (w_log w) + T"
  shows "conn_fd w' a = conn_fd w a"
proof (cases "w_free_head w")
  case None
  with assms conn_malloc_conn_fd show ?thesis
    by (simp add: fa_conn_alloc_def)
next
  case (Some b)
  with assms(3) show ?thesis
    by (auto simp: fa_conn_alloc_def conn_fd_def split: bind_splits)
qed

lemma fa_conn_alloc_ledger:
  assumes "malloc_fresh env" and "own T H w" and "ledger P T X w"
    and "fa_conn_alloc env s w = Some (p, w')"
  shows "ledger P T X w'"
proof (cases "w_free_head w")
  case None
  with assms conn_malloc_ledger show ?thesis
    by (simp add: fa_conn_alloc_def)
next
  case (Some a)
  with assms(4) obtain q where "w' = w\<lparr>w_free_head := q\<rparr>"
    by (auto simp: fa_conn_alloc_def split: bind_splits)
  moreover have "conn_fd (w\<lparr>w_free_head := q\<rparr>) = conn_fd w"
    by (rule ext) (simp add: conn_fd_def)
  ultimately show ?thesis
    using assms(3) by (simp add: ledger_def)
qed

lemma fa_conn_alloc_NULL:
  "fa_conn_alloc env s w = Some (None, w') \<Longrightarrow> \<exists>h n. e_malloc env h n = None"
  by (auto simp: fa_conn_alloc_def conn_malloc_def Let_def split: option.splits bind_splits)

lemma ledger_drop_pending:
  assumes "ledger P H (add_mset fd X) w" and "\<not> P"
  shows "ledger P H X w"
proof -
  from assms obtain lost where "accepted (w_log w) =
      image_mset (conn_fd w) (inflight (w_log w) + H) + add_mset fd X + closed (w_log w) + lost"
    by (auto simp: ledger_def)
  then have "accepted (w_log w) =
      image_mset (conn_fd w) (inflight (w_log w) + H) + X + closed (w_log w) + add_mset fd lost"
    by simp
  with assms(2) show ?thesis unfolding ledger_def by blast
qed

definition inv_parts :: "fa_env \<Rightarrow> fa_server \<Rightarrow> cqe list \<Rightarrow> addr multiset \<Rightarrow> fa_worker \<Rightarrow> bool" where
  "inv_parts env s qs H w \<longleftrightarrow>
     own (mset (conns_of qs)) H w \<and> tidy s w \<and>
     ledger (lossless env (w_direct w)) (mset (conns_of qs) + H) (mset (accepts_of qs)) w"

lemma inv_parts_recv:
  assumes "inv_parts env s qs {#c#} w"
  shows "\<exists>w'. fa_submit_recv env s c w = Some w' \<and> inv_parts env s qs {#} w'"
proof -
  from assms fa_submit_recv_own [of "mset (conns_of qs)" c "{#}" w env s]
  obtain w' where w': "fa_submit_recv env s c w = Some w'" "own (mset (conns_of qs)) {#} w'"
    by (auto simp: inv_parts_def)
  moreover have "w_direct w' = w_direct w"
    using fa_submit_recv_frame [OF w'(1)] by (simp add: same_worker_def)
  ultimately show ?thesis
    using assms fa_submit_recv_tidy [OF _ w'(1)] fa_submit_recv_ledger [OF _ w'(1)]
    by (auto simp: inv_parts_def lossless_def)
qed

lemma inv_parts_close:
  assumes "inv_parts env s qs {#c#} w"
  shows "\<exists>w'. fa_submit_close env c w = Some w' \<and> inv_parts env s qs {#} w'"
proof -
  from assms fa_submit_close_own [of "mset (conns_of qs)" c "{#}" w env]
  obtain w' where w': "fa_submit_close env c w = Some w'" "own (mset (conns_of qs)) {#} w'"
    by (auto simp: inv_parts_def)
  moreover have "w_direct w' = w_direct w"
    using fa_submit_close_frame [OF w'(1)] by (simp add: same_worker_def)
  ultimately show ?thesis
    using assms fa_submit_close_tidy [OF _ w'(1)] fa_submit_close_ledger [OF _ w'(1)]
    by (auto simp: inv_parts_def lossless_def)
qed

lemma inv_parts_reply:
  assumes "inv_parts env s qs {#c#} w" and "0 < n" and "n \<le> cfg_reply_cap (srv_cfg s)"
    and "n < 2 ^ 31"
  shows "\<exists>w'. fa_submit_reply_and_close env c n w = Some w' \<and> inv_parts env s qs {#} w'"
proof -
  from assms fa_submit_reply_and_close_own [of "mset (conns_of qs)" c "{#}" w env n]
  obtain w' where w': "fa_submit_reply_and_close env c n w = Some w'"
      "own (mset (conns_of qs)) {#} w'"
    by (auto simp: inv_parts_def)
  moreover have "w_direct w' = w_direct w"
    using fa_submit_reply_and_close_frame [OF w'(1)] by (simp add: same_worker_def)
  ultimately show ?thesis
    using assms fa_submit_reply_and_close_tidy [OF _ w'(1)]
      fa_submit_reply_and_close_ledger [OF _ w'(1)]
    by (auto simp: inv_parts_def lossless_def)
qed

text \<open>A descriptor for which there is a connection, and one for which there is none.\<close>

lemma accept_admitted:
  assumes "own (mset (conns_of qs)) {#c#} w" and "tidy s w" and obj: "w_heap w c = Some obj"
    and "ledger (lossless env (w_direct w)) (mset (conns_of qs)) (add_mset fd (mset (accepts_of qs))) w"
  shows "inv_parts env s qs {#c#} (w\<lparr>w_heap := (w_heap w)(c \<mapsto> obj\<lparr>fc_fd := fd\<rparr>)\<rparr>)"
proof -
  have "c \<notin># inflight (w_log w) + mset (conns_of qs)"
    using assms(1) owned_apart(1) unfolding own_def by fast
  from ledger_assign [OF assms(4) this obj] show ?thesis
    using own_upd [OF assms(1)] tidy_upd [OF assms(2) obj] by (simp add: inv_parts_def)
qed

lemma accept_refused:
  assumes "own (mset (conns_of qs)) {#} w" and "tidy s w" and "e_malloc env h n = None"
    and l: "ledger (lossless env (w_direct w)) (mset (conns_of qs)) (add_mset fd (mset (accepts_of qs))) w"
  shows "inv_parts env s qs {#} (if \<not> w_direct w then call (C_close fd) w else w)"
proof (cases "w_direct w")
  case True
  with assms(3) have "\<not> lossless env (w_direct w)"
    by (auto simp: lossless_def)
  with True assms(1,2) ledger_drop_pending [OF l] show ?thesis
    by (simp add: inv_parts_def)
next
  case False
  have "ledger P H X (call (C_close fd) w) = ledger P H (add_mset fd X) w" for P H X
    by (rule ledger_cong) auto
  with False assms show ?thesis
    by (simp add: inv_parts_def)
qed

lemma fa_on_accept_inv:
  assumes "malloc_fresh env" and "inv_parts env s (q # qs) {#} w" and "cqe_user_data q = UMarker"
  shows "\<exists>w'. fa_on_accept env s q w = Some w' \<and> inv_parts env s qs {#} w'"
proof -
  define w1 where "w1 = (if \<not> cqe_more q then fa_arm_accept env s w else w)"
  have d1: "w_direct w1 = w_direct w"
    using fa_arm_accept_frame by (simp add: w1_def same_worker_def)
  have i1: "own (mset (conns_of qs)) {#} w1" "tidy s w1"
      "ledger (lossless env (w_direct w1)) (mset (conns_of qs)) (mset (accepts_of (q # qs))) w1"
    using assms d1 by (simp_all add: inv_parts_def w1_def fa_arm_accept_own fa_arm_accept_tidy
        fa_arm_accept_ledger)
  show ?thesis
  proof (cases "cqe_res q < 0")
    case True
    with i1 show ?thesis
      by (simp add: fa_on_accept_def w1_def [symmetric] inv_parts_def)
  next
    case False
    then have l1: "ledger (lossless env (w_direct w1)) (mset (conns_of qs))
        (add_mset (cqe_res q) (mset (accepts_of qs))) w1"
      using i1(3) assms(3) by simp
    from fa_conn_alloc_own [OF assms(1) i1(1)] obtain p w2 where
      alloc: "fa_conn_alloc env s w1 = Some (p, w2)"
      and own2: "own (mset (conns_of qs)) (case p of None \<Rightarrow> {#} | Some a \<Rightarrow> {#a#}) w2"
      by blast
    have l2: "ledger (lossless env (w_direct w2)) (mset (conns_of qs))
        (add_mset (cqe_res q) (mset (accepts_of qs))) w2"
      using fa_conn_alloc_ledger [OF assms(1) i1(1) l1 alloc] fa_conn_alloc_frame [OF alloc]
      by (simp add: same_worker_def)
    note t2 = fa_conn_alloc_tidy [OF i1(2) alloc]
    show ?thesis
    proof (cases p)
      case None
      with alloc obtain h n where "e_malloc env h n = None"
        using fa_conn_alloc_NULL by blast
      with None False alloc own2 l2 t2 accept_refused show ?thesis
        by (simp add: fa_on_accept_def w1_def [symmetric])
    next
      case (Some c)
      then obtain obj where obj: "w_heap w2 c = Some obj"
        using own_held [OF own2, of c] by auto
      with Some own2 l2 t2 have "inv_parts env s qs {#c#}
          (w2\<lparr>w_heap := (w_heap w2)(c \<mapsto> obj\<lparr>fc_fd := cqe_res q\<rparr>)\<rparr>)"
        by (intro accept_admitted) simp_all
      from inv_parts_recv [OF this] show ?thesis
        using Some False alloc obj by (simp add: fa_on_accept_def w1_def [symmetric])
    qed
  qed
qed

subsection \<open>Receiving a request\<close>

lemma call_handler_inv:
  assumes "handler_ok env (cfg_reply_cap (srv_cfg s))" and "srv_ok s" and "inv_parts env s qs {#c#} w"
    and "w_heap w c = Some obj" and "nat n \<le> c_size_t (cfg_recv_buf (srv_cfg s))"
  shows "\<exists>r w'. call_handler env s obj n w = Some (r, w') \<and> inv_parts env s qs {#c#} w'"
proof -
  define cap where "cap = cfg_reply_cap (srv_cfg s)"
  obtain bs r where h: "e_handler env (w_log w) (take (nat n) (fc_buf obj)) cap = (bs, r)"
    by (cases "e_handler env (w_log w) (take (nat n) (fc_buf obj)) cap")
  have tidy: "tidy s w" and len: "length (w_reply w) = nat cap"
    using assms(3) by (simp_all add: inv_parts_def tidy_def cap_def)
  have bs: "length bs \<le> length (w_reply w)"
    using handler_okD [OF assms(1) h [unfolded cap_def]] len by (simp add: cap_def)
  have "fc_room obj = c_size_t (srv_conn_size s)"
    using tidy assms(4) by (simp add: tidy_def roomy_def)
  with conn_size_enough [OF assms(2)] assms(5) have room: "nat SIZEOF_FA_CONN + nat n \<le> fc_room obj"
    by simp
  let ?w = "call (C_handler (take (nat n) (fc_buf obj)) cap r) (w\<lparr>w_reply := store_bytes bs (w_reply w)\<rparr>)"
  have "tidy s ?w"
    using tidy bs by (simp add: tidy_def roomy_def shaped_def length_store_bytes)
  moreover have "ledger P H X ?w = ledger P H X w" for P H X
    by (rule ledger_cong) (auto simp: conn_fd_def intro: ext)
  ultimately have "inv_parts env s qs {#c#} ?w"
    using assms(3) by (simp add: inv_parts_def)
  then show ?thesis
    using h room bs by (simp add: call_handler_def cap_def Let_def)
qed

lemma inv_parts_taken:
  assumes "inv_parts env s (q # qs) {#} w" and "cqe_user_data q = UConn c"
  shows "inv_parts env s qs {#c#} w"
  using assms by (simp add: inv_parts_def own_take)

lemma fa_on_recv_inv:
  assumes "handler_ok env (cfg_reply_cap (srv_cfg s))" and "srv_ok s" and "inv_parts env s (q # qs) {#} w"
    and "cqe_user_data q = UConn c" and "fits s q"
  shows "\<exists>w'. fa_on_recv env s c q w = Some w' \<and> inv_parts env s qs {#} w'"
proof (cases "cqe_res q \<le> 0")
  case True
  with inv_parts_close [OF inv_parts_taken [OF assms(3,4)]] show ?thesis
    by (simp add: fa_on_recv_def)
next
  case False
  have inv: "inv_parts env s qs {#c#} w"
    using assms(3,4) by (rule inv_parts_taken)
  then obtain obj where obj: "w_heap w c = Some obj"
    using own_held [of "mset (conns_of qs)" "{#c#}" w c] by (auto simp: inv_parts_def)
  obtain r w1 where h: "call_handler env s obj (cqe_res q) w = Some (r, w1)"
      and inv1: "inv_parts env s qs {#c#} w1"
    using call_handler_inv [OF assms(1,2) inv obj, of "cqe_res q"] assms(4,5) by (auto simp: fits_def)
  let ?n = "if cfg_reply_cap (srv_cfg s) < r then cfg_reply_cap (srv_cfg s) else r"
  have "0 < r \<Longrightarrow> 0 < ?n \<and> ?n \<le> cfg_reply_cap (srv_cfg s) \<and> ?n < 2 ^ 31"
    using assms(2) by (auto simp: srv_ok_def INT_MAX_def)
  with inv_parts_reply [OF inv1, of ?n] inv_parts_close [OF inv1] False obj h show ?thesis
    by (cases "0 < r") (simp_all add: fa_on_recv_def Let_def)
qed

subsection \<open>A batch\<close>

lemma fa_handle_cqe_inv:
  assumes "contracts env s" and "srv_ok s" and "worker_inv env s (q # qs) w"
  shows "\<exists>w'. fa_handle_cqe env s q w = Some w' \<and> worker_inv env s qs w'"
proof -
  have inv: "inv_parts env s (q # qs) {#} w" and "fits s q" and qs: "list_all (fits s) qs"
    and m: "w_marker w = FA_ST_ACCEPT"
    using assms(3) by (simp_all add: worker_inv_def inv_parts_def tidy_def)
  have "\<exists>w'. fa_handle_cqe env s q w = Some w' \<and> inv_parts env s qs {#} w'"
  proof (cases "cqe_user_data q")
    case UNull
    with inv show ?thesis
      by (simp add: fa_handle_cqe_def inv_parts_def)
  next
    case UMarker
    with m inv assms(1) fa_on_accept_inv [of env s q qs w] show ?thesis
      by (simp add: fa_handle_cqe_def contracts_def)
  next
    case (UConn c)
    with inv obtain obj where "w_heap w c = Some obj" "fc_state obj = FA_ST_RECV"
      using own_busy [of "mset (conns_of (q # qs))" "{#}" w c] by (auto simp: inv_parts_def)
    with UConn inv \<open>fits s q\<close> assms(1,2) fa_on_recv_inv [of env s q qs w c] show ?thesis
      by (simp add: fa_handle_cqe_def contracts_def)
  qed
  with qs show ?thesis
    by (simp add: worker_inv_def inv_parts_def)
qed

interpretation fa_batch: completion_handler "fa_handle_cqe env s"
  "\<lambda>qs w. contracts env s \<and> srv_ok s \<and> worker_inv env s qs w"
  by unfold_locales (use fa_handle_cqe_inv in blast)

subsection \<open>The loop\<close>

lemma ledger_call [simp]:
  "accepted (c # w_log w) = accepted (w_log w) \<Longrightarrow> inflight (c # w_log w) = inflight (w_log w) \<Longrightarrow>
   closed (c # w_log w) = closed (w_log w) \<Longrightarrow> ledger P H X (call c w) = ledger P H X w"
  by (rule ledger_cong) simp_all

lemma worker_inv_call:
  assumes "worker_inv env s qs w" and "inflight (c # w_log w) = inflight (w_log w)"
    and "live (c # w_log w) = live (w_log w)" and "accepted (c # w_log w) = accepted (w_log w)"
    and "closed (c # w_log w) = closed (w_log w)" and "\<And>q. c \<noteq> C_prep q"
  shows "worker_inv env s qs (call c w)"
  using assms by (simp add: worker_inv_def)

lemma deliver_inv: "worker_inv env s qs w \<Longrightarrow> worker_inv env s qs (deliver bs w)"
proof -
  assume inv: "worker_inv env s qs w"
  have "own (mset (conns_of qs)) {#} (deliver bs w)"
    using inv unfolding worker_inv_def own_def deliver_def
    by (auto intro!: owned_map_heap)
  moreover have "conn_fd (deliver bs w) = conn_fd w"
    by (rule ext) (simp add: conn_fd_def deliver_def split: option.splits)
  then have "ledger P H X (deliver bs w) = ledger P H X w" for P H X
    by (intro ledger_cong) (simp_all add: deliver_def)
  moreover have "tidy s (deliver bs w)"
    using inv by (auto simp: worker_inv_def tidy_def roomy_def shaped_def deliver_def)
  moreover have "w_direct (deliver bs w) = w_direct w"
    by (simp add: deliver_def)
  ultimately show ?thesis
    using inv by (simp add: worker_inv_def)
qed

text \<open>The kernel's part: completions move connections from flight into the batch.\<close>

lemma peek_inv:
  assumes "worker_inv env s [] w" and "cqes_justified (w_log w) qs"
  shows "worker_inv env s qs (call (C_peek qs) w)"
proof -
  have sub: "mset (conns_of qs) \<subseteq># inflight (w_log w)"
    using assms(2) by (simp add: cqes_justified_def)
  then have split: "inflight (w_log w) - mset (conns_of qs) + mset (conns_of qs) = inflight (w_log w)"
    by (rule subset_mset.diff_add)
  have "owned fc_next (\<lambda>c. fc_state c = FA_ST_RECV) (w_heap w) (w_free_head w)
      (inflight (w_log w)) (live (w_log w)) {#} {#}"
    using assms(1) by (simp add: worker_inv_def own_def)
  from owned_deliver [OF this sub] have "own (mset (conns_of qs)) {#} (call (C_peek qs) w)"
    by (simp add: own_def)
  moreover have "ledger P (mset (conns_of qs)) (mset (accepts_of qs)) (call (C_peek qs) w)"
    if "ledger P {#} {#} w" for P
    using that unfolding ledger_def call_simps inflight.simps split
    by (auto simp: ac_simps)
  moreover have "list_all (fits s) qs"
    using assms recv_len_bound
    by (auto simp: cqes_justified_def list_all_iff fits_def worker_inv_def tidy_def shaped_def
        split: uref.splits) (meson order_trans)
  ultimately show ?thesis
    using assms(1) by (simp add: worker_inv_def)
qed

lemma fa_loop_body_inv:
  assumes c: "contracts env s" and s: "srv_ok s" and inv: "worker_inv env s [] w"
  shows "\<exists>r. fa_loop_body env s w = Some r \<and>
     (case r of Continue w' \<Rightarrow> worker_inv env s [] w' | Break w' \<Rightarrow> worker_inv env s [] w')"
proof -
  define ret where "ret = e_wait env (w_log w)"
  define w1 where "w1 = call (C_wait (w_reply w) ret) w"
  have inv1: "worker_inv env s [] w1"
    unfolding w1_def by (rule worker_inv_call [OF inv]) simp_all
  show ?thesis
  proof (cases "ret < 0")
    case True
    have "worker_inv env s [] (call (C_stderr e) w1)" for e
      by (rule worker_inv_call [OF inv1]) simp_all
    with True inv1 show ?thesis
      by (simp add: fa_loop_body_def ret_def [symmetric] w1_def [symmetric] Let_def)
  next
    case False
    define qs where "qs = e_peek env (w_log w1) FA_CQE_BATCH"
    have qs: "length qs \<le> FA_CQE_BATCH" "cqes_justified (w_log w1) qs"
      using c kernel_okD by (auto simp: contracts_def qs_def)
    have "worker_inv env s qs (deliver qs (call (C_peek qs) w1))"
      by (rule deliver_inv [OF peek_inv [OF inv1 qs(2)]])
    with c s obtain w2 where
      w2: "for_each (fa_handle_cqe env s) qs (deliver qs (call (C_peek qs) w1)) = Some w2"
      "worker_inv env s [] w2"
      using fa_batch.drains_all [of env s qs] by blast
    have "worker_inv env s [] (call (C_advance (length qs)) w2)"
      by (rule worker_inv_call [OF w2(2)]) simp_all
    with False qs(1) w2 show ?thesis
      by (simp add: fa_loop_body_def ret_def [symmetric] w1_def [symmetric] qs_def [symmetric]
          Let_def)
  qed
qed

text \<open>How an iteration continues: after a wait that gave nothing, or after a batch.\<close>

lemma fa_loop_body_Continue:
  assumes "contracts env s" and "worker_inv env s [] w" and "fa_loop_body env s w = Some (Continue w')"
  obtains (nothing) ret where "w' = call (C_wait (w_reply w) ret) w"
  | (batch) qs ret v w2 where "v = deliver qs (call (C_peek qs) (call (C_wait (w_reply w) ret) w))"
      and "worker_inv env s qs v" and "for_each (fa_handle_cqe env s) qs v = Some w2"
      and "w' = call (C_advance (length qs)) w2"
      and "cqes_justified (C_wait (w_reply w) ret # w_log w) qs"
proof (cases "e_wait env (w_log w) < 0")
  case True
  with assms(3) have "w' = call (C_wait (w_reply w) (e_wait env (w_log w))) w"
    by (auto simp: fa_loop_body_def Let_def split: if_splits)
  then show thesis by (rule nothing)
next
  case False
  define w1 where "w1 = call (C_wait (w_reply w) (e_wait env (w_log w))) w"
  define qs where "qs = e_peek env (w_log w1) FA_CQE_BATCH"
  have "worker_inv env s [] w1"
    unfolding w1_def by (rule worker_inv_call [OF assms(2)]) simp_all
  moreover have just: "cqes_justified (w_log w1) qs"
    using assms(1) kernel_okD(2) by (auto simp: contracts_def qs_def)
  ultimately have "worker_inv env s qs (deliver qs (call (C_peek qs) w1))"
    by (rule deliver_inv [OF peek_inv])
  moreover have "cqes_justified (C_wait (w_reply w) (e_wait env (w_log w)) # w_log w) qs"
    using just by (simp add: w1_def)
  ultimately show thesis
    using False assms(3) batch [OF refl, of qs "e_wait env (w_log w)"]
    by (auto simp: fa_loop_body_def Let_def w1_def [symmetric] qs_def [symmetric]
        split: if_splits bind_splits)
qed

text \<open>The history only grows, and every iteration makes at least the wait call.\<close>

lemma same_worker_grows: "same_worker w w' \<Longrightarrow> suffix (w_log w) (w_log w')"
  by (simp add: same_worker_def)

lemma fa_on_accept_frame:
  assumes "fa_on_accept env s q w = Some w'"
  shows "same_worker w w'"
proof -
  define w1 where "w1 = (if \<not> cqe_more q then fa_arm_accept env s w else w)"
  have w1: "same_worker w w1"
    using fa_arm_accept_frame by (simp add: w1_def)
  show ?thesis
  proof (cases "cqe_res q < 0")
    case True
    with assms w1 show ?thesis
      by (simp add: fa_on_accept_def w1_def [symmetric])
  next
    case False
    with assms obtain p w2 where alloc: "fa_conn_alloc env s w1 = Some (p, w2)"
      by (auto simp: fa_on_accept_def w1_def [symmetric] split: bind_splits)
    from w1 fa_conn_alloc_frame [OF alloc] have w2: "same_worker w w2"
      by (rule same_worker_trans)
    have "same_worker w w'" if "fa_submit_recv env s c (w2\<lparr>w_heap := h\<rparr>) = Some w'" for c h
      using that w2 fa_submit_recv_frame same_worker_trans same_worker_upd by blast
    with assms False alloc w2 show ?thesis
      by (auto simp: fa_on_accept_def w1_def [symmetric] split: option.splits bind_splits if_splits)
  qed
qed

lemma call_handler_frame:
  assumes "call_handler env s obj n w = Some (r, w')"
  shows "suffix (w_log w) (w_log w')" and "w_direct w' = w_direct w"
    and "w_listen_fd w' = w_listen_fd w" and "w_heap w' = w_heap w"
  using assms by (auto simp: call_handler_def Let_def suffix_ConsI split: prod.splits if_splits)

lemma fa_on_recv_answered:
  assumes "fa_on_recv env s c q w = Some w'" and "\<not> cqe_res q \<le> 0"
  obtains obj r w1 where "w_heap w c = Some obj" and "call_handler env s obj (cqe_res q) w = Some (r, w1)"
    and "(\<exists>n. fa_submit_reply_and_close env c n w1 = Some w') \<or> fa_submit_close env c w1 = Some w'"
  using assms by (auto simp: fa_on_recv_def Let_def split: bind_splits if_splits) blast+

lemma fa_on_recv_grows:
  assumes "fa_on_recv env s c q w = Some w'"
  shows "suffix (w_log w) (w_log w')"
proof (cases "cqe_res q \<le> 0")
  case True
  with assms show ?thesis
    by (simp add: fa_on_recv_def same_worker_grows fa_submit_close_frame)
next
  case False
  with assms obtain obj r w1 where h: "call_handler env s obj (cqe_res q) w = Some (r, w1)"
    and w': "(\<exists>n. fa_submit_reply_and_close env c n w1 = Some w') \<or> fa_submit_close env c w1 = Some w'"
    by (blast elim: fa_on_recv_answered)
  from w' have "suffix (w_log w1) (w_log w')"
    by (auto intro: same_worker_grows fa_submit_close_frame fa_submit_reply_and_close_frame)
  with call_handler_frame(1) [OF h] show ?thesis
    by (rule suffix_order.trans)
qed

lemma fa_on_recv_direct:
  assumes "fa_on_recv env s c q w = Some w'"
  shows "w_direct w' = w_direct w"
proof (cases "cqe_res q \<le> 0")
  case True
  with assms show ?thesis
    using fa_submit_close_frame by (auto simp: fa_on_recv_def same_worker_def)
next
  case False
  with assms show ?thesis
    by (rule fa_on_recv_answered)
      (metis call_handler_frame(2) fa_submit_close_frame fa_submit_reply_and_close_frame same_worker_def)
qed

lemma fa_handle_cqe_grows: "fa_handle_cqe env s q w = Some w' \<Longrightarrow> suffix (w_log w) (w_log w')"
  by (auto simp: fa_handle_cqe_def split: uref.splits if_splits bind_splits
      intro: same_worker_grows fa_on_accept_frame fa_on_recv_grows)

lemma drain_grows:
  "for_each (fa_handle_cqe env s) qs w = Some w' \<Longrightarrow> suffix (w_log w) (w_log w')"
proof (induction qs arbitrary: w)
  case (Cons q qs)
  then show ?case
    by (auto split: bind_splits intro: suffix_order.trans fa_handle_cqe_grows)
qed simp

lemma fa_loop_body_grows:
  assumes "fa_loop_body env s w = Some (Continue w')"
  shows "length (w_log w) < length (w_log w')"
proof (cases "e_wait env (w_log w) < 0")
  case True
  with assms show ?thesis
    by (auto simp: fa_loop_body_def Let_def split: if_splits)
next
  case False
  with assms obtain qs v v' where "for_each (fa_handle_cqe env s) qs v = Some v'"
    "length (w_log w) < length (w_log v)" "w' = call (C_advance (length qs)) v'"
    by (auto simp: fa_loop_body_def Let_def deliver_def split: if_splits bind_splits)
  with drain_grows suffix_length_le show ?thesis
    by fastforce
qed

interpretation fa_loop: event_loop "fa_stopped env" "fa_loop_body env s"
  "\<lambda>w. contracts env s \<and> srv_ok s \<and> worker_inv env s [] w" "\<lambda>w. length (w_log w)"
proof (unfold_locales, goal_cases)
  case (1 w w')
  then show ?case
    using fa_loop_body_inv [of env s w] fa_loop_body_grows [of env s w w'] by auto
next
  case (2 w w')
  then show ?case
    using fa_loop_body_inv [of env s w] by auto
next
  case (3 w)
  then show ?case
    using fa_loop_body_inv [of env s w] by auto
qed

subsection \<open>Starting\<close>

text \<open>A worker before its loop: no connections, nothing queued, a reply scratch of the right size.\<close>

definition idle :: "fa_server \<Rightarrow> fa_worker \<Rightarrow> bool" where
  "idle s w \<longleftrightarrow> w_marker w = FA_ST_ACCEPT \<and> w_free_head w = None \<and> w_heap w = Map.empty \<and>
     length (w_reply w) = nat (cfg_reply_cap (srv_cfg s)) \<and>
     inflight (w_log w) = {#} \<and> live (w_log w) = {} \<and> accepted (w_log w) = {#} \<and>
     closed (w_log w) = {#} \<and> prepared (w_log w) = [] \<and> standing (w_log w) = 0"

lemma idle_inv: "idle s w \<Longrightarrow> worker_inv env s [] w"
  by (simp add: idle_def worker_inv_def own_def owned_def tidy_def roomy_def shaped_def ledger_def)

lemma fa_warm_inv:
  assumes "malloc_fresh env" and "worker_inv env s [] w"
  shows "\<exists>w'. fa_warm env s n w = Some w' \<and> worker_inv env s [] w' \<and> same_worker w w'"
  using assms(2)
proof (induction n arbitrary: w)
  case 0
  then show ?case by simp
next
  case (Suc n)
  obtain p w1 where m: "conn_malloc env s w = (p, w1)"
    by (cases "conn_malloc env s w")
  have w1: "same_worker w w1" "tidy s w1" "ledger (lossless env (w_direct w)) {#} {#} w1"
      "own {#} (case p of None \<Rightarrow> {#} | Some a \<Rightarrow> {#a#}) w1"
    using Suc.prems m conn_malloc_tidy [OF _ m] conn_malloc_own [OF assms(1) _ m]
      conn_malloc_ledger [OF assms(1) _ _ m]
    by (auto simp: worker_inv_def conn_malloc_def same_worker_def Let_def suffix_ConsI
        split: option.splits)
  show ?case
  proof (cases p)
    case None
    with w1 have "worker_inv env s [] w1"
      by (simp add: worker_inv_def same_worker_def)
    from Suc.IH [OF this] None m w1 show ?thesis
      by (auto intro: same_worker_trans)
  next
    case (Some a)
    with w1 obtain w2 where w2: "fa_conn_free a w1 = Some w2" "own {#} {#} w2"
      using fa_conn_free_own [of "{#}" a "{#}" w1] by auto
    have "same_worker w w2"
      using fa_conn_free_frame [OF w2(1)] w1(1) same_worker_trans by blast
    moreover from this have "worker_inv env s [] w2"
      using w1 w2 fa_conn_free_tidy [OF _ w2(1)] ledger_free [OF w2(1)]
      by (simp add: worker_inv_def same_worker_def)
    from Suc.IH [OF this] obtain w3 where "fa_warm env s n w2 = Some w3"
      "worker_inv env s [] w3" "same_worker w2 w3" by blast
    ultimately show ?thesis
      using Some m w2 by (auto intro: same_worker_trans)
  qed
qed

lemma fa_arm_accept_inv:
  assumes "worker_inv env s qs w"
  shows "worker_inv env s qs (fa_arm_accept env s w)"
  using assms fa_arm_accept_frame [of w env s]
  by (simp add: worker_inv_def same_worker_def fa_arm_accept_own fa_arm_accept_tidy
      fa_arm_accept_ledger)

text \<open>The state in which the loop is entered.\<close>

lemma loop_entry:
  assumes "malloc_fresh env" and "idle s w"
  obtains w1 where "fa_warm env s FA_FREELIST_WARM w = Some w1" and "same_worker w w1"
    and "worker_inv env s [] (fa_arm_accept env s w1)"
  using fa_warm_inv [OF assms(1) idle_inv [OF assms(2)]] fa_arm_accept_inv by blast

text \<open>The worker started in \<open>w\<close> reaches its loop head in state \<open>v\<close>.\<close>

definition fa_heads :: "fa_env \<Rightarrow> fa_server \<Rightarrow> fa_worker \<Rightarrow> fa_worker \<Rightarrow> bool" where
  "fa_heads env s w v \<longleftrightarrow> (\<exists>w1. fa_warm env s FA_FREELIST_WARM w = Some w1 \<and>
     loop_head (fa_stopped env) (fa_loop_body env s) (fa_arm_accept env s w1) v)"

end
