(* ===== verification/Accept_Standing.thy ===== *)
theory Accept_Standing
  imports Worker_Inv
begin

text \<open>
  The accept request. When entries can be obtained, every accept request that ended is armed
  again while its completion is processed, so whenever the worker waits exactly one accept
  request stands: the worker neither goes deaf nor piles up requests.
\<close>

lemma fa_conn_free_standing: "fa_conn_free c w = Some w' \<Longrightarrow> standing (w_log w') = standing (w_log w)"
  by (simp add: fa_conn_free_frame)

lemma drop_conn_standing: "drop_conn c obj w = Some w' \<Longrightarrow> standing (w_log w') = standing (w_log w)"
  by (auto simp: drop_conn_def dest: fa_conn_free_standing split: if_splits)

lemma fa_conn_alloc_standing:
  "fa_conn_alloc env s w = Some (p, w') \<Longrightarrow> standing (w_log w') = standing (w_log w)"
  by (auto simp: fa_conn_alloc_def conn_malloc_def Let_def split: option.splits bind_splits)

lemma fa_arm_accept_standing:
  assumes "sq_drained env"
  shows "standing (w_log (fa_arm_accept env s w)) = standing (w_log w) + 1"
proof -
  obtain ok w1 where acq: "acquire_sqe env w = (ok, w1)"
    by (cases "acquire_sqe env w")
  with acquire_sqe_ok [OF assms acq] show ?thesis
    by (simp add: fa_arm_accept_def Let_def)
qed

lemma fa_submit_recv_standing:
  assumes "fa_submit_recv env s c w = Some w'"
  shows "standing (w_log w') = standing (w_log w)"
proof -
  obtain ok w1 where acq: "acquire_sqe env w = (ok, w1)"
    by (cases "acquire_sqe env w")
  with assms show ?thesis
    by (auto simp: fa_submit_recv_def Let_def dest: drop_conn_standing split: if_splits bind_splits)
qed

lemma close_and_free_standing:
  "fa_conn_free c (call (C_prep (close_sqe w fd)) w) = Some w' \<Longrightarrow>
   standing (w_log w') = standing (w_log w)"
  by (drule fa_conn_free_standing) (simp add: close_sqe_def)

lemma fa_submit_close_standing:
  assumes "fa_submit_close env c w = Some w'"
  shows "standing (w_log w') = standing (w_log w)"
proof -
  obtain ok w1 where acq: "acquire_sqe env w = (ok, w1)"
    by (cases "acquire_sqe env w")
  with assms show ?thesis
    by (auto simp: fa_submit_close_def split: if_splits bind_splits
        dest: drop_conn_standing close_and_free_standing)
qed

lemma fa_submit_reply_and_close_standing:
  assumes "fa_submit_reply_and_close env c n w = Some w'"
  shows "standing (w_log w') = standing (w_log w)"
proof -
  from assms obtain obj where obj: "w_heap w c = Some obj"
    by (auto simp: fa_submit_reply_and_close_def split: bind_splits)
  obtain ok w1 where acq: "acquire_sqe env w = (ok, w1)"
    by (cases "acquire_sqe env w")
  let ?w2 = "call (C_prep (send_sqe w1 (fc_fd obj) n)) w1"
  obtain ok' w3 where acq': "acquire_sqe env ?w2 = (ok', w3)"
    by (cases "acquire_sqe env ?w2")
  have "standing (w_log w3) = standing (w_log w)"
    using acq acq' by (simp add: send_sqe_def)
  with assms obj acq acq' show ?thesis
    by (auto simp: fa_submit_reply_and_close_def Let_def split: if_splits
        dest: drop_conn_standing close_and_free_standing)
qed

definition armed :: "cqe list \<Rightarrow> fa_worker \<Rightarrow> bool" where
  "armed qs w \<longleftrightarrow> standing (w_log w) + int (accept_ends qs) = 1"

lemma fa_on_accept_standing:
  assumes "sq_drained env" and "fa_on_accept env s q w = Some w'"
  shows "standing (w_log w') = standing (w_log w) + (if cqe_more q then 0 else 1)"
proof -
  define w1 where "w1 = (if \<not> cqe_more q then fa_arm_accept env s w else w)"
  have w1: "standing (w_log w1) = standing (w_log w) + (if cqe_more q then 0 else 1)"
    by (simp add: w1_def fa_arm_accept_standing [OF assms(1)])
  show ?thesis
  proof (cases "cqe_res q < 0")
    case True
    with assms w1 show ?thesis
      by (simp add: fa_on_accept_def w1_def [symmetric])
  next
    case False
    with assms(2) obtain p w2 where alloc: "fa_conn_alloc env s w1 = Some (p, w2)"
      by (auto simp: fa_on_accept_def w1_def [symmetric] split: bind_splits)
    have "standing (w_log w2) = standing (w_log w1)"
      using alloc by (rule fa_conn_alloc_standing)
    with assms(2) False alloc w1 show ?thesis
      by (auto simp: fa_on_accept_def w1_def [symmetric] dest: fa_submit_recv_standing
          split: option.splits bind_splits if_splits)
  qed
qed

lemma fa_on_recv_standing:
  assumes "fa_on_recv env s c q w = Some w'"
  shows "standing (w_log w') = standing (w_log w)"
proof (cases "cqe_res q \<le> 0")
  case True
  with assms show ?thesis
    by (simp add: fa_on_recv_def fa_submit_close_standing)
next
  case False
  with assms obtain obj r w1 where h: "call_handler env s obj (cqe_res q) w = Some (r, w1)"
    and w': "standing (w_log w') = standing (w_log w1)"
    by (auto simp: fa_on_recv_def Let_def split: bind_splits if_splits
        dest!: fa_submit_close_standing fa_submit_reply_and_close_standing)
  moreover from h have "standing (w_log w1) = standing (w_log w)"
    by (auto simp: call_handler_def Let_def split: prod.splits if_splits)
  ultimately show ?thesis by simp
qed

lemma fa_handle_cqe_armed:
  assumes "sq_drained env" and "contracts env s" and "srv_ok s" and "worker_inv env s (q # qs) w"
    and "armed (q # qs) w"
  shows "\<exists>w'. fa_handle_cqe env s q w = Some w' \<and> worker_inv env s qs w' \<and> armed qs w'"
proof -
  from fa_handle_cqe_inv [OF assms(2-4)] obtain w' where
    w': "fa_handle_cqe env s q w = Some w'" "worker_inv env s qs w'" by blast
  have "armed qs w'"
  proof (cases "cqe_user_data q")
    case UNull
    with w' assms(5) show ?thesis by (simp add: fa_handle_cqe_def armed_def)
  next
    case UMarker
    with w'(1) have "fa_on_accept env s q w = Some w'"
      by (simp add: fa_handle_cqe_def split: if_splits)
    from fa_on_accept_standing [OF assms(1) this] UMarker assms(5) show ?thesis
      by (auto simp: armed_def)
  next
    case (UConn c)
    with assms(4) obtain obj where "w_heap w c = Some obj" "fc_state obj = FA_ST_RECV"
      using own_busy [of "mset (conns_of (q # qs))" "{#}" w c] by (auto simp: worker_inv_def)
    with w'(1) UConn have "fa_on_recv env s c q w = Some w'"
      by (simp add: fa_handle_cqe_def)
    from fa_on_recv_standing [OF this] UConn assms(5) show ?thesis
      by (simp add: armed_def)
  qed
  with w' show ?thesis by blast
qed

interpretation armed_batch: completion_handler "fa_handle_cqe env s"
  "\<lambda>qs w. sq_drained env \<and> contracts env s \<and> srv_ok s \<and> worker_inv env s qs w \<and> armed qs w"
  by unfold_locales (use fa_handle_cqe_armed in blast)

lemma fa_loop_body_armed:
  assumes "sq_drained env" and "contracts env s" and "srv_ok s" and "worker_inv env s [] w"
    and "armed [] w" and "fa_loop_body env s w = Some (Continue w')"
  shows "armed [] w'"
  using assms(2,4,6)
proof (cases rule: fa_loop_body_Continue)
  case (nothing ret)
  with assms(5) show ?thesis by (simp add: armed_def)
next
  case (batch qs ret v w2)
  then have "armed qs v"
    using assms(5) by (simp add: armed_def deliver_def)
  with batch assms(1-3) armed_batch.drains_all [of env s qs v] show ?thesis
    by (auto simp: armed_def)
qed

lemma armed_at_heads:
  assumes "loop_head (fa_stopped env) (fa_loop_body env s) w0 w"
    and "sq_drained env" and "contracts env s" and "srv_ok s" and "worker_inv env s [] w0"
    and "armed [] w0"
  shows "worker_inv env s [] w \<and> armed [] w"
  using assms(1)
proof (induction rule: loop_head.induct)
  case enter
  from assms show ?case by simp
next
  case (again w w')
  then show ?case
    using assms(2-4) fa_loop.body_continues [of env s w w'] fa_loop_body_armed [of env s w w']
    by blast
qed

lemma fa_warm_standing: "fa_warm env s n w = Some w' \<Longrightarrow> standing (w_log w') = standing (w_log w)"
proof (induction n arbitrary: w)
  case (Suc n)
  obtain p w1 where m: "conn_malloc env s w = (p, w1)"
    by (cases "conn_malloc env s w")
  have "standing (w_log w1) = standing (w_log w)"
    using m by (auto simp: conn_malloc_def Let_def split: option.splits)
  with Suc m show ?case
    by (auto split: option.splits bind_splits dest: fa_conn_free_standing)
qed simp

end
