(* ===== verification/Replies.thy ===== *)
theory Replies
  imports Worker_Inv
begin

text \<open>
  What the clients receive. A queued send carries a pointer to the worker's reply scratch and
  reads it when the queue is submitted, which happens after the whole batch was processed. The
  exact effect of a served request is computed first; then, for a handler that always produces
  the same reply, every payload is that reply.
\<close>

subsection \<open>The exact effect of a served request\<close>

text \<open>
  The submission queue has room for the next calls: for as long as at most \<open>n\<close> more calls were made,
  io_uring_get_sqe gives an entry.
\<close>

definition room_for :: "'c uring_env \<Rightarrow> nat \<Rightarrow> history \<Rightarrow> bool" where
  "room_for env n h \<longleftrightarrow> (\<forall>cs. length cs \<le> n \<longrightarrow> e_get_sqe env (cs @ h))"

lemma room_forD: "room_for env n h \<Longrightarrow> length cs \<le> n \<Longrightarrow> e_get_sqe env (cs @ h)"
  by (simp add: room_for_def)

lemma room_for_later: "room_for env n h \<Longrightarrow> length cs + m \<le> n \<Longrightarrow> room_for env m (cs @ h)"
  unfolding room_for_def by (metis add.commute add_le_mono1 append.assoc length_append order_trans)

lemma acquire_sqe_room: "room_for env n (w_log w) \<Longrightarrow> acquire_sqe env w = (True, w)"
  using room_forD [of env n "w_log w" "[]"] by (simp add: acquire_sqe_def)

definition served ::
  "addr \<Rightarrow> fa_conn \<Rightarrow> bytes \<Rightarrow> int \<Rightarrow> int \<Rightarrow> bytes \<Rightarrow> int \<Rightarrow> fa_worker \<Rightarrow> fa_worker" where
  "served c obj req cap r bs n w =
     w\<lparr>w_reply := store_bytes bs (w_reply w),
       w_heap := (w_heap w)(c \<mapsto> obj\<lparr>fc_next := w_free_head w\<rparr>),
       w_free_head := Some c,
       w_log := C_prep (close_sqe w (fc_fd obj)) # C_prep (send_sqe w (fc_fd obj) n) #
                C_handler req cap r # w_log w\<rparr>"

lemma fa_on_recv_served:
  assumes "room_for env 2 (w_log w)" and "w_heap w c = Some obj" and "0 < cqe_res q"
    and "nat SIZEOF_FA_CONN + nat (cqe_res q) \<le> fc_room obj"
    and "e_handler env (w_log w) (take (nat (cqe_res q)) (fc_buf obj)) (cfg_reply_cap (srv_cfg s)) = (bs, r)"
    and "length bs \<le> length (w_reply w)" and "0 < r"
  shows "fa_on_recv env s c q w =
    Some (served c obj (take (nat (cqe_res q)) (fc_buf obj)) (cfg_reply_cap (srv_cfg s)) r bs
      (min r (cfg_reply_cap (srv_cfg s))) w)"
proof -
  have min: "(if cfg_reply_cap (srv_cfg s) < r then cfg_reply_cap (srv_cfg s) else r) =
      min r (cfg_reply_cap (srv_cfg s))"
    by auto
  have "e_get_sqe env (x # w_log w)" "e_get_sqe env (x # y # w_log w)" for x y
    using room_forD [OF assms(1), of "[x]"] room_forD [OF assms(1), of "[x, y]"] by simp_all
  then show ?thesis
    using assms
    by (simp add: fa_on_recv_def call_handler_def fa_submit_reply_and_close_def min Let_def
        acquire_sqe_def fa_conn_free_def served_def send_sqe_def close_sqe_def call_def)
qed

lemma fa_handle_served:
  assumes "room_for env 2 (w_log w)" and "cqe_user_data q = UConn c" and "w_heap w c = Some obj"
    and "fc_state obj = FA_ST_RECV" and "0 < cqe_res q"
    and "nat SIZEOF_FA_CONN + nat (cqe_res q) \<le> fc_room obj" and "cap = cfg_reply_cap (srv_cfg s)"
    and "e_handler env (w_log w) (take (nat (cqe_res q)) (fc_buf obj)) cap = (bs, r)"
    and "length bs \<le> length (w_reply w)" and "0 < r"
  shows "fa_handle_cqe env s q w =
    Some (served c obj (take (nat (cqe_res q)) (fc_buf obj)) cap r bs (min r cap) w)"
  using assms fa_on_recv_served [of env w c obj q s bs r] by (simp add: fa_handle_cqe_def)

lemma payloads_close [simp]: "payloads b [close_sqe w fd] = []"
  by (simp add: close_sqe_def prep_defs)

lemma payloads_send [simp]: "payloads b [send_sqe w fd n] = [(fd, take (c_unsigned n) b)]"
  by (simp add: send_sqe_def prep_defs)

lemma served_simps [simp]:
  "w_reply (served c obj req cap r bs n w) = store_bytes bs (w_reply w)"
  "w_heap (served c obj req cap r bs n w) = (w_heap w)(c \<mapsto> obj\<lparr>fc_next := w_free_head w\<rparr>)"
  "transmitted (w_log (served c obj req cap r bs n w)) = transmitted (w_log w)"
  "payloads b (unsent (w_log (served c obj req cap r bs n w))) =
     payloads b (unsent (w_log w)) @ [(fc_fd obj, take (c_unsigned n) b)]"
  by (simp_all add: served_def send_sqe_def close_sqe_def prep_defs)

subsection \<open>With a full queue\<close>

text \<open>
  No entry was free right after a submission, at some point between the histories \<open>h\<close> and \<open>k\<close>. Only
  then a helper gives its connection up.
\<close>

definition queue_full :: "'c uring_env \<Rightarrow> history \<Rightarrow> history \<Rightarrow> bool" where
  "queue_full env h k \<longleftrightarrow>
     (\<exists>b g. suffix h g \<and> suffix (C_submit b # g) k \<and> \<not> e_get_sqe env (C_submit b # g))"

lemma queue_full_mono: "queue_full env h k \<Longrightarrow> suffix h' h \<Longrightarrow> suffix k k' \<Longrightarrow> queue_full env h' k'"
  unfolding queue_full_def by (meson suffix_order.trans)

lemma sq_drained_not_full: "sq_drained env \<Longrightarrow> \<not> queue_full env h k"
  by (simp add: queue_full_def sq_drained_def)

text \<open>The calls of a piece of a history without the submissions that made room.\<close>

definition calls_made :: "history \<Rightarrow> history" where
  "calls_made cs = filter (\<lambda>c. \<forall>b. c \<noteq> C_submit b) cs"

lemma calls_made_simps [simp]:
  "calls_made [] = []" "calls_made (C_submit b # cs) = calls_made cs"
  "(\<And>b. c \<noteq> C_submit b) \<Longrightarrow> calls_made (c # cs) = c # calls_made cs"
  "calls_made (cs @ ds) = calls_made cs @ calls_made ds"
  by (auto simp: calls_made_def)

text \<open>What giving a connection up leaves in the history: a regular descriptor is closed at once, the
  slot of a direct one is not released.\<close>

definition given_up :: "fa_worker \<Rightarrow> fa_conn \<Rightarrow> history" where
  "given_up w obj = (if w_direct w then [] else [C_close (fc_fd obj)])"

text \<open>The connection is back at the front of the freelist, after the calls \<open>cs\<close>.\<close>

definition put_back :: "addr \<Rightarrow> fa_conn \<Rightarrow> history \<Rightarrow> fa_worker \<Rightarrow> fa_worker" where
  "put_back c obj cs w = w\<lparr>w_heap := (w_heap w)(c \<mapsto> obj\<lparr>fc_next := w_free_head w\<rparr>), w_free_head := Some c,
     w_log := cs @ w_log w\<rparr>"

lemma acquire_sqe_calls:
  assumes "acquire_sqe env w = (ok, w')"
  obtains cs where "w' = w\<lparr>w_log := cs @ w_log w\<rparr>" and "calls_made cs = []"
    and "\<not> ok \<Longrightarrow> queue_full env (w_log w) (cs @ w_log w)"
proof (cases "e_get_sqe env (w_log w)")
  case True
  with assms show thesis
    by (intro that [of "[]"]) (auto simp: acquire_sqe_def)
next
  case False
  with assms show thesis
    by (intro that [of "[C_submit (w_reply w)]"])
      (auto simp: acquire_sqe_def call_def queue_full_def Let_def)
qed

lemma drop_conn_calls:
  assumes "w_heap w c = Some obj"
  shows "drop_conn c obj w = Some (put_back c obj (given_up w obj) w)"
  using assms by (simp add: drop_conn_def fa_conn_free_def put_back_def given_up_def call_def)

lemma submit_close_calls:
  assumes "w_heap w c = Some obj"
  obtains cs where "fa_submit_close env c w = Some (put_back c obj cs w)"
    and "calls_made cs = [C_prep (close_sqe w (fc_fd obj))] \<or>
      calls_made cs = given_up w obj \<and> queue_full env (w_log w) (cs @ w_log w)"
proof -
  obtain ok w1 where acq: "acquire_sqe env w = (ok, w1)"
    by (cases "acquire_sqe env w")
  obtain as where as: "w1 = w\<lparr>w_log := as @ w_log w\<rparr>" "calls_made as = []"
      "\<not> ok \<Longrightarrow> queue_full env (w_log w) (as @ w_log w)"
    using acquire_sqe_calls [OF acq] by metis
  show thesis
  proof (cases ok)
    case True
    with as acq assms show ?thesis
      by (intro that [of "C_prep (close_sqe w (fc_fd obj)) # as"])
        (simp_all add: fa_submit_close_def fa_conn_free_def put_back_def call_def close_sqe_def)
  next
    case False
    with as acq assms show ?thesis
      by (intro that [of "given_up w obj @ as"])
        (auto simp: fa_submit_close_def drop_conn_calls put_back_def given_up_def
          intro: queue_full_mono suffix_ConsI)
  qed
qed

lemma reply_and_close_calls:
  assumes "w_heap w c = Some obj"
  obtains cs where "fa_submit_reply_and_close env c n w = Some (put_back c obj cs w)"
    and "calls_made cs = [C_prep (close_sqe w (fc_fd obj)), C_prep (send_sqe w (fc_fd obj) n)] \<or>
      (calls_made cs = given_up w obj @ [C_prep (send_sqe w (fc_fd obj) n)] \<or> calls_made cs = given_up w obj) \<and>
        queue_full env (w_log w) (cs @ w_log w)"
proof -
  obtain ok w1 where acq: "acquire_sqe env w = (ok, w1)"
    by (cases "acquire_sqe env w")
  obtain as where as: "w1 = w\<lparr>w_log := as @ w_log w\<rparr>" "calls_made as = []"
      "\<not> ok \<Longrightarrow> queue_full env (w_log w) (as @ w_log w)"
    using acquire_sqe_calls [OF acq] by metis
  show thesis
  proof (cases ok)
    case False
    with as acq assms show ?thesis
      by (intro that [of "given_up w obj @ as"])
        (auto simp: fa_submit_reply_and_close_def drop_conn_calls put_back_def given_up_def
          intro: queue_full_mono suffix_ConsI)
  next
    case True
    let ?sent = "C_prep (send_sqe w (fc_fd obj) n) # as"
    let ?w2 = "w\<lparr>w_log := ?sent @ w_log w\<rparr>"
    have w2: "call (C_prep (send_sqe w1 (fc_fd obj) n)) w1 = ?w2"
      by (simp add: as(1) call_def send_sqe_def)
    have step: "fa_submit_reply_and_close env c n w = fa_submit_close env c ?w2"
      using acq True assms w2 by (simp add: fa_submit_reply_and_close_def fa_submit_close_def as(1) close_sqe_def)
    obtain bs where bs: "fa_submit_close env c ?w2 = Some (put_back c obj bs ?w2)"
      "calls_made bs = [C_prep (close_sqe w (fc_fd obj))] \<or>
        calls_made bs = given_up w obj \<and> queue_full env (w_log ?w2) (bs @ w_log ?w2)"
      using submit_close_calls [of ?w2 c obj env] assms by (auto simp: close_sqe_def given_up_def)
    have "queue_full env (w_log ?w2) (bs @ w_log ?w2) \<Longrightarrow> queue_full env (w_log w) ((bs @ ?sent) @ w_log w)"
      by (erule queue_full_mono) (simp_all add: suffix_def)
    with bs as(2) step show ?thesis
      by (intro that [of "bs @ ?sent"]) (auto simp: put_back_def)
  qed
qed

subsection \<open>A constant reply\<close>

definition const_handler :: "'c uring_env \<Rightarrow> int \<Rightarrow> bytes \<Rightarrow> bool" where
  "const_handler env cap R \<longleftrightarrow> (\<forall>h req. e_handler env h req cap = (R, int (length R)))"

definition uniform :: "bytes \<Rightarrow> fa_worker \<Rightarrow> bool" where
  "uniform R w \<longleftrightarrow> (\<forall>p \<in> set (transmitted (w_log w)). snd p = R) \<and>
     (\<forall>q \<in> set (prepared (w_log w)). sqe_op q = OP_SEND \<longrightarrow>
        sqe_len q = length R \<and> take (length R) (w_reply w) = R)"

lemma unsent_prepared: "set (unsent h) \<subseteq> set (prepared h)"
  by (induction h rule: unsent.induct) auto

lemma payloads_uniform:
  "(\<And>q. q \<in> set qs \<Longrightarrow> sqe_op q = OP_SEND \<Longrightarrow> take (sqe_len q) b = R) \<Longrightarrow>
   p \<in> set (payloads b qs) \<Longrightarrow> snd p = R"
  by (induction qs) (auto split: if_splits)

lemma uniform_flush:
  assumes "uniform R w" and "p \<in> set (payloads (w_reply w) (unsent (w_log w)))"
  shows "snd p = R"
  using assms(2) by (rule payloads_uniform [rotated])
    (use assms(1) unsent_prepared [of "w_log w"] in \<open>auto simp: uniform_def\<close>)

lemma uniform_submit [simp]: "uniform R w \<Longrightarrow> uniform R (call (C_submit (w_reply w)) w)"
  using uniform_flush [of R w] by (auto simp: uniform_def)

lemma uniform_wait [simp]: "uniform R w \<Longrightarrow> uniform R (call (C_wait (w_reply w) r) w)"
  using uniform_flush [of R w] by (auto simp: uniform_def)

lemma uniform_call [simp]:
  "transmitted (c # w_log w) = transmitted (w_log w) \<Longrightarrow> prepared (c # w_log w) = prepared (w_log w) \<Longrightarrow>
   uniform R (call c w) = uniform R w"
  by (simp add: uniform_def)

lemma uniform_prep:
  "uniform R w \<Longrightarrow> (sqe_op q = OP_SEND \<Longrightarrow> sqe_len q = length R \<and> take (length R) (w_reply w) = R) \<Longrightarrow>
   uniform R (call (C_prep q) w)"
  by (auto simp: uniform_def)

lemma uniform_fields [simp]:
  "uniform R (w\<lparr>w_heap := h\<rparr>) = uniform R w"
  "uniform R (w\<lparr>w_free_head := p\<rparr>) = uniform R w"
  "uniform R (w\<lparr>w_marker := m\<rparr>) = uniform R w"
  by (simp_all add: uniform_def)

lemma uniform_acquire: "acquire_sqe env w = (ok, w') \<Longrightarrow> uniform R w \<Longrightarrow> uniform R w'"
  using acquire_sqe_cases by fastforce

lemma uniform_free: "fa_conn_free c w = Some w' \<Longrightarrow> uniform R w \<Longrightarrow> uniform R w'"
  by (auto simp: fa_conn_free_def uniform_def split: bind_splits)

lemma uniform_drop: "drop_conn c obj w = Some w' \<Longrightarrow> uniform R w \<Longrightarrow> uniform R w'"
  by (auto simp: drop_conn_def split: if_splits intro: uniform_free)

lemma uniform_alloc: "fa_conn_alloc env s w = Some (p, w') \<Longrightarrow> uniform R w \<Longrightarrow> uniform R w'"
  by (auto simp: fa_conn_alloc_def conn_malloc_def Let_def split: option.splits bind_splits)

lemma uniform_arm: "uniform R w \<Longrightarrow> uniform R (fa_arm_accept env s w)"
proof -
  assume u: "uniform R w"
  obtain ok w1 where acq: "acquire_sqe env w = (ok, w1)"
    by (cases "acquire_sqe env w")
  with uniform_acquire [OF acq u] show ?thesis
    by (auto simp: fa_arm_accept_def Let_def prep_defs intro!: uniform_prep)
qed

lemma uniform_recv: "fa_submit_recv env s c w = Some w' \<Longrightarrow> uniform R w \<Longrightarrow> uniform R w'"
proof -
  assume r: "fa_submit_recv env s c w = Some w'" and u: "uniform R w"
  obtain ok w1 where acq: "acquire_sqe env w = (ok, w1)"
    by (cases "acquire_sqe env w")
  with r uniform_acquire [OF acq u] show ?thesis
    by (auto simp: fa_submit_recv_def Let_def prep_defs split: if_splits bind_splits
        intro!: uniform_prep intro: uniform_drop)
qed

lemma uniform_close_and_free:
  "fa_conn_free c (call (C_prep (close_sqe w fd)) w) = Some w' \<Longrightarrow> uniform R w \<Longrightarrow> uniform R w'"
  by (erule uniform_free) (auto simp: close_sqe_def prep_defs intro: uniform_prep)

lemma uniform_close: "fa_submit_close env c w = Some w' \<Longrightarrow> uniform R w \<Longrightarrow> uniform R w'"
proof -
  assume r: "fa_submit_close env c w = Some w'" and u: "uniform R w"
  obtain ok w1 where acq: "acquire_sqe env w = (ok, w1)"
    by (cases "acquire_sqe env w")
  with r uniform_acquire [OF acq u] show ?thesis
    by (auto simp: fa_submit_close_def split: if_splits bind_splits
        intro: uniform_drop uniform_close_and_free)
qed

lemma uniform_reply:
  assumes "fa_submit_reply_and_close env c n w = Some w'" and "uniform R w"
    and "c_unsigned n = length R" and "take (length R) (w_reply w) = R"
  shows "uniform R w'"
proof -
  from assms(1) obtain obj where obj: "w_heap w c = Some obj"
    by (auto simp: fa_submit_reply_and_close_def split: bind_splits)
  obtain ok w1 where acq: "acquire_sqe env w = (ok, w1)"
    by (cases "acquire_sqe env w")
  let ?w2 = "call (C_prep (send_sqe w1 (fc_fd obj) n)) w1"
  obtain ok' w3 where acq': "acquire_sqe env ?w2 = (ok', w3)"
    by (cases "acquire_sqe env ?w2")
  have u1: "uniform R w1" and r1: "w_reply w1 = w_reply w"
    using uniform_acquire [OF acq assms(2)] acquire_sqe_frame(1) [OF acq]
    by (auto simp: same_worker_def)
  then have "uniform R ?w2"
    using assms(3,4) by (intro uniform_prep) (auto simp: send_sqe_def prep_defs)
  with acq' have "uniform R w3"
    by (rule uniform_acquire)
  with u1 show ?thesis
    using assms(1) obj acq acq'
    by (auto simp: fa_submit_reply_and_close_def Let_def split: if_splits
        intro: uniform_drop uniform_close_and_free)
qed

lemma uniform_handler:
  assumes "call_handler env s obj n w = Some (r, w')" and "const_handler env (cfg_reply_cap (srv_cfg s)) R" and "uniform R w"
  shows "uniform R w'" and "r = int (length R)" and "take (length R) (w_reply w') = R"
  using assms by (auto simp: call_handler_def const_handler_def uniform_def Let_def split: if_splits)

lemma uniform_on_recv:
  assumes "fa_on_recv env s c q w = Some w'" and "const_handler env (cfg_reply_cap (srv_cfg s)) R" and "uniform R w"
    and "int (length R) \<le> cfg_reply_cap (srv_cfg s)" and "cfg_reply_cap (srv_cfg s) \<le> INT_MAX"
  shows "uniform R w'"
proof (cases "cqe_res q \<le> 0")
  case True
  with assms show ?thesis
    by (auto simp: fa_on_recv_def intro: uniform_close)
next
  case False
  with assms(1) obtain obj r w1 where h: "call_handler env s obj (cqe_res q) w = Some (r, w1)"
    and w': "if 0 < r then fa_submit_reply_and_close env c
        (if cfg_reply_cap (srv_cfg s) < r then cfg_reply_cap (srv_cfg s) else r) w1 = Some w'
      else fa_submit_close env c w1 = Some w'"
    by (auto simp: fa_on_recv_def Let_def split: bind_splits if_splits)
  note u = uniform_handler [OF h assms(2,3)]
  have "c_unsigned (int (length R)) = length R"
    using assms(4,5) by (simp add: INT_MAX_def)
  with w' u assms(4) show ?thesis
    by (auto split: if_splits intro: uniform_close uniform_reply)
qed

lemma uniform_on_accept:
  assumes "fa_on_accept env s q w = Some w'" and "uniform R w"
  shows "uniform R w'"
proof -
  define w1 where "w1 = (if \<not> cqe_more q then fa_arm_accept env s w else w)"
  have u1: "uniform R w1"
    using assms(2) by (simp add: w1_def uniform_arm)
  show ?thesis
  proof (cases "cqe_res q < 0")
    case True
    with assms u1 show ?thesis
      by (simp add: fa_on_accept_def w1_def [symmetric])
  next
    case False
    with assms obtain p w2 where alloc: "fa_conn_alloc env s w1 = Some (p, w2)"
      by (auto simp: fa_on_accept_def w1_def [symmetric] split: bind_splits)
    with u1 have "uniform R w2"
      by (rule uniform_alloc [rotated])
    with assms(1) False alloc show ?thesis
      by (auto simp: fa_on_accept_def w1_def [symmetric] intro: uniform_recv
          split: option.splits bind_splits if_splits)
  qed
qed

definition const_server :: "fa_env \<Rightarrow> fa_server \<Rightarrow> bytes \<Rightarrow> bool" where
  "const_server env s R \<longleftrightarrow> contracts env s \<and> srv_ok s \<and> const_handler env (cfg_reply_cap (srv_cfg s)) R \<and>
     int (length R) \<le> cfg_reply_cap (srv_cfg s)"

interpretation uniform_batch: completion_handler "fa_handle_cqe env s"
  "\<lambda>qs w. const_server env s R \<and> worker_inv env s qs w \<and> uniform R w"
proof (unfold_locales, goal_cases)
  case (1 q qs w)
  then have c: "contracts env s" "srv_ok s" "const_handler env (cfg_reply_cap (srv_cfg s)) R"
      "int (length R) \<le> cfg_reply_cap (srv_cfg s)" "cfg_reply_cap (srv_cfg s) \<le> INT_MAX"
    by (auto simp: const_server_def srv_ok_def)
  with 1 obtain w' where w': "fa_handle_cqe env s q w = Some w'" "worker_inv env s qs w'"
    using fa_handle_cqe_inv by blast
  with 1 c have "uniform R w'"
    by (auto simp: fa_handle_cqe_def split: uref.splits if_splits bind_splits
        intro: uniform_on_accept uniform_on_recv)
  with 1 w' show ?case by blast
qed

lemma fa_loop_body_uniform:
  assumes "const_server env s R" and "worker_inv env s [] w" and "uniform R w"
    and "fa_loop_body env s w = Some (Continue w')"
  shows "uniform R w'"
proof -
  have "contracts env s"
    using assms(1) by (simp add: const_server_def)
  then show ?thesis
    using assms(2,4)
  proof (cases rule: fa_loop_body_Continue)
    case (nothing ret)
    with assms(3) show ?thesis by simp
  next
    case (batch qs ret v w2)
    then have "uniform R v"
      using assms(3) by (simp add: deliver_def)
    with batch assms(1) uniform_batch.drains_all [of env s R qs v] show ?thesis
      by auto
  qed
qed

lemma uniform_at_heads:
  assumes "loop_head (fa_stopped env) (fa_loop_body env s) w0 w"
    and "const_server env s R" and "worker_inv env s [] w0" and "uniform R w0"
  shows "worker_inv env s [] w \<and> uniform R w"
  using assms(1)
proof (induction rule: loop_head.induct)
  case enter
  from assms show ?case by simp
next
  case (again w w')
  then show ?case
    using assms(2) fa_loop.body_continues [of env s w w'] fa_loop_body_uniform [of env s R w w']
    by (simp add: const_server_def)
qed

lemma uniform_warm: "fa_warm env s n w = Some w' \<Longrightarrow> uniform R w \<Longrightarrow> uniform R w'"
proof (induction n arbitrary: w)
  case (Suc n)
  obtain p w1 where m: "conn_malloc env s w = (p, w1)"
    by (cases "conn_malloc env s w")
  have "uniform R w1"
    using m Suc.prems(2) by (auto simp: conn_malloc_def Let_def split: option.splits)
  with Suc m show ?case
    by (auto split: option.splits bind_splits intro: uniform_free)
qed simp

end
