(* ===== verification/Ref_Env.thy ===== *)
theory Ref_Env
  imports Accept_Standing Replies
begin

text \<open>
  A concrete environment that meets the contracts: a submission queue of the library's depth, an
  allocator that never reuses a live address, a kernel that follows a script as long as the
  script is justified by the requests in flight. The witnesses instantiate the theorems with it,
  which shows that their hypotheses can hold together.
\<close>

fun next_addr :: "history \<Rightarrow> addr" where
  "next_addr [] = 0"
| "next_addr (C_malloc n (Some a) # h) = max (Suc a) (next_addr h)"
| "next_addr (_ # h) = next_addr h"

lemma live_below: "a \<in> live h \<Longrightarrow> a < next_addr h"
  by (induction h rule: next_addr.induct) auto

definition script_peek :: "(history \<Rightarrow> cqe list) \<Rightarrow> history \<Rightarrow> nat \<Rightarrow> cqe list" where
  "script_peek script h n =
     (let qs = take n (script h) in if cqes_justified h qs then qs else [])"

definition ref_env ::
  "(history \<Rightarrow> cqe list) \<Rightarrow> (history \<Rightarrow> bool) \<Rightarrow> (bytes \<Rightarrow> int \<Rightarrow> bytes \<times> int) \<Rightarrow> fa_env" where
  "ref_env script stop handler =
     \<lparr>e_get_sqe = \<lambda>h. length (unsent h) < FA_QUEUE_DEPTH,
      e_wait = \<lambda>h. 1,
      e_peek = script_peek script,
      e_malloc = \<lambda>h n. Some (next_addr h),
      e_uninit = \<lambda>h. \<lparr>fc_next = None, fc_state = FA_ST_ACCEPT, fc_fd = 0, fc_buf = [], fc_room = 0\<rparr>,
      e_stop = stop,
      e_handler = \<lambda>h. handler,
      e_queue_init = \<lambda>h flags. 0,
      e_register_files = \<lambda>h n. 0\<rparr>"

text \<open>A handler that sends the request back, and one with a fixed reply.\<close>

definition echo_back :: "bytes \<Rightarrow> int \<Rightarrow> bytes \<times> int" where
  "echo_back req cap = (take (nat cap) req, int (length (take (nat cap) req)))"

definition fixed_ok :: "bytes \<Rightarrow> int \<Rightarrow> bytes \<times> int" where
  "fixed_ok req cap = (''OK'', 2)"

lemma ref_env_malloc_fresh: "malloc_fresh (ref_env script stop handler)"
  using live_below by (auto simp: malloc_fresh_def ref_env_def)

lemma ref_env_kernel_ok: "kernel_ok (ref_env script stop handler)"
  by (simp add: kernel_ok_def ref_env_def script_peek_def Let_def cqes_justified_def)

lemma ref_env_sq_drained: "sq_drained (ref_env script stop handler)"
  by (simp add: sq_drained_def ref_env_def FA_QUEUE_DEPTH_def)

lemma ref_env_contracts:
  assumes "\<And>req. length (fst (handler req (cfg_reply_cap (srv_cfg s)))) \<le> nat (cfg_reply_cap (srv_cfg s))"
  shows "contracts (ref_env script stop handler) s"
  using assms ref_env_malloc_fresh ref_env_kernel_ok
  by (simp add: contracts_def handler_ok_def) (simp add: ref_env_def)

lemma echo_contracts: "contracts (ref_env script stop echo_back) s"
  by (rule ref_env_contracts) (simp add: echo_back_def)

subsection \<open>A server and a worker\<close>

definition demo_cfg :: fa_config where
  "demo_cfg = \<lparr>cfg_port = 8080, cfg_workers = 1, cfg_backlog = 4096, cfg_recv_buf = 8,
     cfg_reply_cap = 8, cfg_multishot = 1, cfg_direct_files = 1\<rparr>"

definition demo_srv :: fa_server where
  "demo_srv = \<lparr>srv_cfg = demo_cfg, srv_conn_size = 24, srv_nworkers = 1, srv_workers = [],
     srv_stop = False\<rparr>"

definition demo_worker :: "bool \<Rightarrow> fa_worker" where
  "demo_worker direct = \<lparr>w_listen_fd = 3, w_direct = direct, w_cpu = 0, w_ring_ready = True,
     w_marker = FA_ST_ACCEPT, w_free_head = None, w_reply = replicate 8 CHR 0x00,
     w_heap = Map.empty, w_log = []\<rparr>"

lemma demo_srv_ok: "srv_ok demo_srv"
  by (simp add: srv_ok_def demo_srv_def demo_cfg_def INT_MAX_def SIZEOF_FA_CONN_def is_c_int_def)

lemma demo_idle: "idle demo_srv (demo_worker direct)"
  by (simp add: idle_def demo_srv_def demo_cfg_def demo_worker_def)

lemma demo_uniform: "uniform R (demo_worker direct)"
  by (simp add: uniform_def demo_worker_def)

subsection \<open>A run\<close>

text \<open>
  The worker under an allocator that has no memory while the freelist is warmed up, so that the
  run starts with an empty freelist: one client connects on descriptor 5 and sends a request.
\<close>

definition lazy_env ::
  "(history \<Rightarrow> cqe list) \<Rightarrow> (bytes \<Rightarrow> int \<Rightarrow> bytes \<times> int) \<Rightarrow> fa_env" where
  "lazy_env script handler = (ref_env script (\<lambda>h. False) handler)
     \<lparr>e_malloc := \<lambda>h n. case h of [] \<Rightarrow> None | C_malloc _ _ # _ \<Rightarrow> None | _ \<Rightarrow> Some (next_addr h)\<rparr>"

definition one_client :: "history \<Rightarrow> cqe list" where
  "one_client h =
     (if accepted h = {#} then
        [\<lparr>cqe_user_data = UMarker, cqe_res = 5, cqe_more = True, cqe_bytes = []\<rparr>]
      else if inflight h = {#0#} then
        [\<lparr>cqe_user_data = UConn 0, cqe_res = 5, cqe_more = False, cqe_bytes = ''hello''\<rparr>]
      else [])"

abbreviation demo_env :: fa_env where
  "demo_env \<equiv> lazy_env one_client fixed_ok"

fun iterate_body :: "nat \<Rightarrow> fa_env \<Rightarrow> fa_server \<Rightarrow> fa_worker \<Rightarrow> fa_worker option" where
  "iterate_body 0 env s w = Some w"
| "iterate_body (Suc n) env s w =
     (if fa_stopped env w then None
      else case fa_loop_body env s w of
             Some (Continue w') \<Rightarrow> iterate_body n env s w' | _ \<Rightarrow> None)"

definition run_to :: "nat \<Rightarrow> fa_env \<Rightarrow> fa_server \<Rightarrow> fa_worker \<Rightarrow> fa_worker option" where
  "run_to n env s w =
     (case fa_warm env s FA_FREELIST_WARM w of
        None \<Rightarrow> None
      | Some w1 \<Rightarrow> iterate_body n env s (fa_arm_accept env s w1))"

lemma iterate_body_head:
  "iterate_body n env s w = Some v \<Longrightarrow> loop_head (fa_stopped env) (fa_loop_body env s) w v"
proof (induction n arbitrary: w)
  case 0
  then show ?case by (simp add: loop_head.enter)
next
  case (Suc n)
  then obtain w' where "\<not> fa_stopped env w" "fa_loop_body env s w = Some (Continue w')"
    "iterate_body n env s w' = Some v"
    by (auto split: if_splits option.splits loop_next.splits)
  with Suc.IH loop_head_step show ?case by metis
qed

lemma run_to_heads: "run_to n env s w = Some v \<Longrightarrow> fa_heads env s w v"
  by (auto simp: run_to_def fa_heads_def split: option.splits intro: iterate_body_head)

lemma demo_contracts: "contracts (lazy_env script fixed_ok) demo_srv"
proof -
  have "malloc_fresh (lazy_env script fixed_ok)"
    using live_below
    by (auto simp: malloc_fresh_def lazy_env_def ref_env_def split: list.splits call.splits)
  moreover have "kernel_ok (lazy_env script fixed_ok)"
    using ref_env_kernel_ok by (simp add: kernel_ok_def lazy_env_def)
  ultimately show ?thesis
    by (simp add: contracts_def handler_ok_def lazy_env_def ref_env_def fixed_ok_def demo_srv_def
        demo_cfg_def)
qed

lemma demo_sq_drained: "sq_drained (lazy_env script handler)"
  using ref_env_sq_drained by (simp add: sq_drained_def lazy_env_def)

lemma demo_const: "const_server (lazy_env script fixed_ok) demo_srv ''OK''"
  using demo_contracts demo_srv_ok
  by (simp add: const_server_def const_handler_def demo_srv_def demo_cfg_def)
    (simp add: lazy_env_def ref_env_def fixed_ok_def)

lemma fa_warm_no_memory:
  assumes "w_log w = [] \<or> (\<exists>n p h. w_log w = C_malloc n p # h)"
  shows "fa_warm (lazy_env script handler) s n w =
    Some (w\<lparr>w_log := replicate n (C_malloc (c_size_t (srv_conn_size s)) None) @ w_log w\<rparr>)"
  using assms
proof (induction n arbitrary: w)
  case (Suc n)
  then have m: "conn_malloc (lazy_env script handler) s w =
      (None, call (C_malloc (c_size_t (srv_conn_size s)) None) w)"
    by (auto simp: conn_malloc_def lazy_env_def Let_def)
  with Suc.IH [of "call (C_malloc (c_size_t (srv_conn_size s)) None) w"] show ?case
    by (simp add: call_def replicate_app_Cons_same)
qed simp

definition demo_start :: fa_worker where
  "demo_start = fa_arm_accept demo_env demo_srv
     ((demo_worker False)\<lparr>w_log := replicate 128 (C_malloc 24 None)\<rparr>)"

lemma run_to_demo: "run_to n demo_env demo_srv (demo_worker False) = iterate_body n demo_env demo_srv demo_start"
  by (simp add: run_to_def fa_warm_no_memory demo_start_def demo_worker_def demo_srv_def
      FA_FREELIST_WARM_def)

lemma demo_run:
  "map_option (\<lambda>v. (inflight (w_log v), accepted (w_log v), standing (w_log v)))
     (iterate_body 1 demo_env demo_srv demo_start) = Some ({#0#}, {#5#}, 1) \<and>
   map_option (\<lambda>v. (transmitted (w_log v), closed (w_log v)))
     (iterate_body 3 demo_env demo_srv demo_start) = Some ([(5, ''OK'')], {#5#})"
  by code_simp

text \<open>A client waits to be served, and a client was served.\<close>

lemma demo_waiting:
  obtains v where "fa_heads demo_env demo_srv (demo_worker False) v" "inflight (w_log v) = {#0#}"
    "accepted (w_log v) = {#5#}" "standing (w_log v) = 1"
  using demo_run by (auto simp: run_to_demo [symmetric] dest: run_to_heads)

lemma demo_served:
  obtains v where "fa_heads demo_env demo_srv (demo_worker False) v"
    "transmitted (w_log v) = [(5, ''OK'')]" "closed (w_log v) = {#5#}"
  using demo_run by (auto simp: run_to_demo [symmetric] dest: run_to_heads)

end
