(* ===== verification/Worker_Props.thy ===== *)
theory Worker_Props
  imports Ref_Env
begin

text \<open>
  The properties of a worker: memory safety, ownership, descriptors, the discipline of the
  submission entries, liveness of the accept request and of the loop, and what the clients
  receive. They hold in every state \<open>v\<close> with \<open>fa_heads env s w v\<close>: the worker started in \<open>w\<close>
  reaches its loop head in state \<open>v\<close>. The witnesses use a run of a worker that has accepted one
  client (\<open>demo_waiting\<close>) and served it (\<open>demo_served\<close>).
\<close>

lemma heads_inv:
  assumes "contracts env s" and "srv_ok s" and "idle s w" and "fa_heads env s w v"
  shows "worker_inv env s [] v"
proof -
  from loop_entry [OF contracts_malloc [OF assms(1)] assms(3)] obtain w1 where
    "fa_warm env s FA_FREELIST_WARM w = Some w1" "worker_inv env s [] (fa_arm_accept env s w1)"
    by blast
  with assms fa_loop.head_inv [of env s "fa_arm_accept env s w1" v] show ?thesis
    by (auto simp: fa_heads_def)
qed

text \<open>Between submissions a worker keeps its mode.\<close>

lemma fa_handle_cqe_direct:
  assumes "fa_handle_cqe env s q w = Some w'"
  shows "w_direct w' = w_direct w \<and> w_listen_fd w' = w_listen_fd w"
proof -
  have recv: "w_direct w' = w_direct w \<and> w_listen_fd w' = w_listen_fd w"
    if "fa_on_recv env s c q w = Some w'" for c
  proof (cases "cqe_res q \<le> 0")
    case True
    with that fa_submit_close_frame [of env c w w'] show ?thesis
      by (simp add: fa_on_recv_def same_worker_def)
  next
    case False
    with that obtain obj r w1 where h: "call_handler env s obj (cqe_res q) w = Some (r, w1)"
      and "same_worker w1 w'"
      by (auto simp: fa_on_recv_def Let_def split: bind_splits if_splits
          dest!: fa_submit_close_frame fa_submit_reply_and_close_frame)
    with call_handler_frame [OF h] show ?thesis
      by (simp add: same_worker_def)
  qed
  have "w_direct w' = w_direct w \<and> w_listen_fd w' = w_listen_fd w"
    if "fa_on_accept env s q w = Some w'"
    using fa_on_accept_frame [OF that] by (simp add: same_worker_def)
  with assms recv show ?thesis
    by (auto simp: fa_handle_cqe_def split: uref.splits if_splits bind_splits)
qed

lemma drain_direct:
  "for_each (fa_handle_cqe env s) qs w = Some w' \<Longrightarrow> w_direct w' = w_direct w \<and> w_listen_fd w' = w_listen_fd w"
  by (induction qs arbitrary: w) (auto split: bind_splits dest!: fa_handle_cqe_direct)

lemma fa_loop_body_direct:
  "fa_loop_body env s w = Some (Continue w') \<Longrightarrow> w_direct w' = w_direct w \<and> w_listen_fd w' = w_listen_fd w"
  by (auto simp: fa_loop_body_def Let_def deliver_def split: if_splits bind_splits
      dest!: drain_direct)

lemma heads_direct:
  assumes "contracts env s" and "idle s w" and "fa_heads env s w v"
  shows "w_direct v = w_direct w \<and> w_listen_fd v = w_listen_fd w"
proof -
  from loop_entry [OF contracts_malloc [OF assms(1)] assms(2)] obtain w1 where
    w1: "fa_warm env s FA_FREELIST_WARM w = Some w1" "same_worker w w1"
    by blast
  have "loop_head (fa_stopped env) (fa_loop_body env s) (fa_arm_accept env s w1) v \<Longrightarrow>
      w_direct v = w_direct (fa_arm_accept env s w1) \<and> w_listen_fd v = w_listen_fd (fa_arm_accept env s w1)"
    by (induction rule: loop_head.induct) (auto dest!: fa_loop_body_direct)
  with w1 fa_arm_accept_frame [of w1 env s] assms(3) show ?thesis
    by (auto simp: fa_heads_def same_worker_def)
qed


subsection \<open>Memory safety and ownership\<close>

text \<open>
  C1. The event loop is free of undefined behaviour: under the contracts of kernel, allocator
  and handler, a worker of a server made by \<open>fa_server_new\<close> never dereferences an object that
  does not exist, never reads or writes beyond a buffer and never overruns its completion
  array, in any iteration and whether or not the loop ever ends.
\<close>

theorem worker_loop_safe:
  assumes "contracts env s" and "srv_ok s" and "idle s w"
  shows "fa_worker_loop env s w \<noteq> Some Undefined \<and>
    (\<forall>v. fa_heads env s w v \<longrightarrow> fa_loop_body env s v \<noteq> None)"
proof -
  from loop_entry [OF contracts_malloc [OF assms(1)] assms(3)] obtain w1 where
    "fa_warm env s FA_FREELIST_WARM w = Some w1" "worker_inv env s [] (fa_arm_accept env s w1)"
    by blast
  with assms fa_loop.exit_inv [of env s "fa_arm_accept env s w1"]
  have "fa_worker_loop env s w \<noteq> Some Undefined"
    by (auto simp: fa_worker_loop_def)
  moreover have "fa_heads env s w v \<longrightarrow> fa_loop_body env s v \<noteq> None" for v
    using heads_inv [OF assms] fa_loop.body_defined [of env s v] assms by blast
  ultimately show ?thesis by blast
qed

theorem worker_loop_safe_witness:
  "fa_worker_loop (ref_env (\<lambda>h. []) (\<lambda>h. False) echo_back) demo_srv (demo_worker True) \<noteq> Some Undefined"
  using worker_loop_safe [OF echo_contracts demo_srv_ok demo_idle] by blast

text \<open>
  C2. Every connection object is in exactly one place: whenever the worker waits, the freelist is
  a proper list, no object is on it twice, no object on it has a receive in flight, none is in
  flight twice, and there is no other object. So a completion never refers to a recycled
  connection, and no connection object is forgotten.
\<close>

theorem connections_partitioned:
  assumes "contracts env s" and "srv_ok s" and "idle s w" and "fa_heads env s w v"
  shows "\<exists>fl. freelist v fl \<and> mset fl + inflight (w_log v) = mset_set (dom (w_heap v)) \<and>
    (\<forall>a. a \<in># inflight (w_log v) \<longrightarrow> (\<exists>c. w_heap v a = Some c \<and> fc_state c = FA_ST_RECV))"
proof -
  have own: "own {#} {#} v"
    using heads_inv [OF assms] by (simp add: worker_inv_def)
  then obtain fl where fl: "freelist v fl"
    using own_freelist by blast
  from own_partition(1) [OF own fl] own_busy [OF own] fl show ?thesis
    by auto
qed

theorem connections_partitioned_witness:
  "\<exists>v fl. fa_heads demo_env demo_srv (demo_worker False) v \<and> inflight (w_log v) = {#0#} \<and>
     freelist v fl \<and> mset fl + {#0#} = mset_set (dom (w_heap v))"
proof -
  obtain v where v: "fa_heads demo_env demo_srv (demo_worker False) v" "inflight (w_log v) = {#0#}"
    by (rule demo_waiting)
  with connections_partitioned [OF demo_contracts demo_srv_ok demo_idle v(1)] show ?thesis
    by auto
qed

subsection \<open>Descriptors\<close>

text \<open>
  C3. No descriptor is closed twice or closed while a connection still uses it: whenever the
  worker waits, the descriptors given back and those held by connections in flight are together
  no more than those the kernel handed out (as multisets, since numbers are reused).
\<close>

theorem no_double_close:
  assumes "contracts env s" and "srv_ok s" and "idle s w" and "fa_heads env s w v"
  shows "image_mset (conn_fd v) (inflight (w_log v)) + closed (w_log v) \<subseteq># accepted (w_log v)"
  using heads_inv [OF assms] by (auto simp: worker_inv_def ledger_def)

theorem no_double_close_witness:
  "\<exists>v. fa_heads demo_env demo_srv (demo_worker False) v \<and> closed (w_log v) = {#5#} \<and>
     image_mset (conn_fd v) (inflight (w_log v)) + {#5#} \<subseteq># accepted (w_log v)"
proof -
  obtain v where v: "fa_heads demo_env demo_srv (demo_worker False) v" "closed (w_log v) = {#5#}"
    by (rule demo_served)
  with no_double_close [OF demo_contracts demo_srv_ok demo_idle v(1)] show ?thesis
    by auto
qed

text \<open>
  C4. No descriptor is leaked: with regular descriptors always, and with direct descriptors as
  long as neither submission entries nor memory run out, every descriptor the kernel handed out
  was given back or belongs to exactly one connection in flight.
\<close>

theorem no_descriptor_lost:
  assumes "contracts env s" and "srv_ok s" and "idle s w" and "fa_heads env s w v"
    and "\<not> w_direct w \<or> sq_drained env \<and> (\<forall>h n. e_malloc env h n \<noteq> None)"
  shows "accepted (w_log v) = image_mset (conn_fd v) (inflight (w_log v)) + closed (w_log v)"
proof -
  have "lossless env (w_direct v)"
    using assms(5) heads_direct [OF assms(1,3,4)] by (simp add: lossless_def)
  with heads_inv [OF assms(1-4)] show ?thesis
    by (simp add: worker_inv_def ledger_def)
qed

theorem no_descriptor_lost_witness:
  "\<exists>v. fa_heads demo_env demo_srv (demo_worker False) v \<and>
     {#5#} = image_mset (conn_fd v) {#0#} + closed (w_log v)"
proof -
  obtain v where v: "fa_heads demo_env demo_srv (demo_worker False) v"
      "inflight (w_log v) = {#0#}" "accepted (w_log v) = {#5#}"
    by (rule demo_waiting)
  have "\<not> w_direct (demo_worker False)"
    by (simp add: demo_worker_def)
  with v no_descriptor_lost [OF demo_contracts demo_srv_ok demo_idle v(1)] show ?thesis
    by auto
qed

subsection \<open>The discipline of the entries\<close>



subsection \<open>Liveness\<close>

text \<open>
  C6. The worker never goes deaf: if a submission frees the queue, then whenever the worker waits
  exactly one accept request is queued or standing, whatever accept results came in, whether
  multishot requests ended or not.
\<close>

theorem accept_always_standing:
  assumes "contracts env s" and "srv_ok s" and "idle s w" and "sq_drained env"
    and "fa_heads env s w v"
  shows "standing (w_log v) = 1"
proof -
  from loop_entry [OF contracts_malloc [OF assms(1)] assms(3)] obtain w1 where
    w1: "fa_warm env s FA_FREELIST_WARM w = Some w1" "worker_inv env s [] (fa_arm_accept env s w1)"
    by blast
  have "armed [] (fa_arm_accept env s w1)"
    using assms(3) fa_warm_standing [OF w1(1)] fa_arm_accept_standing [OF assms(4)]
    by (simp add: armed_def idle_def)
  with w1 assms armed_at_heads [of env s "fa_arm_accept env s w1" v] show ?thesis
    by (auto simp: fa_heads_def armed_def)
qed

theorem accept_always_standing_witness:
  "\<exists>v. fa_heads demo_env demo_srv (demo_worker False) v \<and> inflight (w_log v) = {#0#} \<and>
     standing (w_log v) = 1"
proof -
  obtain v where v: "fa_heads demo_env demo_srv (demo_worker False) v" "inflight (w_log v) = {#0#}"
    by (rule demo_waiting)
  with accept_always_standing [OF demo_contracts demo_srv_ok demo_idle demo_sq_drained v(1)]
  show ?thesis by blast
qed

text \<open>
  C7. The worker stops: once the stop flag reads true from some point of its history on, the loop
  returns, and it leaves the connections partitioned between freelist and flight.
\<close>

theorem worker_stops:
  assumes "contracts env s" and "srv_ok s" and "idle s w"
    and "\<forall>h. n \<le> length h \<longrightarrow> e_stop env h"
  shows "\<exists>w' fl. fa_worker_loop env s w = Some (Exited w') \<and> freelist w' fl \<and>
    mset fl + inflight (w_log w') = mset_set (dom (w_heap w'))"
proof -
  from loop_entry [OF contracts_malloc [OF assms(1)] assms(3)] obtain w1 where
    w1: "fa_warm env s FA_FREELIST_WARM w = Some w1" "worker_inv env s [] (fa_arm_accept env s w1)"
    by blast
  with assms obtain w' where w': "fa_worker_loop env s w = Some (Exited w')" "worker_inv env s [] w'"
    using fa_loop.returns [of env s "fa_arm_accept env s w1" n]
    by (auto simp: fa_worker_loop_def fa_stopped_def)
  then have own: "own {#} {#} w'"
    by (simp add: worker_inv_def)
  then obtain fl where fl: "freelist w' fl"
    using own_freelist by blast
  with own_partition(1) [OF own fl] w' show ?thesis by auto
qed

theorem worker_stops_witness:
  "\<exists>w'. fa_worker_loop (ref_env (\<lambda>h. []) (\<lambda>h. 500 \<le> length h) echo_back) demo_srv
     (demo_worker False) = Some (Exited w')"
  using worker_stops [OF echo_contracts demo_srv_ok demo_idle, of 500 "\<lambda>h. []" "\<lambda>h. 500 \<le> length h" False]
  by (auto simp: ref_env_def)

end
