(* ===== verification/Reply_Props.thy ===== *)
theory Reply_Props
  imports Worker_Props
begin

text \<open>
  What one completion does, exactly: admitting a connection, serving a request, declining one,
  arming the accept again; and what the clients receive: the right reply from a lone request or
  a constant handler, and the wrong one when two requests share a batch.
\<close>

subsection \<open>What the clients receive\<close>

text \<open>
  C8. The reply scratch is shared by all requests of a batch, but queued sends read it only at
  the next submission. When two requests complete in one batch, the queue has room for their
  entries, and the second reply is at least as long as the first, the client of the first one is
  sent the bytes of the second reply: its own reply was overwritten before it was sent. (The
  comment on \<open>fa_submit_reply_and_close\<close> says the scratch is stable until the entries are
  submitted.)
\<close>

theorem reply_scratch_overwritten:
  assumes "room_for env 5 (w_log w)" and "\<forall>h. e_handler env h = f"
    and "cqe_user_data qa = UConn a" "cqe_user_data qb = UConn b" "a \<noteq> b"
    and "0 < cqe_res qa" "0 < cqe_res qb"
    and "w_heap w a = Some ca" "fc_state ca = FA_ST_RECV"
    and "nat SIZEOF_FA_CONN + nat (cqe_res qa) \<le> fc_room ca"
    and "w_heap w b = Some cb" "fc_state cb = FA_ST_RECV"
    and "nat SIZEOF_FA_CONN + nat (cqe_res qb) \<le> fc_room cb"
    and cap: "cap = cfg_reply_cap (srv_cfg s)" "cap \<le> INT_MAX" "length (w_reply w) = nat cap"
    and "f (take (nat (cqe_res qa)) (fc_buf ca)) cap = (ra, int (length ra))"
    and "f (take (nat (cqe_res qb)) (fc_buf cb)) cap = (rb, int (length rb))"
    and len: "0 < length ra" "length ra \<le> length rb" "int (length rb) \<le> cap"
    and "unsent (w_log w) = []"
  shows "\<exists>w'. for_each (fa_handle_cqe env s) [qa, qb] w = Some w' \<and>
     transmitted (C_wait (w_reply w') n # w_log w') =
       transmitted (w_log w) @ [(fc_fd ca, take (length ra) rb), (fc_fd cb, rb)]"
proof -
  let ?w1 = "served a ca (take (nat (cqe_res qa)) (fc_buf ca)) cap (int (length ra)) ra
    (min (int (length ra)) cap) w"
  let ?w2 = "served b cb (take (nat (cqe_res qb)) (fc_buf cb)) cap (int (length rb)) rb
    (min (int (length rb)) cap) ?w1"
  have 1: "fa_handle_cqe env s qa w = Some ?w1"
    by (rule fa_handle_served [OF room_for_later [of _ _ _ "[]", simplified, OF assms(1)] assms(3,8,9,6,10) cap(1)])
      (use assms in auto)
  have room: "room_for env 2 (w_log ?w1)"
    using room_for_later [OF assms(1), of "take 3 (w_log ?w1)" 2] by (simp add: served_def)
  have 2: "fa_handle_cqe env s qb ?w1 = Some ?w2"
    by (rule fa_handle_served [OF room assms(4) _ assms(12,7,13) cap(1)])
      (use assms in \<open>auto simp: length_store_bytes\<close>)
  have u: "c_unsigned (min (int (length ra)) cap) = length ra"
      "c_unsigned (min (int (length rb)) cap) = length rb"
    using len cap(2) by (simp_all add: INT_MAX_def)
  have t: "transmitted (C_wait (w_reply ?w2) n # w_log ?w2) = transmitted (w_log w) @
      [(fc_fd ca, take (length ra) (store_bytes rb (w_reply ?w1))),
       (fc_fd cb, take (length rb) (store_bytes rb (w_reply ?w1)))]"
    using assms(22) u by simp
  show ?thesis
    using 1 2 t len by (intro exI [of _ ?w2]) simp
qed

text \<open>Two clients of an echo server: the first one, on descriptor 5, gets the second's bytes.\<close>

definition two_clients :: fa_worker where
  "two_clients = (demo_worker False)\<lparr>w_heap := [
     0 \<mapsto> \<lparr>fc_next = None, fc_state = FA_ST_RECV, fc_fd = 5, fc_buf = ''alice'', fc_room = 24\<rparr>,
     1 \<mapsto> \<lparr>fc_next = None, fc_state = FA_ST_RECV, fc_fd = 6, fc_buf = ''bobby'', fc_room = 24\<rparr>]\<rparr>"

definition echo_env :: fa_env where
  "echo_env = (ref_env (\<lambda>h. []) (\<lambda>h. False) echo_back)\<lparr>e_get_sqe := \<lambda>h. True\<rparr>"

definition recv_done :: "addr \<Rightarrow> int \<Rightarrow> cqe" where
  "recv_done a n = \<lparr>cqe_user_data = UConn a, cqe_res = n, cqe_more = False, cqe_bytes = []\<rparr>"

lemma echo_env_simps [simp]:
  "e_get_sqe echo_env h" "e_handler echo_env h = echo_back" "room_for echo_env n h"
  by (simp_all add: echo_env_def ref_env_def room_for_def)

theorem reply_scratch_overwritten_witness:
  "\<exists>w'. for_each (fa_handle_cqe echo_env demo_srv) [recv_done 0 5, recv_done 1 5] two_clients = Some w' \<and>
     transmitted (C_wait (w_reply w') 1 # w_log w') = [(5, ''bobby''), (6, ''bobby'')]"
  using reply_scratch_overwritten [of echo_env two_clients echo_back "recv_done 0 5" 0 "recv_done 1 5" 1
      "the (w_heap two_clients 0)" "the (w_heap two_clients 1)" 8 demo_srv
      "''alice''" "''bobby''" 1]
  by (simp add: two_clients_def demo_worker_def recv_done_def demo_srv_def demo_cfg_def
      SIZEOF_FA_CONN_def INT_MAX_def echo_back_def)

lemma heads_uniform:
  assumes "const_server env s R" and "idle s w" and "transmitted (w_log w) = []" and "fa_heads env s w v"
  shows "uniform R v"
proof -
  have c: "contracts env s" and s: "srv_ok s"
    using assms(1) by (auto simp: const_server_def)
  from loop_entry [OF contracts_malloc [OF c] assms(2)] obtain w1 where
    w1: "fa_warm env s FA_FREELIST_WARM w = Some w1" "worker_inv env s [] (fa_arm_accept env s w1)"
    by blast
  have "uniform R w"
    using assms(2,3) by (simp add: uniform_def idle_def)
  then have "uniform R (fa_arm_accept env s w1)"
    using uniform_warm [OF w1(1)] uniform_arm by blast
  with w1 assms(1,4) show ?thesis
    using uniform_at_heads [of env s "fa_arm_accept env s w1" v R] by (auto simp: fa_heads_def)
qed

text \<open>
  C9. With a handler that always gives the same reply (the workload of the example and of the
  benchmark), every payload that ever leaves a worker is exactly that reply: never truncated,
  never mixed up, in any number of batches.
\<close>

theorem constant_reply_delivered:
  assumes "const_server env s R" and "idle s w" and "transmitted (w_log w) = []"
    and "fa_heads env s w v" and "p \<in> set (transmitted (w_log v))"
  shows "snd p = R"
  using heads_uniform [OF assms(1-4)] assms(5) by (simp add: uniform_def)

theorem constant_reply_delivered_witness:
  "\<exists>v. fa_heads demo_env demo_srv (demo_worker False) v \<and>
     (5, ''OK'') \<in> set (transmitted (w_log v)) \<and> snd (5 :: int, ''OK'') = ''OK''"
proof -
  obtain v where v: "fa_heads demo_env demo_srv (demo_worker False) v"
      "transmitted (w_log v) = [(5, ''OK'')]"
    by (rule demo_served)
  then have "(5, ''OK'') \<in> set (transmitted (w_log v))"
    by simp
  with v(1) constant_reply_delivered [OF demo_const demo_idle _ v(1) this] show ?thesis
    by (auto simp: demo_worker_def)
qed

subsection \<open>What one completion does\<close>

text \<open>
  C10. A received request is answered: the handler sees exactly the received bytes and the
  configured capacity; then a send of its reply, cut to the capacity, and a close of the same
  descriptor are queued, in this order and with nothing but submissions of a full queue in between.
  The one exception is a queue that is still full right after a submission: then the connection is
  given up, before or after the send was queued, with a synchronous close of a regular descriptor
  and none of a direct one. In every case the connection goes to the front of the freelist and the
  scratch holds the reply.
\<close>

theorem request_served:
  assumes "cqe_user_data q = UConn c" and "w_heap w c = Some obj"
    and "fc_state obj = FA_ST_RECV" and "0 < cqe_res q"
    and "nat SIZEOF_FA_CONN + nat (cqe_res q) \<le> fc_room obj"
    and "e_handler env (w_log w) (take (nat (cqe_res q)) (fc_buf obj)) (cfg_reply_cap (srv_cfg s)) = (bs, r)"
    and "length bs \<le> length (w_reply w)" and "0 < r"
  defines "close \<equiv> C_prep (close_sqe w (fc_fd obj))"
    and "send \<equiv> C_prep (send_sqe w (fc_fd obj) (min r (cfg_reply_cap (srv_cfg s))))"
    and "handler \<equiv> C_handler (take (nat (cqe_res q)) (fc_buf obj)) (cfg_reply_cap (srv_cfg s)) r"
  shows "\<exists>w' cs. fa_handle_cqe env s q w = Some w' \<and> w_log w' = cs @ w_log w \<and>
     (calls_made cs = [close, send, handler] \<or>
      queue_full env (w_log w) (w_log w') \<and>
        (calls_made cs = given_up w obj @ [send, handler] \<or> calls_made cs = given_up w obj @ [handler])) \<and>
     w_free_head w' = Some c \<and> w_heap w' = (w_heap w)(c \<mapsto> obj\<lparr>fc_next := w_free_head w\<rparr>) \<and>
     take (length bs) (w_reply w') = bs"
proof -
  let ?cap = "cfg_reply_cap (srv_cfg s)"
  let ?w = "w\<lparr>w_reply := store_bytes bs (w_reply w), w_log := handler # w_log w\<rparr>"
  have "fa_handle_cqe env s q w = fa_submit_reply_and_close env c (min r ?cap) ?w"
    using assms(1-8) by (auto simp: fa_handle_cqe_def fa_on_recv_def call_handler_def handler_def call_def min_def Let_def)
  moreover obtain cs where cs: "fa_submit_reply_and_close env c (min r ?cap) ?w = Some (put_back c obj cs ?w)"
    "calls_made cs = [close, send] \<or> (calls_made cs = given_up w obj @ [send] \<or> calls_made cs = given_up w obj) \<and>
      queue_full env (handler # w_log w) (cs @ handler # w_log w)"
    using reply_and_close_calls [of ?w c obj env "min r ?cap"] assms(2)
    by (auto simp: close_def send_def close_sqe_def send_sqe_def given_up_def)
  moreover have "queue_full env (w_log w) (cs @ handler # w_log w)"
    if "queue_full env (handler # w_log w) (cs @ handler # w_log w)"
    using that by (rule queue_full_mono) (simp_all add: suffix_ConsI)
  moreover have "calls_made (cs @ [handler]) = calls_made cs @ [handler]"
    by (simp add: handler_def)
  ultimately show ?thesis
    using assms(7)
    by (intro exI [of _ "put_back c obj cs ?w"] exI [of _ "cs @ [handler]"])
      (auto simp: put_back_def)
qed

theorem request_served_witness:
  "\<exists>w' cs. fa_handle_cqe echo_env demo_srv (recv_done 0 5) two_clients = Some w' \<and> w_log w' = cs \<and>
     calls_made cs = [C_prep (close_sqe two_clients 5), C_prep (send_sqe two_clients 5 5), C_handler ''alice'' 8 5] \<and>
     take (length ''alice'') (w_reply w') = ''alice''"
  using request_served [of "recv_done 0 5" 0 two_clients "the (w_heap two_clients 0)" echo_env
      demo_srv "''alice''" 5]
  by (auto simp: two_clients_def demo_worker_def recv_done_def demo_srv_def demo_cfg_def
      SIZEOF_FA_CONN_def echo_back_def queue_full_def)

text \<open>
  C11. A connection that ended or failed before a request came, and one the handler declines
  (a result of 0 or below), is closed without a reply: no send is queued, the connection goes back
  to the freelist, and exactly one close of its descriptor is queued. If the queue is still
  full right after a submission, a regular descriptor is closed synchronously instead, but the
  slot of a direct descriptor is not released at all. The handler is not called for a connection
  that sent nothing.
\<close>

theorem request_declined:
  assumes "cqe_user_data q = UConn c" and "w_heap w c = Some obj"
    and "fc_state obj = FA_ST_RECV" and "nat SIZEOF_FA_CONN + nat (cqe_res q) \<le> fc_room obj"
    and "e_handler env (w_log w) (take (nat (cqe_res q)) (fc_buf obj)) (cfg_reply_cap (srv_cfg s)) = (bs, r)"
    and "length bs \<le> length (w_reply w)" and "cqe_res q \<le> 0 \<or> r \<le> 0"
  defines "asked \<equiv> if cqe_res q \<le> 0 then []
    else [C_handler (take (nat (cqe_res q)) (fc_buf obj)) (cfg_reply_cap (srv_cfg s)) r]"
  shows "\<exists>w' cs. fa_handle_cqe env s q w = Some w' \<and> w_log w' = cs @ w_log w \<and> w_free_head w' = Some c \<and>
     (calls_made cs = C_prep (close_sqe w (fc_fd obj)) # asked \<or>
      queue_full env (w_log w) (w_log w') \<and>
        calls_made cs = (if w_direct w then [] else [C_close (fc_fd obj)]) @ asked)"
proof -
  let ?w = "w\<lparr>w_reply := if cqe_res q \<le> 0 then w_reply w else store_bytes bs (w_reply w), w_log := asked @ w_log w\<rparr>"
  have "fa_handle_cqe env s q w = fa_submit_close env c ?w"
    using assms(1-7) by (auto simp: fa_handle_cqe_def fa_on_recv_def call_handler_def asked_def call_def Let_def)
  moreover obtain cs where cs: "fa_submit_close env c ?w = Some (put_back c obj cs ?w)"
    "calls_made cs = [C_prep (close_sqe w (fc_fd obj))] \<or>
      calls_made cs = given_up w obj \<and> queue_full env (asked @ w_log w) (cs @ asked @ w_log w)"
    using submit_close_calls [of ?w c obj env] assms(2) by (auto simp: close_sqe_def given_up_def)
  moreover have "queue_full env (w_log w) (cs @ asked @ w_log w)"
    if "queue_full env (asked @ w_log w) (cs @ asked @ w_log w)"
    using that by (rule queue_full_mono) (simp_all add: suffix_def)
  moreover have "calls_made asked = asked"
    by (simp add: asked_def)
  ultimately show ?thesis
    by (intro exI [of _ "put_back c obj cs ?w"] exI [of _ "cs @ asked"]) (auto simp: put_back_def given_up_def)
qed

theorem request_declined_witness:
  "\<exists>w' cs. fa_handle_cqe echo_env demo_srv (recv_done 0 0) two_clients = Some w' \<and> w_log w' = cs \<and>
     calls_made cs = [C_prep (close_sqe two_clients 5)] \<and> w_free_head w' = Some 0"
  using request_declined [of "recv_done 0 0" 0 two_clients "the (w_heap two_clients 0)" echo_env
      demo_srv "[]" 0]
  by (auto simp: two_clients_def demo_worker_def recv_done_def demo_srv_def demo_cfg_def
      SIZEOF_FA_CONN_def echo_back_def queue_full_def)

text \<open>
  An accepted connection is admitted: it takes the connection at the front of the freelist,
  stores the accepted descriptor in it and queues exactly one receive on that descriptor, into
  that connection's buffer, of the configured length. Nothing else is queued, and a standing
  multishot request is left alone.
\<close>

lemma connection_admitted:
  assumes "room_for env n (w_log w)" and "cqe_user_data q = UMarker" and "w_marker w = FA_ST_ACCEPT"
    and "cqe_more q" and "0 \<le> cqe_res q" and "w_free_head w = Some c" and "w_heap w c = Some obj"
  shows "\<exists>w'. fa_handle_cqe env s q w = Some w' \<and>
     w_log w' = C_prep ((prep_recv (cqe_res q) c (c_size_t (cfg_recv_buf (srv_cfg s))))
       \<lparr>sqe_flags := (if w_direct w then {IOSQE_FIXED_FILE} else {}), sqe_user_data := UConn c\<rparr>) # w_log w \<and>
     w_free_head w' = fc_next obj \<and>
     w_heap w' = (w_heap w)(c \<mapsto> obj\<lparr>fc_fd := cqe_res q, fc_state := FA_ST_RECV\<rparr>)"
  using assms
  by (simp add: fa_handle_cqe_def fa_on_accept_def fa_conn_alloc_def fa_submit_recv_def
      acquire_sqe_room Let_def)

text \<open>A standing accept hands over descriptor \<open>fd\<close>.\<close>

definition accept_done :: "int \<Rightarrow> bool \<Rightarrow> cqe" where
  "accept_done fd m = \<lparr>cqe_user_data = UMarker, cqe_res = fd, cqe_more = m, cqe_bytes = []\<rparr>"

definition spare_conn :: fa_worker where
  "spare_conn = (demo_worker True)\<lparr>w_free_head := Some 0, w_heap := [
     0 \<mapsto> \<lparr>fc_next = None, fc_state = FA_ST_RECV, fc_fd = 5, fc_buf = [], fc_room = 24\<rparr>]\<rparr>"

lemma connection_admitted_demo:
  "\<exists>w'. fa_handle_cqe echo_env demo_srv (accept_done 7 True) spare_conn = Some w' \<and>
     w_log w' = [C_prep ((prep_recv 7 0 (c_size_t (cfg_recv_buf (srv_cfg demo_srv))))
       \<lparr>sqe_flags := {IOSQE_FIXED_FILE}, sqe_user_data := UConn 0\<rparr>)] \<and> w_free_head w' = None"
  using connection_admitted [of echo_env 0 spare_conn "accept_done 7 True" 0
      "the (w_heap spare_conn 0)" demo_srv]
  by (auto simp: accept_done_def spare_conn_def demo_worker_def)

text \<open>
  C13. The kernel is never asked to write beyond a connection: for every receive in flight, the
  length it was prepared with fits behind the header of the object it points into, even for
  receive buffers so large that the \<open>int\<close> size of a connection overflows.
\<close>

theorem receive_fits_object:
  assumes "contracts env s" and "srv_ok s" and "idle s w" and "fa_heads env s w v"
    and "a \<in># inflight (w_log v)"
  shows "\<exists>c. w_heap v a = Some c \<and> nat SIZEOF_FA_CONN + recv_len (w_log v) a \<le> fc_room c"
proof -
  have inv: "worker_inv env s [] v"
    by (rule heads_inv [OF assms(1-4)])
  then obtain c where c: "w_heap v a = Some c"
    using own_busy [of "{#}" "{#}" v a] assms(5) by (auto simp: worker_inv_def)
  with inv have "fc_room c = c_size_t (srv_conn_size s)"
    by (auto simp: worker_inv_def tidy_def roomy_def)
  moreover have "recv_len (w_log v) a \<le> c_size_t (cfg_recv_buf (srv_cfg s))"
    using inv by (auto simp: worker_inv_def tidy_def shaped_def intro: recv_len_bound)
  ultimately show ?thesis
    using c conn_size_enough [OF assms(2)] by auto
qed

theorem receive_fits_object_witness:
  "\<exists>v c. fa_heads demo_env demo_srv (demo_worker False) v \<and> w_heap v 0 = Some c \<and>
     nat SIZEOF_FA_CONN + recv_len (w_log v) 0 \<le> fc_room c"
proof -
  obtain v where v: "fa_heads demo_env demo_srv (demo_worker False) v" "inflight (w_log v) = {#0#}"
    by (rule demo_waiting)
  with receive_fits_object [OF demo_contracts demo_srv_ok demo_idle v(1), of 0] show ?thesis
    by auto
qed

text \<open>
  There is no fallback from multishot to single-shot accept: when the kernel rejects or ends
  a multishot accept, whatever the error, the worker queues the same multishot request again.
  (The header and the documentation promise a fallback to single-shot accept on kernels without
  multishot accept.)
\<close>

lemma multishot_never_falls_back:
  assumes "room_for env n (w_log w)" and "cqe_user_data q = UMarker" and "w_marker w = FA_ST_ACCEPT"
    and "\<not> cqe_more q" and "cqe_res q < 0" and "cfg_multishot (srv_cfg s) \<noteq> 0"
  shows "\<exists>w'. fa_handle_cqe env s q w = Some w' \<and>
     w_log w' = C_prep ((prep_accept True (w_direct w) (w_listen_fd w))\<lparr>sqe_user_data := UMarker\<rparr>) # w_log w"
  using assms
  by (simp add: fa_handle_cqe_def fa_on_accept_def fa_arm_accept_def acquire_sqe_room Let_def)

lemma multishot_never_falls_back_demo:
  "\<exists>w'. fa_handle_cqe echo_env (demo_srv\<lparr>srv_cfg := demo_cfg\<lparr>cfg_multishot := 1\<rparr>\<rparr>)
       (accept_done (- 22) False) spare_conn = Some w' \<and>
     w_log w' = [C_prep ((prep_accept True True 3)\<lparr>sqe_user_data := UMarker\<rparr>)]"
  using multishot_never_falls_back [of echo_env 0 spare_conn "accept_done (- 22) False"
      "demo_srv\<lparr>srv_cfg := demo_cfg\<lparr>cfg_multishot := 1\<rparr>\<rparr>"]
  by (auto simp: accept_done_def spare_conn_def demo_worker_def)

subsection \<open>The freelist\<close>

text \<open>
  The freelist is a stack: a connection put back is the next one handed out, without a call
  of the allocator, and the other connections stay where they are.
\<close>

lemma freelist_lifo:
  assumes "malloc_fresh env" and "own T (add_mset a H) w"
  shows "\<exists>w1 w2. fa_conn_free a w = Some w1 \<and> fa_conn_alloc env s w1 = Some (Some a, w2) \<and>
    own T (add_mset a H) w2"
  using fa.release_then_alloc [of env T a H w s] assms by blast

end
