(* ===== verification/Lifecycle.thy ===== *)
theory Lifecycle
  imports Worker_Inv
begin

text \<open>
  An abstract specification of what a server thread may do with the connections it is given, and
  the proof that the worker refines it. The specification knows no objects, no freelist and no
  ring, only descriptors in four phases: accepted, waiting for the request, request received,
  answered. It says: a receive is posted on an accepted descriptor, once; an answer is sent only
  after the request came, at most once; a descriptor is closed at the end, never while a receive
  on it is outstanding, and not used afterwards.
\<close>

subsection \<open>The specification\<close>

datatype phase = Fresh | Waiting | Ready | Answered

type_synonym phases = "phase \<Rightarrow> int multiset"

abbreviation nothing_open :: phases where
  "nothing_open \<equiv> \<lambda>_. {#}"

definition put :: "phase \<Rightarrow> int \<Rightarrow> phases \<Rightarrow> phases" where
  "put k fd p = p(k := add_mset fd (p k))"

definition drop_from :: "phase \<Rightarrow> int \<Rightarrow> phases \<Rightarrow> phases" where
  "drop_from k fd p = p(k := p k - {#fd#})"

datatype act = Arrive "int multiset" "int multiset" | Ask int | Answer int | Finish int | Silent

inductive spec_step :: "phases \<Rightarrow> act \<Rightarrow> phases \<Rightarrow> bool" where
  arrive: "D \<subseteq># p Waiting \<Longrightarrow> spec_step p (Arrive A D)
    (p(Fresh := A + p Fresh, Waiting := p Waiting - D, Ready := D + p Ready))"
| ask: "fd \<in># p Fresh \<Longrightarrow> spec_step p (Ask fd) (put Waiting fd (drop_from Fresh fd p))"
| answer: "fd \<in># p Ready \<Longrightarrow> spec_step p (Answer fd) (put Answered fd (drop_from Ready fd p))"
| finish: "fd \<in># p k \<Longrightarrow> k \<noteq> Waiting \<Longrightarrow> spec_step p (Finish fd) (drop_from k fd p)"
| silent: "spec_step p Silent p"

inductive_cases ArriveE: "spec_step p (Arrive A D) p'"
inductive_cases AskE: "spec_step p (Ask fd) p'"
inductive_cases AnswerE: "spec_step p (Answer fd) p'"
inductive_cases FinishE: "spec_step p (Finish fd) p'"
inductive_cases SilentE: "spec_step p Silent p'"

lemmas spec_stepEs = ArriveE AskE AnswerE FinishE SilentE

subsection \<open>What a history looks like to the specification\<close>

text \<open>The descriptor the latest receive for a connection was prepared with.\<close>

fun recv_fd :: "history \<Rightarrow> addr \<Rightarrow> int" where
  "recv_fd [] a = 0"
| "recv_fd (C_prep q # h) a = (if a \<in># recv_target q then sqe_fd q else recv_fd h a)"
| "recv_fd (_ # h) a = recv_fd h a"

definition act_of :: "history \<Rightarrow> call \<Rightarrow> act" where
  "act_of h c = (case c of
     C_peek qs \<Rightarrow> Arrive (mset (accepts_of qs)) (image_mset (recv_fd h) (mset (conns_of qs)))
   | C_prep q \<Rightarrow> (case sqe_op q of OP_RECV \<Rightarrow> Ask (sqe_fd q) | OP_SEND \<Rightarrow> Answer (sqe_fd q)
                   | OP_CLOSE _ \<Rightarrow> Finish (sqe_fd q) | OP_ACCEPT _ _ \<Rightarrow> Silent)
   | C_close fd \<Rightarrow> Finish fd
   | _ \<Rightarrow> Silent)"

inductive lifecycle :: "history \<Rightarrow> phases \<Rightarrow> bool" where
  start: "lifecycle [] nothing_open"
| act: "lifecycle h p \<Longrightarrow> spec_step p (act_of h c) p' \<Longrightarrow> lifecycle (c # h) p'"

lemma lifecycle_silent: "lifecycle h p \<Longrightarrow> act_of h c = Silent \<Longrightarrow> lifecycle (c # h) p"
  by (rule lifecycle.act [of h p c]) (simp_all add: spec_step.silent)

subsection \<open>What the specification promises\<close>

text \<open>The descriptors answers were queued for.\<close>

definition answers :: "history \<Rightarrow> int multiset" where
  "answers h = image_mset sqe_fd (filter_mset (\<lambda>q. sqe_op q = OP_SEND) (mset (prepared h)))"

lemma answers_simps [simp]:
  "answers [] = {#}"
  "answers (C_prep q # h) = (if sqe_op q = OP_SEND then add_mset (sqe_fd q) (answers h) else answers h)"
  "(\<And>q. c \<noteq> C_prep q) \<Longrightarrow> answers (c # h) = answers h"
  by (simp_all add: answers_def)

text \<open>The descriptors that may still be answered.\<close>

definition unanswered :: "phases \<Rightarrow> int multiset" where
  "unanswered p = p Fresh + p Waiting + p Ready"

lemma unanswered_step:
  assumes "spec_step p a p'"
  shows "case a of Arrive A D \<Rightarrow> unanswered p' = A + unanswered p
    | Answer fd \<Rightarrow> unanswered p = add_mset fd (unanswered p')
    | _ \<Rightarrow> unanswered p' \<subseteq># unanswered p"
  using assms
proof cases
  case (arrive D A)
  then show ?thesis
    by (auto simp: unanswered_def dest!: subset_mset.le_iff_add [THEN iffD1])
next
  case (finish fd k)
  then have "p' l \<subseteq># p l" for l
    by (simp add: drop_from_def)
  with finish show ?thesis
    by (simp add: unanswered_def subset_mset.add_mono)
qed (auto simp: unanswered_def put_def drop_from_def dest!: multi_member_split)

text \<open>At most one answer per accepted descriptor, and none before its request has come.\<close>

lemma lifecycle_answers:
  assumes "lifecycle h p"
  shows "answers h + unanswered p \<subseteq># accepted h"
  using assms
proof (induction rule: lifecycle.induct)
  case start
  then show ?case by (simp add: unanswered_def)
next
  case (act h p c p')
  have less: "answers h + unanswered p' \<subseteq># accepted h" if "unanswered p' \<subseteq># unanswered p"
    using that act.IH by (meson subset_mset.add_left_mono subset_mset.order_trans)
  note step = unanswered_step [OF act.hyps(2)]
  show ?case
  proof (cases c)
    case (C_prep q)
    with step less act.IH show ?thesis
      by (cases "sqe_op q") (auto simp: act_of_def)
  next
    case (C_peek qs)
    with step act.IH show ?thesis
      by (auto simp: act_of_def ac_simps)
  qed (use step less in \<open>auto simp: act_of_def\<close>)
qed

lemma lifecycle_waiting:
  assumes "lifecycle h p"
  shows "answers h + p Waiting \<subseteq># accepted h"
proof -
  have "answers h + p Waiting \<subseteq># answers h + unanswered p"
    by (simp add: unanswered_def)
  with lifecycle_answers [OF assms] show ?thesis
    by (metis subset_mset.order_trans)
qed

subsection \<open>The simulation relation\<close>

text \<open>
  \<open>sim P N w\<close>: the history of \<open>w\<close> is a run of the specification in which the connections in
  flight are those waiting, and at least \<open>N\<close> are in the other phases; exactly these, if nothing
  may be lost (\<open>P\<close>).
\<close>

definition sim :: "bool \<Rightarrow> phases \<Rightarrow> fa_worker \<Rightarrow> bool" where
  "sim P N w \<longleftrightarrow> (\<exists>p. lifecycle (w_log w) p \<and>
     p Waiting = image_mset (recv_fd (w_log w)) (inflight (w_log w)) \<and>
     (\<forall>k. k \<noteq> Waiting \<longrightarrow> N k \<subseteq># p k \<and> (P \<longrightarrow> p k = N k)))"

lemma sim_log: "w_log w' = w_log w \<Longrightarrow> sim P N w' = sim P N w"
  by (simp add: sim_def)

lemma sim_fields [simp]:
  "sim P N (w\<lparr>w_heap := hp\<rparr>) = sim P N w"
  "sim P N (w\<lparr>w_free_head := fh\<rparr>) = sim P N w"
  "sim P N (w\<lparr>w_marker := m\<rparr>) = sim P N w"
  "sim P N (w\<lparr>w_reply := r\<rparr>) = sim P N w"
  by (simp_all add: sim_def)

text \<open>One lemma per kind of act; \<open>moved\<close> is their common shape.\<close>

lemma sim_step:
  assumes "sim P N w"
    and "\<And>p. p Waiting = image_mset (recv_fd (w_log w)) (inflight (w_log w)) \<Longrightarrow>
      \<forall>k. k \<noteq> Waiting \<longrightarrow> N k \<subseteq># p k \<and> (P \<longrightarrow> p k = N k) \<Longrightarrow>
      \<exists>p'. spec_step p (act_of (w_log w) c) p' \<and>
         p' Waiting = image_mset (recv_fd (c # w_log w)) (inflight (c # w_log w)) \<and>
         (\<forall>k. k \<noteq> Waiting \<longrightarrow> N' k \<subseteq># p' k \<and> (P \<longrightarrow> p' k = N' k))"
  shows "sim P N' (call c w)"
proof -
  from assms(1) obtain p where p: "lifecycle (w_log w) p"
      "p Waiting = image_mset (recv_fd (w_log w)) (inflight (w_log w))"
      "\<forall>k. k \<noteq> Waiting \<longrightarrow> N k \<subseteq># p k \<and> (P \<longrightarrow> p k = N k)"
    unfolding sim_def by blast
  from assms(2) [OF p(2,3)] p(1) show ?thesis
    unfolding sim_def by (auto intro: lifecycle.act)
qed

lemma sim_silent:
  assumes "sim P N w" and "act_of (w_log w) c = Silent"
    and "inflight (c # w_log w) = inflight (w_log w)" and "recv_fd (c # w_log w) = recv_fd (w_log w)"
  shows "sim P N (call c w)"
  by (rule sim_step [OF assms(1)]) (use assms(2-4) spec_step.silent in auto)

lemma sim_ask:
  assumes "sim P (put Fresh fd N) w" and "sqe_op q = OP_RECV" and "sqe_fd q = fd"
    and "recv_target q = {#c#}" and "c \<notin># inflight (w_log w)"
  shows "sim P N (call (C_prep q) w)"
proof (rule sim_step [OF assms(1)])
  fix p assume p: "p Waiting = image_mset (recv_fd (w_log w)) (inflight (w_log w))"
    "\<forall>k. k \<noteq> Waiting \<longrightarrow> put Fresh fd N k \<subseteq># p k \<and> (P \<longrightarrow> p k = put Fresh fd N k)"
  have fresh: "add_mset fd (N Fresh) \<subseteq># p Fresh"
    using p(2) by (auto simp: put_def dest: spec [of _ Fresh])
  have "image_mset (recv_fd (C_prep q # w_log w)) (inflight (w_log w)) = p Waiting"
    unfolding p(1) using assms(4,5) by (intro image_mset_cong) auto
  moreover have "spec_step p (act_of (w_log w) (C_prep q)) (put Waiting fd (drop_from Fresh fd p))"
    using assms(2,3) fresh by (auto simp: act_of_def insert_subset_eq_iff intro: spec_step.ask)
  ultimately show "\<exists>p'. spec_step p (act_of (w_log w) (C_prep q)) p' \<and>
      p' Waiting = image_mset (recv_fd (C_prep q # w_log w)) (inflight (C_prep q # w_log w)) \<and>
      (\<forall>k. k \<noteq> Waiting \<longrightarrow> N k \<subseteq># p' k \<and> (P \<longrightarrow> p' k = N k))"
    using p(2) assms(3,4) fresh
    by (intro exI [of _ "put Waiting fd (drop_from Fresh fd p)"])
      (auto simp: put_def drop_from_def insert_subset_eq_iff)
qed

lemma sim_answer:
  assumes "sim P (put Ready fd N) w" and "sqe_op q = OP_SEND" and "sqe_fd q = fd"
  shows "sim P (put Answered fd N) (call (C_prep q) w)"
proof (rule sim_step [OF assms(1)])
  fix p assume p: "p Waiting = image_mset (recv_fd (w_log w)) (inflight (w_log w))"
    "\<forall>k. k \<noteq> Waiting \<longrightarrow> put Ready fd N k \<subseteq># p k \<and> (P \<longrightarrow> p k = put Ready fd N k)"
  have ready: "add_mset fd (N Ready) \<subseteq># p Ready"
    using p(2) by (auto simp: put_def dest: spec [of _ Ready])
  have q: "recv_target q = {#}"
    using assms(2) by (simp add: recv_target_def)
  then have "recv_fd (C_prep q # w_log w) = recv_fd (w_log w)"
    by (intro ext) simp
  moreover have "spec_step p (act_of (w_log w) (C_prep q)) (put Answered fd (drop_from Ready fd p))"
    using assms(2,3) ready by (auto simp: act_of_def insert_subset_eq_iff intro: spec_step.answer)
  ultimately show "\<exists>p'. spec_step p (act_of (w_log w) (C_prep q)) p' \<and>
      p' Waiting = image_mset (recv_fd (C_prep q # w_log w)) (inflight (C_prep q # w_log w)) \<and>
      (\<forall>k. k \<noteq> Waiting \<longrightarrow> put Answered fd N k \<subseteq># p' k \<and> (P \<longrightarrow> p' k = put Answered fd N k))"
    using p q ready
    by (intro exI [of _ "put Answered fd (drop_from Ready fd p)"])
      (auto simp: put_def drop_from_def insert_subset_eq_iff)
qed

lemma sim_finish:
  assumes "sim P (put k fd N) w" and "k \<noteq> Waiting" and "act_of (w_log w) c = Finish fd"
    and "inflight (c # w_log w) = inflight (w_log w)" and "recv_fd (c # w_log w) = recv_fd (w_log w)"
  shows "sim P N (call c w)"
proof (rule sim_step [OF assms(1)])
  fix p assume p: "p Waiting = image_mset (recv_fd (w_log w)) (inflight (w_log w))"
    "\<forall>l. l \<noteq> Waiting \<longrightarrow> put k fd N l \<subseteq># p l \<and> (P \<longrightarrow> p l = put k fd N l)"
  have sub: "add_mset fd (N k) \<subseteq># p k"
    using p(2) assms(2) by (auto simp: put_def dest: spec [of _ k])
  have "spec_step p (act_of (w_log w) c) (drop_from k fd p)"
    using assms(2,3) sub by (auto simp: insert_subset_eq_iff intro: spec_step.finish)
  then show "\<exists>p'. spec_step p (act_of (w_log w) c) p' \<and>
      p' Waiting = image_mset (recv_fd (c # w_log w)) (inflight (c # w_log w)) \<and>
      (\<forall>l. l \<noteq> Waiting \<longrightarrow> N l \<subseteq># p' l \<and> (P \<longrightarrow> p' l = N l))"
    using p assms(2,4,5) sub
    by (intro exI [of _ "drop_from k fd p"]) (auto simp: put_def drop_from_def insert_subset_eq_iff)
qed

lemma sim_lose:
  assumes "sim P (put k fd N) w" and "\<not> P"
  shows "sim P N w"
proof -
  have "N l \<subseteq># put k fd N l" for l
    by (simp add: put_def)
  with assms show ?thesis
    unfolding sim_def by (meson subset_mset.order_trans)
qed

end
