(* ===== verification/Refinement.thy ===== *)
theory Refinement
  imports Lifecycle
begin

text \<open>
  The worker refines the specification of \<open>Lifecycle\<close>: every helper, every branch of the drain
  loop, a batch and the loop keep the simulation relation \<open>sim\<close>. A descriptor reaches a helper
  through the object that holds it, so besides \<open>sim\<close> the relation \<open>agree\<close> is carried along: an
  object with an outstanding or just completed receive still holds the descriptor the receive
  was posted on.
\<close>

subsection \<open>Objects and outstanding receives\<close>

definition agree :: "addr multiset \<Rightarrow> fa_worker \<Rightarrow> bool" where
  "agree T w \<longleftrightarrow> (\<forall>a. a \<in># inflight (w_log w) + T \<longrightarrow> recv_fd (w_log w) a = conn_fd w a)"

text \<open>Helpers that post no receive leave all of it alone.\<close>

definition steady :: "fa_worker \<Rightarrow> fa_worker \<Rightarrow> bool" where
  "steady w w' \<longleftrightarrow> inflight (w_log w') = inflight (w_log w) \<and>
     recv_fd (w_log w') = recv_fd (w_log w) \<and> conn_fd w' = conn_fd w"

lemma steady_refl [simp]: "steady w w"
  by (simp add: steady_def)

lemma steady_trans: "steady w w1 \<Longrightarrow> steady w1 w2 \<Longrightarrow> steady w w2"
  by (simp add: steady_def)

lemma steady_agree: "steady w w' \<Longrightarrow> agree T w' = agree T w"
  by (simp add: steady_def agree_def)

lemma recv_fd_prep [simp]: "recv_target q = {#} \<Longrightarrow> recv_fd (C_prep q # h) = recv_fd h"
  by (rule ext) simp

lemma recv_fd_other [simp]: "(\<And>q. c \<noteq> C_prep q) \<Longrightarrow> recv_fd (c # h) = recv_fd h"
  by (rule ext, cases c) auto

lemma steady_call:
  "inflight (c # w_log w) = inflight (w_log w) \<Longrightarrow> recv_fd (c # w_log w) = recv_fd (w_log w) \<Longrightarrow>
   steady w (call c w)"
  by (simp add: steady_def)

lemma steady_acquire: "acquire_sqe env w = (ok, w') \<Longrightarrow> steady w w'"
  using acquire_sqe_cases [of env w ok w'] by (auto simp: steady_def)

lemma steady_free: "fa_conn_free c w = Some w' \<Longrightarrow> steady w w'"
  using fa_conn_free_frame by (auto simp: steady_def conn_fd_free)

lemma steady_drop: "drop_conn c obj w = Some w' \<Longrightarrow> steady w w'"
  using steady_call [of "C_close (fc_fd obj)" w]
  by (auto simp: drop_conn_def split: if_splits intro: steady_free steady_trans)

lemma sqe_targets [simp]:
  "recv_target (close_sqe w fd) = {#}" "recv_target (send_sqe w fd n) = {#}"
  by (simp_all add: close_sqe_def send_sqe_def)

lemma steady_close_and_free:
  "fa_conn_free c (call (C_prep (close_sqe v fd)) w) = Some w' \<Longrightarrow> steady w w'"
  by (rule steady_trans [OF steady_call steady_free]) auto

lemma steady_arm: "steady w (fa_arm_accept env s w)"
proof -
  obtain ok w1 where acq: "acquire_sqe env w = (ok, w1)"
    by (cases "acquire_sqe env w")
  have "steady w1 (call (C_prep q) (w1\<lparr>w_marker := m\<rparr>))" if "recv_target q = {#}" for q m
    using that by (auto simp: steady_def conn_fd_def intro: ext)
  with steady_acquire [OF acq] acq show ?thesis
    by (auto simp: fa_arm_accept_def Let_def intro: steady_trans)
qed

lemma steady_close: "fa_submit_close env c w = Some w' \<Longrightarrow> steady w w'"
proof -
  assume c: "fa_submit_close env c w = Some w'"
  obtain ok w1 where acq: "acquire_sqe env w = (ok, w1)"
    by (cases "acquire_sqe env w")
  with c steady_acquire [OF acq] show ?thesis
    by (auto simp: fa_submit_close_def split: if_splits bind_splits
        intro: steady_trans steady_drop steady_close_and_free)
qed

lemma steady_reply: "fa_submit_reply_and_close env c n w = Some w' \<Longrightarrow> steady w w'"
proof -
  assume r: "fa_submit_reply_and_close env c n w = Some w'"
  then obtain obj where obj: "w_heap w c = Some obj"
    by (auto simp: fa_submit_reply_and_close_def split: bind_splits)
  obtain ok w1 where acq: "acquire_sqe env w = (ok, w1)"
    by (cases "acquire_sqe env w")
  let ?w2 = "call (C_prep (send_sqe w1 (fc_fd obj) n)) w1"
  obtain ok' w3 where acq': "acquire_sqe env ?w2 = (ok', w3)"
    by (cases "acquire_sqe env ?w2")
  have "steady w w1" "steady w w3"
    using steady_acquire [OF acq] steady_acquire [OF acq'] steady_call [of "C_prep (send_sqe w1 (fc_fd obj) n)" w1]
    by (auto intro: steady_trans)
  with r obj acq acq' show ?thesis
    by (auto simp: fa_submit_reply_and_close_def Let_def split: if_splits
        intro: steady_trans steady_drop steady_close_and_free)
qed

lemma steady_handler: "call_handler env s obj n w = Some (r, w') \<Longrightarrow> steady w w'"
  by (auto simp: call_handler_def Let_def steady_def conn_fd_def intro: ext split: prod.splits if_splits)

lemma steady_deliver: "steady w (deliver qs w)"
  by (auto simp: steady_def deliver_def conn_fd_def intro: ext split: option.splits)

subsection \<open>The helpers\<close>

lemma sim_acquire: "acquire_sqe env w = (ok, w') \<Longrightarrow> sim P N w \<Longrightarrow> sim P N w'"
  using acquire_sqe_cases [of env w ok w'] by (auto simp: act_of_def intro!: sim_silent)

lemma sim_free: "fa_conn_free c w = Some w' \<Longrightarrow> sim P N w' = sim P N w"
  using fa_conn_free_frame by (intro sim_log) auto

lemma sim_drop:
  assumes "sim P (put k (fc_fd obj) N) w" and "k \<noteq> Waiting" and "drop_conn c obj w = Some w'"
    and "P \<Longrightarrow> \<not> w_direct w"
  shows "sim P N w'"
proof (cases "w_direct w")
  case True
  with assms(4) have "\<not> P" by blast
  with True assms(3) sim_lose [OF assms(1)] show ?thesis
    by (simp add: drop_conn_def sim_free)
next
  case False
  have "sim P N (call (C_close (fc_fd obj)) w)"
    by (rule sim_finish [OF assms(1,2)]) (auto simp: act_of_def)
  with False assms(3) show ?thesis
    by (simp add: drop_conn_def sim_free)
qed

lemma sim_close_and_free:
  assumes "sim P (put k fd N) w" and "k \<noteq> Waiting"
    and "fa_conn_free c (call (C_prep (close_sqe w fd)) w) = Some w'"
  shows "sim P N w'"
proof -
  have "sim P N (call (C_prep (close_sqe w fd)) w)"
    by (rule sim_finish [OF assms(1,2)]) (auto simp: act_of_def, auto simp: close_sqe_def prep_defs)
  with sim_free [OF assms(3)] show ?thesis by simp
qed

lemma sim_arm: "sim P N w \<Longrightarrow> sim P N (fa_arm_accept env s w)"
proof -
  assume sim: "sim P N w"
  obtain ok w1 where acq: "acquire_sqe env w = (ok, w1)"
    by (cases "acquire_sqe env w")
  have "sim P N (call (C_prep (prep_accept m d fd\<lparr>sqe_user_data := u\<rparr>)) (w1\<lparr>w_marker := k\<rparr>))" for m d fd u k
    by (rule sim_silent) (use sim_acquire [OF acq sim] in \<open>auto simp: act_of_def prep_defs\<close>, auto simp: recv_target_def)
  with sim_acquire [OF acq sim] acq show ?thesis
    by (auto simp: fa_arm_accept_def Let_def)
qed

lemma sim_recv:
  assumes "fa_submit_recv env s c w = Some w'" and "w_heap w c = Some obj"
    and "sim P (put Fresh (fc_fd obj) N) w" and "c \<notin># inflight (w_log w)"
    and "P \<Longrightarrow> \<not> w_direct w \<or> sq_drained env"
  shows "sim P N w'"
proof -
  obtain ok w1 where acq: "acquire_sqe env w = (ok, w1)"
    by (cases "acquire_sqe env w")
  have w1: "sim P (put Fresh (fc_fd obj) N) w1" "c \<notin># inflight (w_log w1)" "w_direct w1 = w_direct w"
      "w_heap w1 = w_heap w"
    using sim_acquire [OF acq assms(3)] steady_acquire [OF acq] assms(4) acquire_sqe_frame [OF acq]
    by (auto simp: steady_def same_worker_def)
  show ?thesis
  proof (cases ok)
    case False
    with assms(5) acquire_sqe_ok [OF _ acq] w1(3) have "P \<Longrightarrow> \<not> w_direct w1"
      by blast
    with False assms(1,2) acq sim_drop [OF w1(1)] show ?thesis
      by (simp add: fa_submit_recv_def)
  next
    case True
    have "sim P N (call (C_prep q) (w1\<lparr>w_heap := hp\<rparr>))"
      if "sqe_op q = OP_RECV" "sqe_fd q = fc_fd obj" "recv_target q = {#c#}" for q hp
      by (rule sim_ask [where c = c]) (use that w1 in auto)
    with True assms(1,2) acq show ?thesis
      by (auto simp: fa_submit_recv_def Let_def prep_recv_def recv_target_def)
  qed
qed

lemma sim_close:
  assumes "fa_submit_close env c w = Some w'" and "w_heap w c = Some obj"
    and "sim P (put Ready (fc_fd obj) N) w" and "P \<Longrightarrow> \<not> w_direct w \<or> sq_drained env"
  shows "sim P N w'"
proof -
  obtain ok w1 where acq: "acquire_sqe env w = (ok, w1)"
    by (cases "acquire_sqe env w")
  have w1: "sim P (put Ready (fc_fd obj) N) w1" "w_direct w1 = w_direct w"
    using sim_acquire [OF acq assms(3)] acquire_sqe_frame [OF acq] by (auto simp: same_worker_def)
  have "P \<Longrightarrow> \<not> ok \<Longrightarrow> \<not> w_direct w1"
    using assms(4) acquire_sqe_ok [OF _ acq] w1(2) by blast
  with assms(1,2) acq sim_drop [OF w1(1)] sim_close_and_free [OF w1(1)] show ?thesis
    by (auto simp: fa_submit_close_def split: if_splits)
qed

lemma sim_reply:
  assumes "fa_submit_reply_and_close env c n w = Some w'" and "w_heap w c = Some obj"
    and "sim P (put Ready (fc_fd obj) N) w" and "P \<Longrightarrow> \<not> w_direct w \<or> sq_drained env"
  shows "sim P N w'"
proof -
  obtain ok w1 where acq: "acquire_sqe env w = (ok, w1)"
    by (cases "acquire_sqe env w")
  let ?w2 = "call (C_prep (send_sqe w1 (fc_fd obj) n)) w1"
  obtain ok' w3 where acq': "acquire_sqe env ?w2 = (ok', w3)"
    by (cases "acquire_sqe env ?w2")
  have w1: "sim P (put Ready (fc_fd obj) N) w1"
    using sim_acquire [OF acq assms(3)] .
  then have "sim P (put Answered (fc_fd obj) N) ?w2"
    by (rule sim_answer) (simp_all add: send_sqe_def prep_defs)
  with acq' have w3: "sim P (put Answered (fc_fd obj) N) w3"
    by (rule sim_acquire)
  have d: "w_direct w1 = w_direct w" "w_direct w3 = w_direct w"
    using acquire_sqe_frame [OF acq] acquire_sqe_frame [OF acq'] by (auto simp: same_worker_def)
  have "P \<Longrightarrow> \<not> ok \<Longrightarrow> \<not> w_direct w1" "P \<Longrightarrow> \<not> ok' \<Longrightarrow> \<not> w_direct w3"
    using assms(4) acquire_sqe_ok [OF _ acq] acquire_sqe_ok [OF _ acq'] d by blast+
  with assms(1,2) acq acq' sim_drop [OF w1] sim_drop [OF w3] sim_close_and_free [OF w3] show ?thesis
    by (auto simp: fa_submit_reply_and_close_def Let_def split: if_splits)
qed

subsection \<open>A completion\<close>

lemma recv_agree:
  assumes "fa_submit_recv env s c w = Some w'" and "c \<notin># inflight (w_log w) + T" and "agree T w"
  shows "agree T w'" and "a \<in># T \<Longrightarrow> recv_fd (w_log w') a = recv_fd (w_log w) a"
proof -
  from assms(1) obtain obj where obj: "w_heap w c = Some obj"
    by (auto simp: fa_submit_recv_def split: bind_splits)
  obtain ok w1 where acq: "acquire_sqe env w = (ok, w1)"
    by (cases "acquire_sqe env w")
  note st = steady_acquire [OF acq]
  have w1: "agree T w1" "c \<notin># inflight (w_log w1) + T" "w_heap w1 = w_heap w"
    using assms(2,3) st acquire_sqe_frame [OF acq] by (auto simp: steady_agree, auto simp: steady_def)
  have "agree T w' \<and> (a \<in># T \<longrightarrow> recv_fd (w_log w') a = recv_fd (w_log w1) a)"
  proof (cases ok)
    case False
    with assms(1) obj acq have "steady w1 w'"
      by (auto simp: fa_submit_recv_def intro: steady_drop)
    with w1(1) show ?thesis
      by (auto simp: steady_agree) (auto simp: steady_def)
  next
    case True
    let ?w2 = "w1\<lparr>w_heap := (w_heap w1)(c \<mapsto> obj\<lparr>fc_state := FA_ST_RECV\<rparr>)\<rparr>"
    have "conn_fd ?w2 = conn_fd w1" "conn_fd w1 c = fc_fd obj"
      using obj w1(3) by (auto simp: conn_fd_def intro: ext)
    then have "agree T (call (C_prep q) ?w2) \<and> (a \<in># T \<longrightarrow> recv_fd (C_prep q # w_log w1) a = recv_fd (w_log w1) a)"
      if "recv_target q = {#c#}" "sqe_fd q = fc_fd obj" for q
      using that w1(1,2) by (auto simp: agree_def)
    with True assms(1) obj acq show ?thesis
      by (auto simp: fa_submit_recv_def Let_def prep_recv_def recv_target_def)
  qed
  with st show "agree T w'" and "a \<in># T \<Longrightarrow> recv_fd (w_log w') a = recv_fd (w_log w) a"
    by (auto simp: steady_def)
qed

lemma alloc_agree:
  assumes "malloc_fresh env" and "own T H w" and "fa_conn_alloc env s w = Some (p, w')"
  shows "agree T w' = agree T w" and "recv_fd (w_log w') = recv_fd (w_log w)"
    and "inflight (w_log w') = inflight (w_log w)" and "sim P N w \<Longrightarrow> sim P N w'"
proof -
  have log: "w_log w' = w_log w \<or> (\<exists>n r. w_log w' = C_malloc n r # w_log w)"
    using assms(3) by (auto simp: fa_conn_alloc_def conn_malloc_def Let_def split: option.splits bind_splits)
  then show rd: "recv_fd (w_log w') = recv_fd (w_log w)" and fl: "inflight (w_log w') = inflight (w_log w)"
    by auto
  have "conn_fd w' a = conn_fd w a" if "a \<in># inflight (w_log w) + T" for a
    by (rule fa_conn_alloc_conn_fd [OF assms(1,2,3) that])
  with rd fl show "agree T w' = agree T w"
    by (auto simp: agree_def)
  show "sim P N w'" if "sim P N w"
    using log
  proof (elim disjE exE)
    fix n r assume l: "w_log w' = C_malloc n r # w_log w"
    have "sim P N (call (C_malloc n r) w)"
      using that by (rule sim_silent) (auto simp: act_of_def)
    with l sim_log [of w' "call (C_malloc n r) w"] show ?thesis by simp
  qed (use that sim_log in blast)
qed

text \<open>The two ways an accepted descriptor can go: no memory, or a connection.\<close>

lemma refused_conn_sim:
  assumes "sim P (put Fresh fd N) w" and "agree T w" and "w_direct w \<Longrightarrow> \<not> P"
    and "w' = (if \<not> w_direct w then call (C_close fd) w else w)"
  shows "sim P N w'" and "agree T w'" and "recv_fd (w_log w') = recv_fd (w_log w)"
proof -
  have "sim P N (call (C_close fd) w)"
    by (rule sim_finish [OF assms(1)]) (auto simp: act_of_def)
  then show "sim P N w'"
    using assms(3,4) sim_lose [OF assms(1)] by simp
  show "agree T w'" "recv_fd (w_log w') = recv_fd (w_log w)"
    using assms(2,4) by (simp_all add: agree_def)
qed

lemma admitted_conn_sim:
  assumes "sim P (put Fresh fd N) w" and "agree T w" and "own T {#c#} w" and "w_heap w c = Some obj"
    and "P \<Longrightarrow> \<not> w_direct w \<or> sq_drained env"
    and "fa_submit_recv env s c (w\<lparr>w_heap := (w_heap w)(c \<mapsto> obj\<lparr>fc_fd := fd\<rparr>)\<rparr>) = Some w'"
  shows "sim P N w'" and "agree T w'" and "a \<in># T \<Longrightarrow> recv_fd (w_log w') a = recv_fd (w_log w) a"
proof -
  let ?w = "w\<lparr>w_heap := (w_heap w)(c \<mapsto> obj\<lparr>fc_fd := fd\<rparr>)\<rparr>"
  have c: "c \<notin># inflight (w_log w) + T"
    using assms(3) owned_apart(1) unfolding own_def by fastforce
  then have w: "agree T ?w" "c \<notin># inflight (w_log ?w) + T"
    using assms(2) by (auto simp: agree_def conn_fd_def)
  show "sim P N w'" and "agree T w'" and "a \<in># T \<Longrightarrow> recv_fd (w_log w') a = recv_fd (w_log w) a"
    using recv_agree [OF assms(6) w(2,1)] sim_recv [where w = ?w and obj = "obj\<lparr>fc_fd := fd\<rparr>"] assms(1,5,6) c
    by auto
qed

lemma on_accept_sim:
  assumes "malloc_fresh env" and "own T {#} w" and "agree T w"
    and "fa_on_accept env s q w = Some w'"
    and "sim (lossless env (w_direct w)) (if 0 \<le> cqe_res q then put Fresh (cqe_res q) N else N) w"
  shows "sim (lossless env (w_direct w)) N w'" and "agree T w'"
    and "a \<in># T \<Longrightarrow> recv_fd (w_log w') a = recv_fd (w_log w) a"
proof -
  let ?P = "lossless env (w_direct w)"
  define w1 where "w1 = (if \<not> cqe_more q then fa_arm_accept env s w else w)"
  have st: "steady w w1" and d1: "w_direct w1 = w_direct w"
    using steady_arm fa_arm_accept_frame by (auto simp: w1_def same_worker_def)
  have w1: "own T {#} w1" "agree T w1" "recv_fd (w_log w1) = recv_fd (w_log w)"
      "sim ?P (if 0 \<le> cqe_res q then put Fresh (cqe_res q) N else N) w1"
    using assms(2,3,5) st by (auto simp: w1_def fa_arm_accept_own sim_arm, auto simp: steady_agree, auto simp: steady_def)
  have "sim ?P N w' \<and> agree T w' \<and> (a \<in># T \<longrightarrow> recv_fd (w_log w') a = recv_fd (w_log w) a)"
  proof (cases "cqe_res q < 0")
    case True
    with assms(4) w1 show ?thesis
      by (auto simp: fa_on_accept_def w1_def [symmetric])
  next
    case False
    from fa_conn_alloc_own [OF assms(1) w1(1)] obtain p w2 where
      alloc: "fa_conn_alloc env s w1 = Some (p, w2)"
      and own2: "own T (case p of None \<Rightarrow> {#} | Some a \<Rightarrow> {#a#}) w2"
      by blast
    have w2: "agree T w2" "recv_fd (w_log w2) = recv_fd (w_log w)" "w_direct w2 = w_direct w"
        "sim ?P (put Fresh (cqe_res q) N) w2"
      using alloc_agree [OF assms(1) w1(1) alloc] w1 False d1 fa_conn_alloc_frame [OF alloc]
      by (auto simp: same_worker_def)
    show ?thesis
    proof (cases p)
      case None
      with alloc have "w_direct w2 \<Longrightarrow> \<not> ?P"
        using w2(3) fa_conn_alloc_NULL by (metis lossless_def)
      moreover have "w' = (if \<not> w_direct w2 then call (C_close (cqe_res q)) w2 else w2)"
        using None False assms(4) alloc by (simp add: fa_on_accept_def w1_def [symmetric])
      ultimately show ?thesis
        using refused_conn_sim [OF w2(4,1)] w2(2) by simp
    next
      case (Some c)
      then obtain obj where obj: "w_heap w2 c = Some obj"
        using own_held [OF own2, of c] by auto
      then have recv: "fa_submit_recv env s c (w2\<lparr>w_heap := (w_heap w2)(c \<mapsto> obj\<lparr>fc_fd := cqe_res q\<rparr>)\<rparr>) = Some w'"
        using assms(4) False alloc Some by (simp add: fa_on_accept_def w1_def [symmetric])
      have own: "own T {#c#} w2" and room: "?P \<Longrightarrow> \<not> w_direct w2 \<or> sq_drained env"
        using own2 Some w2(3) by (auto simp: lossless_def)
      from admitted_conn_sim [OF w2(4,1) own obj room recv] w2(2) show ?thesis
        by simp
    qed
  qed
  then show "sim ?P N w'" and "agree T w'" and "a \<in># T \<Longrightarrow> recv_fd (w_log w') a = recv_fd (w_log w) a"
    by auto
qed

lemma on_recv_sim:
  assumes "fa_on_recv env s c q w = Some w'" and "w_heap w c = Some obj"
    and "sim (lossless env (w_direct w)) (put Ready (fc_fd obj) N) w"
  shows "sim (lossless env (w_direct w)) N w'" and "steady w w'"
proof -
  let ?P = "lossless env (w_direct w)"
  have P: "?P \<Longrightarrow> \<not> w_direct w \<or> sq_drained env"
    by (simp add: lossless_def)
  have "sim ?P N w' \<and> steady w w'"
  proof (cases "cqe_res q \<le> 0")
    case True
    with assms P show ?thesis
      by (auto simp: fa_on_recv_def intro: sim_close steady_close)
  next
    case False
    then obtain obj' r w1 where "w_heap w c = Some obj'" and "call_handler env s obj' (cqe_res q) w = Some (r, w1)"
      and w': "(\<exists>n. fa_submit_reply_and_close env c n w1 = Some w') \<or> fa_submit_close env c w1 = Some w'"
      by (rule fa_on_recv_answered [OF assms(1)])
    with assms(2) have h: "call_handler env s obj (cqe_res q) w = Some (r, w1)"
      by simp
    have "\<exists>req cap. w_log w1 = C_handler req cap r # w_log w"
      using h by (auto simp: call_handler_def Let_def split: prod.splits if_splits)
    then obtain req cap where l: "w_log w1 = w_log (call (C_handler req cap r) w)"
      by auto
    have "sim ?P (put Ready (fc_fd obj) N) (call (C_handler req cap r) w)"
      using assms(3) by (rule sim_silent) (auto simp: act_of_def)
    then have "sim ?P (put Ready (fc_fd obj) N) w1"
      using sim_log [OF l] by simp
    with w' assms(2) P call_handler_frame [OF h] steady_handler [OF h] show ?thesis
      by (auto intro: sim_close sim_reply steady_close steady_reply steady_trans)
  qed
  then show "sim ?P N w'" and "steady w w'"
    by auto
qed

subsection \<open>A batch and the loop\<close>

text \<open>Before a batch is processed: its new descriptors are fresh, its completed receives ready.\<close>

definition batch_phases :: "history \<Rightarrow> cqe list \<Rightarrow> phases" where
  "batch_phases h qs = nothing_open(Fresh := mset (accepts_of qs),
     Ready := image_mset (recv_fd h) (mset (conns_of qs)))"

definition tracked :: "fa_env \<Rightarrow> cqe list \<Rightarrow> fa_worker \<Rightarrow> bool" where
  "tracked env qs w \<longleftrightarrow> agree (mset (conns_of qs)) w \<and>
     sim (lossless env (w_direct w)) (batch_phases (w_log w) qs) w"

lemma batch_phases_cong:
  "(\<And>a. a \<in> set (conns_of qs) \<Longrightarrow> recv_fd h' a = recv_fd h a) \<Longrightarrow> batch_phases h' qs = batch_phases h qs"
  unfolding batch_phases_def
  by (intro arg_cong [where f = "fun_upd _ Ready"] image_mset_cong) simp

lemma batch_phases_Nil [simp]: "batch_phases h [] = nothing_open"
  by (auto simp: batch_phases_def)

lemma batch_phases_accept:
  "cqe_user_data q = UMarker \<Longrightarrow> batch_phases h (q # qs) =
     (if 0 \<le> cqe_res q then put Fresh (cqe_res q) (batch_phases h qs) else batch_phases h qs)"
  by (auto simp: batch_phases_def put_def)

lemma batch_phases_recv:
  "cqe_user_data q = UConn a \<Longrightarrow> batch_phases h (q # qs) = put Ready (recv_fd h a) (batch_phases h qs)"
  by (auto simp: batch_phases_def put_def)

lemma tracked_steady:
  assumes "steady w w'" and "w_direct w' = w_direct w" and "agree (mset (conns_of qs)) w"
    and "sim (lossless env (w_direct w)) (batch_phases (w_log w) qs) w'"
  shows "tracked env qs w'"
  using assms steady_agree [OF assms(1)] batch_phases_cong [of qs "w_log w'" "w_log w"]
  by (simp add: tracked_def) (simp add: steady_def)

lemma fa_handle_cqe_tracked:
  assumes "contracts env s" and inv: "worker_inv env s (q # qs) w" and tr: "tracked env (q # qs) w"
    and handle: "fa_handle_cqe env s q w = Some w'"
  shows "tracked env qs w'"
proof (cases "cqe_user_data q")
  case UNull
  with tr handle show ?thesis
    by (simp add: fa_handle_cqe_def tracked_def batch_phases_def)
next
  case UMarker
  with handle have acc: "fa_on_accept env s q w = Some w'"
    by (simp add: fa_handle_cqe_def split: if_splits)
  have own: "own (mset (conns_of qs)) {#} w" and agree: "agree (mset (conns_of qs)) w"
    using inv tr UMarker by (auto simp: worker_inv_def tracked_def)
  note sim = on_accept_sim [OF contracts_malloc [OF assms(1)] own agree acc,
      where N = "batch_phases (w_log w) qs"]
  have "sim (lossless env (w_direct w)) (batch_phases (w_log w) (q # qs)) w"
    using tr by (simp add: tracked_def)
  then have "tracked env qs w' = (agree (mset (conns_of qs)) w' \<and> sim (lossless env (w_direct w)) (batch_phases (w_log w) qs) w')"
    using sim(3) UMarker fa_on_accept_frame [OF acc] batch_phases_cong [of qs "w_log w'" "w_log w"]
    by (simp add: tracked_def batch_phases_accept same_worker_def)
  with sim UMarker tr show ?thesis
    by (simp add: tracked_def batch_phases_accept)
next
  case (UConn c)
  then obtain obj where obj: "w_heap w c = Some obj" "fc_state obj = FA_ST_RECV"
    using inv own_busy [of "mset (conns_of (q # qs))" "{#}" w c] by (auto simp: worker_inv_def)
  with UConn handle have recv: "fa_on_recv env s c q w = Some w'"
    by (simp add: fa_handle_cqe_def)
  have "recv_fd (w_log w) c = fc_fd obj"
    using tr UConn obj by (simp add: tracked_def agree_def conn_fd_def)
  then have "sim (lossless env (w_direct w)) (put Ready (fc_fd obj) (batch_phases (w_log w) qs)) w"
    using tr UConn by (simp add: tracked_def batch_phases_recv)
  from on_recv_sim [OF recv obj(1) this] show ?thesis
    using tr UConn fa_on_recv_direct [OF recv]
    by (intro tracked_steady) (auto simp: tracked_def agree_def)
qed

interpretation tracked_batch: completion_handler "fa_handle_cqe env s"
  "\<lambda>qs w. contracts env s \<and> srv_ok s \<and> worker_inv env s qs w \<and> tracked env qs w"
  by unfold_locales (meson fa_handle_cqe_inv fa_handle_cqe_tracked)

lemma peek_tracked:
  assumes "tracked env [] w" and "cqes_justified (w_log w) qs"
  shows "tracked env qs (call (C_peek qs) w)"
proof -
  let ?D = "image_mset (recv_fd (w_log w)) (mset (conns_of qs))"
  have sub: "mset (conns_of qs) \<subseteq># inflight (w_log w)"
    using assms(2) by (simp add: cqes_justified_def)
  have rf: "recv_fd (C_peek qs # w_log w) = recv_fd (w_log w)"
    by simp
  have "sim (lossless env (w_direct w)) (batch_phases (w_log w) qs) (call (C_peek qs) w)"
  proof (rule sim_step [where N = nothing_open])
    show "sim (lossless env (w_direct w)) nothing_open w"
      using assms(1) by (simp add: tracked_def)
    fix p assume p: "p Waiting = image_mset (recv_fd (w_log w)) (inflight (w_log w))"
      "\<forall>k. k \<noteq> Waiting \<longrightarrow> {#} \<subseteq># p k \<and> (lossless env (w_direct w) \<longrightarrow> p k = {#})"
    let ?p = "p(Fresh := mset (accepts_of qs) + p Fresh, Waiting := p Waiting - ?D, Ready := ?D + p Ready)"
    have "spec_step p (act_of (w_log w) (C_peek qs)) ?p"
      unfolding act_of_def call.case
      by (rule spec_step.arrive) (simp add: p(1) sub image_mset_subseteq_mono)
    moreover have "?p Waiting = image_mset (recv_fd (w_log w)) (inflight (C_peek qs # w_log w))"
      using sub p(1) by (simp add: image_mset_Diff)
    moreover have "batch_phases (w_log w) qs k \<subseteq># ?p k \<and>
        (lossless env (w_direct w) \<longrightarrow> ?p k = batch_phases (w_log w) qs k)" if "k \<noteq> Waiting" for k
      using p(2) that by (cases k) (auto simp: batch_phases_def)
    ultimately show "\<exists>p'. spec_step p (act_of (w_log w) (C_peek qs)) p' \<and>
        p' Waiting = image_mset (recv_fd (C_peek qs # w_log w)) (inflight (C_peek qs # w_log w)) \<and>
        (\<forall>k. k \<noteq> Waiting \<longrightarrow> batch_phases (w_log w) qs k \<subseteq># p' k \<and>
           (lossless env (w_direct w) \<longrightarrow> p' k = batch_phases (w_log w) qs k))"
      unfolding rf by blast
  qed
  moreover have "a \<in># inflight (w_log w)" if "a \<in># inflight (w_log w) - mset (conns_of qs) + mset (conns_of qs)" for a
    using that sub by simp
  then have "agree (mset (conns_of qs)) (call (C_peek qs) w)"
    using assms(1) by (auto simp: tracked_def agree_def)
  ultimately show ?thesis
    unfolding tracked_def using batch_phases_cong [of qs "C_peek qs # w_log w" "w_log w"] by simp
qed

lemma tracked_silent:
  assumes "tracked env [] w" and "act_of (w_log w) c = Silent"
    and "inflight (c # w_log w) = inflight (w_log w)" and "recv_fd (c # w_log w) = recv_fd (w_log w)"
  shows "tracked env [] (call c w)"
  using assms sim_silent [OF _ assms(2-4)] by (simp add: tracked_def agree_def)

lemma fa_loop_body_tracked:
  assumes c: "contracts env s" and "srv_ok s" and inv: "worker_inv env s [] w" and tr: "tracked env [] w"
    and body: "fa_loop_body env s w = Some (Continue w')"
  shows "tracked env [] w'"
proof -
  have wait: "tracked env [] (call (C_wait (w_reply w) ret) w)" for ret
    using tr by (rule tracked_silent) (simp_all add: act_of_def)
  from c inv body show ?thesis
  proof (cases rule: fa_loop_body_Continue)
    case (nothing ret)
    with wait show ?thesis by simp
  next
    case (batch qs ret v w2)
    let ?w1 = "call (C_peek qs) (call (C_wait (w_reply w) ret) w)"
    have "tracked env qs ?w1"
      by (rule peek_tracked [OF wait]) (use batch(5) in simp)
    then have "tracked env qs v"
      unfolding batch(1)
      by (intro tracked_steady [OF steady_deliver]) (auto simp: tracked_def deliver_def)
    with batch c assms(2) obtain "tracked env [] w2"
      using tracked_batch.drains_all [of env s qs v] by auto
    then show ?thesis
      unfolding batch(4) by (rule tracked_silent) (simp_all add: act_of_def)
  qed
qed

lemma tracked_at_heads:
  assumes "loop_head (fa_stopped env) (fa_loop_body env s) w0 w"
    and "contracts env s" and "srv_ok s" and "worker_inv env s [] w0" and "tracked env [] w0"
  shows "worker_inv env s [] w \<and> tracked env [] w"
  using assms(1)
proof (induction rule: loop_head.induct)
  case enter
  from assms show ?case by simp
next
  case (again w w')
  then show ?case
    using assms(2,3) fa_loop.body_continues [of env s w w'] fa_loop_body_tracked [of env s w w'] by simp
qed

lemma fa_warm_tracked:
  "fa_warm env s n w = Some w' \<Longrightarrow> inflight (w_log w) = {#} \<Longrightarrow> tracked env [] w \<Longrightarrow>
   inflight (w_log w') = {#} \<and> tracked env [] w'"
proof (induction n arbitrary: w)
  case (Suc n)
  obtain p w1 where m: "conn_malloc env s w = (p, w1)"
    by (cases "conn_malloc env s w")
  then obtain k where l: "w_log w1 = w_log (call (C_malloc k p) w)" and d: "w_direct w1 = w_direct w"
    by (auto simp: conn_malloc_def Let_def split: option.splits)
  have "tracked env [] (call (C_malloc k p) w)"
    using Suc.prems(3) by (rule tracked_silent) (simp_all add: act_of_def)
  then have w1: "inflight (w_log w1) = {#}" "tracked env [] w1"
    using l d Suc.prems(2) sim_log [OF l] by (simp_all add: tracked_def agree_def)
  have "inflight (w_log w2) = {#} \<and> tracked env [] w2" if "fa_conn_free a w1 = Some w2" for a w2
    using that w1 steady_free [OF that] sim_free [OF that] fa_conn_free_frame [OF that]
    by (auto simp: tracked_def agree_def same_worker_def)
  with Suc w1 m show ?case
    by (auto split: option.splits bind_splits)
qed simp

text \<open>A worker that has made no visible act yet.\<close>

lemma idle_tracked:
  assumes "idle s w" and "lifecycle (w_log w) nothing_open"
  shows "tracked env [] w"
  using assms by (auto simp: idle_def tracked_def agree_def sim_def intro!: exI [of _ nothing_open])

lemma heads_tracked:
  assumes "contracts env s" and "srv_ok s" and "idle s w" and "lifecycle (w_log w) nothing_open"
    and "fa_heads env s w v"
  shows "tracked env [] v"
proof -
  from loop_entry [OF contracts_malloc [OF assms(1)] assms(3)] obtain w1 where
    w1: "fa_warm env s FA_FREELIST_WARM w = Some w1" "worker_inv env s [] (fa_arm_accept env s w1)"
    by blast
  have "tracked env [] w1"
    using fa_warm_tracked [OF w1(1)] idle_tracked [OF assms(3,4)] assms(3) by (simp add: idle_def)
  then have "tracked env [] (fa_arm_accept env s w1)"
    using steady_arm [of w1 env s] fa_arm_accept_frame [of w1 env s]
    by (intro tracked_steady) (auto simp: tracked_def same_worker_def intro: sim_arm)
  with w1 assms show ?thesis
    using tracked_at_heads [of env s "fa_arm_accept env s w1" v] by (auto simp: fa_heads_def)
qed

text \<open>The phases a tracked worker is in.\<close>

lemma tracked_phases:
  assumes "tracked env [] w"
  obtains p where "lifecycle (w_log w) p" and "p Waiting = image_mset (conn_fd w) (inflight (w_log w))"
    and "\<forall>k. k \<noteq> Waiting \<longrightarrow> lossless env (w_direct w) \<longrightarrow> p k = {#}"
proof -
  from assms obtain p where "lifecycle (w_log w) p"
      "p Waiting = image_mset (recv_fd (w_log w)) (inflight (w_log w))"
      "\<forall>k. k \<noteq> Waiting \<longrightarrow> lossless env (w_direct w) \<longrightarrow> p k = {#}"
    by (auto simp: tracked_def sim_def)
  moreover have "image_mset (recv_fd (w_log w)) (inflight (w_log w)) = image_mset (conn_fd w) (inflight (w_log w))"
    using assms by (intro image_mset_cong) (simp add: tracked_def agree_def)
  ultimately show thesis
    by (intro that) auto
qed

end
