(* ===== verification/Lifecycle_Props.thy ===== *)
theory Lifecycle_Props
  imports Refinement Ref_Env
begin

text \<open>
  The worker against its abstract specification: the refinement, and what the specification
  promises carried over to the worker.
\<close>

text \<open>
  C34. The worker refines the specification \<open>Lifecycle\<close>: whenever the loop head is reached, the
  calls made so far are a run of it, so every receive was posted on an accepted descriptor and
  only once, every answer followed its request, every close came last and never under an
  outstanding receive. The descriptors waiting for their request are those of the connections
  in flight, and when nothing can be lost no descriptor is left in any other phase.
\<close>

theorem worker_refines_lifecycle:
  assumes "contracts env s" and "srv_ok s" and "idle s w" and "lifecycle (w_log w) nothing_open"
    and "fa_heads env s w v"
  shows "\<exists>p. lifecycle (w_log v) p \<and> p Waiting = image_mset (conn_fd v) (inflight (w_log v)) \<and>
     (\<forall>k. k \<noteq> Waiting \<longrightarrow> lossless env (w_direct v) \<longrightarrow> p k = {#})"
  using tracked_phases [OF heads_tracked [OF assms]] by metis

theorem worker_refines_lifecycle_witness:
  "\<exists>v p. fa_heads demo_env demo_srv (demo_worker False) v \<and> inflight (w_log v) = {#0#} \<and>
     lifecycle (w_log v) p \<and> p Waiting = {#conn_fd v 0#}"
proof -
  obtain v where v: "fa_heads demo_env demo_srv (demo_worker False) v" "inflight (w_log v) = {#0#}"
    by (rule demo_waiting)
  have "lifecycle (w_log (demo_worker False)) nothing_open"
    by (simp add: demo_worker_def lifecycle.start)
  from worker_refines_lifecycle [OF demo_contracts demo_srv_ok demo_idle this v(1)] v show ?thesis
    by fastforce
qed

text \<open>
  No client is answered twice: the answers queued so far and the connections still waiting
  for their request together never outnumber the accepted connections, descriptor by descriptor
  (the kernel hands a number out again after it was closed, so descriptors are counted).
\<close>

lemma at_most_one_answer:
  assumes "contracts env s" and "srv_ok s" and "idle s w" and "lifecycle (w_log w) nothing_open"
    and "fa_heads env s w v"
  shows "answers (w_log v) + image_mset (conn_fd v) (inflight (w_log v)) \<subseteq># accepted (w_log v)"
  using tracked_phases [OF heads_tracked [OF assms]] lifecycle_waiting by metis

end
