(* ===== verification/Os.thy ===== *)
theory Os
  imports Prelude
begin

text \<open>
  The boundary between the calling thread of a server and the operating system: sockets, heap
  blocks, limits, CPU affinity, threads. As for the workers, every call is recorded in a history
  (most recent first) and every answer is a function of the history, a field of \<open>os_env\<close>.
  The readings \<open>open_fds\<close> and \<open>blocks\<close> tell which descriptors and which heap blocks a history
  leaves open. The interface \<open>listener\<close> states what a routine that makes a listening socket
  promises; both servers rely on it.
\<close>

subsection \<open>Calls and answers\<close>

datatype sockopt = SO_REUSEADDR | SO_REUSEPORT

datatype os_call =
    S_socket int \<comment> \<open>socket and its result\<close>
  | S_setsockopt int sockopt int \<comment> \<open>descriptor, option, result\<close>
  | S_bind int int int \<comment> \<open>descriptor, port in host byte order, result\<close>
  | S_listen int int int \<comment> \<open>descriptor, backlog, result\<close>
  | S_close int
  | S_calloc nat nat ptr \<comment> \<open>count, size, result\<close>
  | S_free addr
  | S_getrlimit int nat nat \<comment> \<open>result, soft and hard limit of RLIMIT_NOFILE\<close>
  | S_setrlimit nat nat
  | S_getaffinity int
  | S_pthread_create nat int \<comment> \<open>worker number, result\<close>
  | S_pthread_join nat
  | S_signal string \<comment> \<open>a handler was installed\<close>
  | S_stderr string

type_synonym os_history = "os_call list"

record os_env =
  o_socket :: "os_history \<Rightarrow> int"
  o_setsockopt :: "os_history \<Rightarrow> sockopt \<Rightarrow> int"
  o_bind :: "os_history \<Rightarrow> int \<Rightarrow> int"
  o_listen :: "os_history \<Rightarrow> int"
  o_calloc :: "os_history \<Rightarrow> nat \<Rightarrow> nat \<Rightarrow> ptr"
  o_getrlimit :: "os_history \<Rightarrow> int \<times> nat \<times> nat"
  o_affinity :: "os_history \<Rightarrow> int \<times> (nat \<Rightarrow> bool)"
  o_pthread_create :: "os_history \<Rightarrow> nat \<Rightarrow> int"
  o_stop :: "os_history \<Rightarrow> bool" \<comment> \<open>has somebody set the stop flag by now\<close>
  o_sizeof_worker :: nat \<comment> \<open>size of a worker structure, which holds liburing's ring\<close>

subsection \<open>Readings\<close>

fun open_fds :: "os_history \<Rightarrow> int set" where
  "open_fds [] = {}"
| "open_fds (S_socket fd # h) = (if 0 \<le> fd then insert fd (open_fds h) else open_fds h)"
| "open_fds (S_close fd # h) = open_fds h - {fd}"
| "open_fds (_ # h) = open_fds h"

fun blocks :: "os_history \<Rightarrow> addr set" where
  "blocks [] = {}"
| "blocks (S_calloc n m p # h) = set_option p \<union> blocks h"
| "blocks (S_free a # h) = blocks h - {a}"
| "blocks (_ # h) = blocks h"

text \<open>Only open descriptors are closed, only allocated blocks are freed.\<close>

fun releases_valid :: "os_history \<Rightarrow> bool" where
  "releases_valid [] \<longleftrightarrow> True"
| "releases_valid (S_close fd # h) \<longleftrightarrow> fd \<in> open_fds h \<and> releases_valid h"
| "releases_valid (S_free a # h) \<longleftrightarrow> a \<in> blocks h \<and> releases_valid h"
| "releases_valid (_ # h) \<longleftrightarrow> releases_valid h"

subsection \<open>Contracts\<close>

text \<open>A new socket has a descriptor that is not in use, a new block an address that is not.\<close>

definition sockets_fresh :: "os_env \<Rightarrow> bool" where
  "sockets_fresh env \<longleftrightarrow> (\<forall>h. 0 \<le> o_socket env h \<longrightarrow> o_socket env h \<notin> open_fds h)"

definition calloc_fresh :: "os_env \<Rightarrow> bool" where
  "calloc_fresh env \<longleftrightarrow> (\<forall>h n m a. o_calloc env h n m = Some a \<longrightarrow> a \<notin> blocks h)"

lemma sockets_freshD: "sockets_fresh env \<Longrightarrow> 0 \<le> o_socket env h \<Longrightarrow> o_socket env h \<notin> open_fds h"
  by (simp add: sockets_fresh_def)

lemma calloc_freshD: "calloc_fresh env \<Longrightarrow> o_calloc env h n m = Some a \<Longrightarrow> a \<notin> blocks h"
  by (simp add: calloc_fresh_def)

subsection \<open>Releasing several resources\<close>

fun free_each :: "addr list \<Rightarrow> os_history \<Rightarrow> os_history" where
  "free_each [] h = h"
| "free_each (a # as) h = free_each as (S_free a # h)"

lemma free_each_readings:
  "blocks (free_each as h) = blocks h - set as" "open_fds (free_each as h) = open_fds h"
  by (induction as arbitrary: h) auto

lemma free_each_valid:
  "releases_valid h \<Longrightarrow> distinct as \<Longrightarrow> set as \<subseteq> blocks h \<Longrightarrow> releases_valid (free_each as h)"
proof (induction as arbitrary: h)
  case (Cons a as)
  then have "set as \<subseteq> blocks (S_free a # h)"
    by auto
  with Cons show ?case by simp
qed simp

fun close_each :: "int list \<Rightarrow> os_history \<Rightarrow> os_history" where
  "close_each [] h = h"
| "close_each (fd # fds) h = close_each fds (S_close fd # h)"

lemma close_each_readings:
  "open_fds (close_each fds h) = open_fds h - set fds" "blocks (close_each fds h) = blocks h"
  by (induction fds arbitrary: h) auto

subsection \<open>The interface of a socket factory\<close>

text \<open>
  \<open>make\<close> creates a listening socket; \<open>ready\<close> is what it needs of the history, and keeps. It
  gives a new descriptor that is then open, or fails and leaves nothing open.
\<close>

locale listener =
  fixes make :: "os_history \<Rightarrow> int \<times> os_history"
    and ready :: "os_history \<Rightarrow> bool"
  assumes make_fails: "ready h \<Longrightarrow> make h = (fd, h') \<Longrightarrow> fd < 0 \<Longrightarrow> open_fds h' = open_fds h"
    and make_opens: "ready h \<Longrightarrow> make h = (fd, h') \<Longrightarrow> 0 \<le> fd \<Longrightarrow>
      fd \<notin> open_fds h \<and> open_fds h' = insert fd (open_fds h)"
    and make_ready: "ready h \<Longrightarrow> make h = (fd, h') \<Longrightarrow> ready h'"
    and make_blocks: "make h = (fd, h') \<Longrightarrow> blocks h' = blocks h"
    and close_ready: "ready h \<Longrightarrow> fd \<in> open_fds h \<Longrightarrow> ready (S_close fd # h)"
begin

text \<open>
  In the middle of making one socket after the other, \<open>fds\<close> so far: they are distinct, were
  not open at the start \<open>h0\<close>, and are what is open in addition.
\<close>

definition made :: "os_history \<Rightarrow> int list \<Rightarrow> os_history \<Rightarrow> bool" where
  "made h0 fds h \<longleftrightarrow> distinct fds \<and> (\<forall>fd \<in> set fds. 0 \<le> fd) \<and> set fds \<inter> open_fds h0 = {} \<and>
     open_fds h = set fds \<union> open_fds h0 \<and> ready h \<and> blocks h = blocks h0"

lemma made_Nil: "ready h \<Longrightarrow> made h [] h"
  by (simp add: made_def)

lemma made_more:
  assumes "made h0 fds h" and "make h = (fd, h')" and "0 \<le> fd"
  shows "made h0 (fds @ [fd]) h'"
  using assms(1,3) make_opens [OF _ assms(2,3)] make_ready [OF _ assms(2)] make_blocks [OF assms(2)]
  by (auto simp: made_def)

lemma made_failed:
  assumes "made h0 fds h" and "make h = (fd, h')" and "fd < 0"
  shows "made h0 fds h'"
  using assms(1) make_fails [OF _ assms(2,3)] make_ready [OF _ assms(2)] make_blocks [OF assms(2)]
  by (simp add: made_def)

text \<open>Closing all sockets made so far restores the start.\<close>

lemma close_each_ready:
  "ready h \<Longrightarrow> distinct fds \<Longrightarrow> set fds \<subseteq> open_fds h \<Longrightarrow> ready (close_each fds h)"
proof (induction fds arbitrary: h)
  case (Cons fd fds)
  then have "set fds \<subseteq> open_fds (S_close fd # h)" and "ready (S_close fd # h)"
    by (auto intro: close_ready)
  with Cons show ?case by simp
qed simp

lemma made_undo:
  assumes "made h0 fds h"
  shows "open_fds (close_each fds h) = open_fds h0 \<and> ready (close_each fds h) \<and>
    blocks (close_each fds h) = blocks h0"
  using assms by (auto simp: made_def close_each_readings intro: close_each_ready)

end

end
