(* ===== verification/Server.thy ===== *)
theory Server
  imports Os Worker_Inv
begin

text \<open>
  The server handle of \<open>src/flashaccept.c\<close>: creating it, its listening sockets, running it with
  one thread per worker, stopping and freeing it. The state of the calling thread is its history
  of system calls; a worker keeps its own history (theory \<open>Freelist\<close>).
\<close>

subsection \<open>The listening socket\<close>

definition fa_make_listen_socket :: "os_env \<Rightarrow> int \<Rightarrow> int \<Rightarrow> os_history \<Rightarrow> int \<times> os_history" where
  "fa_make_listen_socket env port backlog h =
     (let fd = o_socket env h; h = S_socket fd # h in
      if fd < 0 then (-1, h)
      else
        let r = o_setsockopt env h SO_REUSEADDR; h = S_setsockopt fd SO_REUSEADDR r # h;
            (r, h) = (if r < 0 then (r, h)
                      else let r = o_setsockopt env h SO_REUSEPORT
                           in (r, S_setsockopt fd SO_REUSEPORT r # h))
        in if r < 0 then (-1, S_close fd # h)
        else
          let port = c_ushort port; r = o_bind env h port; h = S_bind fd port r # h in
          if r < 0 then (-1, S_close fd # h)
          else
            let r = o_listen env h; h = S_listen fd backlog r # h in
            if r < 0 then (-1, S_close fd # h) else (fd, h))"

definition os_ready :: "os_env \<Rightarrow> os_history \<Rightarrow> bool" where
  "os_ready env h \<longleftrightarrow> sockets_fresh env \<and> calloc_fresh env \<and> releases_valid h"

interpretation fa_listen: listener "fa_make_listen_socket env port backlog" "os_ready env"
  by unfold_locales (auto simp: fa_make_listen_socket_def os_ready_def Let_def sockets_freshD
      split: if_splits prod.splits)

subsection \<open>Limits and CPUs\<close>

definition fa_raise_nofile :: "os_env \<Rightarrow> os_history \<Rightarrow> os_history" where
  "fa_raise_nofile env h =
     (let (r, cur, hard) = o_getrlimit env h; h = S_getrlimit r cur hard # h in
      if r = 0 \<and> cur < hard then S_setrlimit hard hard # h else h)"

definition CPU_SETSIZE :: nat where "CPU_SETSIZE = 1024"

function collect_loop :: "(nat \<Rightarrow> bool) \<Rightarrow> nat \<Rightarrow> nat \<Rightarrow> int list \<Rightarrow> int list" where
  "collect_loop aff max_cpus cpu out =
     (if cpu < CPU_SETSIZE \<and> length out < max_cpus
      then collect_loop aff max_cpus (Suc cpu) (if aff cpu then out @ [int cpu] else out)
      else out)"
  by pat_completeness auto
termination
  by (relation "measure (\<lambda>(aff, m, cpu, out). CPU_SETSIZE - cpu)") auto

declare collect_loop.simps [simp del]

text \<open>The result is the filled part of \<open>out\<close>; the count is its length.\<close>

definition fa_collect_cpus :: "os_env \<Rightarrow> nat \<Rightarrow> os_history \<Rightarrow> int list \<times> os_history" where
  "fa_collect_cpus env max_cpus h =
     (let (r, aff) = o_affinity env h; h = S_getaffinity r # h in
      if r < 0 then ([-1], h)
      else let out = collect_loop aff max_cpus 0 [] in
           if out = [] then ([-1], h) else (out, h))"

subsection \<open>Creating and freeing a server\<close>

text \<open>
  The whole of \<open>struct fa_server\<close>: what the workers read of it (\<open>fa_server\<close>), the handler and
  its argument, and where the server, its array of workers and the workers live.
\<close>

type_synonym 'u fa_handler = "'u \<Rightarrow> history \<Rightarrow> bytes \<Rightarrow> int \<Rightarrow> bytes \<times> int"

record 'u fa_handle = fa_server +
  srv_handler :: "'u fa_handler"
  srv_user :: 'u
  srv_addr :: addr
  srv_workers_addr :: addr
  srv_worker_addrs :: "addr list"

definition SIZEOF_FA_SERVER :: nat where "SIZEOF_FA_SERVER = 72"
definition SIZEOF_PTR :: nat where "SIZEOF_PTR = 8"

definition fa_defaults :: "fa_config \<Rightarrow> fa_config" where
  "fa_defaults c =
     (let c = (if cfg_backlog c \<le> 0 then c\<lparr>cfg_backlog := 4096\<rparr> else c);
          c = (if cfg_recv_buf c \<le> 0 then c\<lparr>cfg_recv_buf := 2048\<rparr> else c)
      in if cfg_reply_cap c \<le> 0 then c\<lparr>cfg_reply_cap := 2048\<rparr> else c)"

text \<open>A worker as calloc and the assignments after it leave it: all other fields are zero.\<close>

definition fa_new_worker :: "fa_config \<Rightarrow> int \<Rightarrow> fa_worker" where
  "fa_new_worker c cpu =
     \<lparr>w_listen_fd = -1, w_direct = False, w_cpu = cpu, w_ring_ready = False,
      w_marker = FA_ST_ACCEPT, w_free_head = None,
      w_reply = replicate (nat (cfg_reply_cap c)) CHR 0x00, w_heap = Map.empty, w_log = []\<rparr>"

text \<open>
  The loop that allocates the workers, \<open>n\<close> of them left to do: on failure the workers allocated
  so far (\<open>acc\<close>) are freed.
\<close>

fun fa_new_workers ::
  "os_env \<Rightarrow> fa_config \<Rightarrow> int list \<Rightarrow> nat \<Rightarrow> (addr \<times> fa_worker) list \<Rightarrow> os_history \<Rightarrow>
   (addr \<times> fa_worker) list option \<times> os_history" where
  "fa_new_workers env c cpus 0 acc h = (Some acc, h)"
| "fa_new_workers env c cpus (Suc n) acc h =
     (let wsz = o_sizeof_worker env + c_size_t (cfg_reply_cap c);
          p = o_calloc env h 1 wsz;
          h = S_calloc 1 wsz p # h
      in case p of
           None \<Rightarrow> (None, free_each (map fst acc) h)
         | Some a \<Rightarrow>
             fa_new_workers env c cpus n
               (acc @ [(a, fa_new_worker c (cpus ! (length acc mod length cpus)))]) h)"

definition fa_server_new ::
  "os_env \<Rightarrow> fa_config option \<Rightarrow> 'u fa_handler option \<Rightarrow> 'u \<Rightarrow> os_history \<Rightarrow>
   'u fa_handle option \<times> os_history" where
  "fa_server_new env cfg handler user h =
     (case (cfg, handler) of
        (Some c, Some f) \<Rightarrow>
          if cfg_port c \<le> 0 then (None, h)
          else
            let p = o_calloc env h 1 SIZEOF_FA_SERVER; h = S_calloc 1 SIZEOF_FA_SERVER p # h in
            (case p of
               None \<Rightarrow> (None, h)
             | Some sa \<Rightarrow>
                 let c = fa_defaults c;
                     conn_size = c_int (SIZEOF_FA_CONN + cfg_recv_buf c);
                     (cpus, h) = fa_collect_cpus env CPU_SETSIZE h;
                     nworkers = (if 0 < cfg_workers c then cfg_workers c else int (length cpus));
                     p = o_calloc env h (c_size_t nworkers) SIZEOF_PTR;
                     h = S_calloc (c_size_t nworkers) SIZEOF_PTR p # h
                 in (case p of
                       None \<Rightarrow> (None, S_free sa # h)
                     | Some wa \<Rightarrow>
                         (case fa_new_workers env c cpus (nat nworkers) [] h of
                            (None, h) \<Rightarrow> (None, S_free sa # S_free wa # h)
                          | (Some ws, h) \<Rightarrow>
                              (Some \<lparr>srv_cfg = c, srv_conn_size = conn_size, srv_nworkers = nworkers,
                                 srv_workers = map snd ws, srv_stop = False, srv_handler = f,
                                 srv_user = user, srv_addr = sa, srv_workers_addr = wa,
                                 srv_worker_addrs = map fst ws\<rparr>, h))))
      | _ \<Rightarrow> (None, h))"

definition fa_server_stop :: "'u fa_handle option \<Rightarrow> 'u fa_handle option" where
  "fa_server_stop s = map_option (srv_stop_update (\<lambda>_. True)) s"

definition fa_server_free :: "'u fa_handle option \<Rightarrow> os_history \<Rightarrow> os_history" where
  "fa_server_free s h =
     (case s of
        None \<Rightarrow> h
      | Some s \<Rightarrow> S_free (srv_addr s) # S_free (srv_workers_addr s) # free_each (srv_worker_addrs s) h)"

definition fa_version :: string where "fa_version = ''1.0.1''"

subsection \<open>Running a server\<close>

text \<open>One listening socket per worker; when one fails, those opened so far are closed again.\<close>

fun fa_open_sockets ::
  "os_env \<Rightarrow> fa_config \<Rightarrow> fa_worker list \<Rightarrow> fa_worker list \<Rightarrow> os_history \<Rightarrow>
   bool \<times> fa_worker list \<times> os_history" where
  "fa_open_sockets env c opened [] h = (True, opened, h)"
| "fa_open_sockets env c opened (w # ws) h =
     (let (fd, h) = fa_make_listen_socket env (cfg_port c) (cfg_backlog c) h in
      if fd < 0 then
        (False, map (w_listen_fd_update (\<lambda>_. -1)) opened @ w # ws,
         close_each (map w_listen_fd opened)
           (S_stderr ''flashaccept: failed to create listen socket'' # h))
      else fa_open_sockets env c (opened @ [w\<lparr>w_listen_fd := fd\<rparr>]) ws h)"

text \<open>Launching: the number of threads started and whether a launch failed.\<close>

fun fa_start_threads :: "os_env \<Rightarrow> nat \<Rightarrow> nat \<Rightarrow> os_history \<Rightarrow> nat \<times> bool \<times> os_history" where
  "fa_start_threads env 0 started h = (started, False, h)"
| "fa_start_threads env (Suc n) started h =
     (let r = o_pthread_create env h started; h = S_pthread_create started r # h in
      if r \<noteq> 0 then (started, True, S_stderr ''flashaccept: pthread_create failed'' # h)
      else fa_start_threads env n (Suc started) h)"

text \<open>
  What worker \<open>i\<close> meets: its own surroundings \<open>tenv i\<close>, the server's handler, and the stop
  flag, which is set from the start or gets set by someone.
\<close>

definition thread_env :: "(nat \<Rightarrow> fa_env) \<Rightarrow> 'u fa_handle \<Rightarrow> nat \<Rightarrow> fa_env" where
  "thread_env tenv s i = (tenv i)\<lparr>e_handler := srv_handler s (srv_user s),
     e_stop := (\<lambda>h. srv_stop s \<or> e_stop (tenv i) h)\<rparr>"

text \<open>
  Waiting for the started threads: each leaves its worker in the state in which its thread
  function returned. A thread that never returns blocks the caller for ever (\<open>None\<close>).
\<close>

fun fa_join_threads ::
  "(nat \<Rightarrow> fa_env) \<Rightarrow> fa_server \<Rightarrow> nat \<Rightarrow> fa_worker list \<Rightarrow> os_history \<Rightarrow>
   (fa_worker list \<times> os_history) loop_exit option" where
  "fa_join_threads tenv s i [] h = Some (Exited ([], h))"
| "fa_join_threads tenv s i (w # ws) h =
     (case fa_thread_entry (tenv i) s w of
        None \<Rightarrow> None
      | Some Undefined \<Rightarrow> Some Undefined
      | Some (Exited w') \<Rightarrow>
          (case fa_join_threads tenv s (Suc i) ws (S_pthread_join i # h) of
             Some (Exited (ws', h')) \<Rightarrow> Some (Exited (w' # ws', h'))
           | r \<Rightarrow> r))"

text \<open>Freeing the connections on a freelist, one after the other.\<close>

fun fa_drain_body :: "fa_worker \<times> ptr \<Rightarrow> (fa_worker \<times> ptr) loop_next option" where
  "fa_drain_body (w, None) = Some (Break (w, None))"
| "fa_drain_body (w, Some c) = do {
     obj \<leftarrow> w_heap w c;
     Some (Continue ((call (C_free c) w)\<lparr>w_heap := (w_heap w)(c := None)\<rparr>, fc_next obj))
   }"

definition fa_drain_freelist :: "fa_worker \<Rightarrow> fa_worker loop_exit option" where
  "fa_drain_freelist w =
     (case run_loop (\<lambda>(w, p). p = None) fa_drain_body (w, w_free_head w) of
        None \<Rightarrow> None
      | Some Undefined \<Rightarrow> Some Undefined
      | Some (Exited (w, p)) \<Rightarrow> Some (Exited (w\<lparr>w_free_head := None\<rparr>)))"

fun fa_teardown :: "fa_worker list \<Rightarrow> os_history \<Rightarrow> (fa_worker list \<times> os_history) loop_exit option" where
  "fa_teardown [] h = Some (Exited ([], h))"
| "fa_teardown (w # ws) h =
     (let w = (if w_ring_ready w then (call C_queue_exit w)\<lparr>w_ring_ready := False\<rparr> else w);
          (w, h) = (if 0 \<le> w_listen_fd w then (w\<lparr>w_listen_fd := -1\<rparr>, S_close (w_listen_fd w) # h)
                    else (w, h))
      in case fa_drain_freelist w of
           None \<Rightarrow> None
         | Some Undefined \<Rightarrow> Some Undefined
         | Some (Exited w) \<Rightarrow>
             (case fa_teardown ws h of
                Some (Exited (ws', h')) \<Rightarrow> Some (Exited (w # ws', h'))
              | r \<Rightarrow> r))"

definition fa_server_run ::
  "os_env \<Rightarrow> (nat \<Rightarrow> fa_env) \<Rightarrow> 'u fa_handle option \<Rightarrow> os_history \<Rightarrow>
   (int \<times> 'u fa_handle option \<times> os_history) loop_exit option" where
  "fa_server_run env tenv sv h =
     (case sv of
        None \<Rightarrow> Some (Exited (-1, None, h))
      | Some s \<Rightarrow>
          let h = fa_raise_nofile env h;
              (ok, ws, h) = fa_open_sockets env (srv_cfg s) [] (srv_workers s) h;
              s = s\<lparr>srv_workers := ws\<rparr>
          in if \<not> ok then Some (Exited (-1, Some s, h))
          else
            let (started, failed, h) = fa_start_threads env (length ws) 0 h;
                s' = (if failed then s\<lparr>srv_stop := True\<rparr> else s)
            in if started = 0 then Some (Exited (-1, Some s', h))
            else
              (case fa_join_threads (thread_env tenv s) (fa_server.truncate s) 0 (take started ws) h of
                 None \<Rightarrow> None
               | Some Undefined \<Rightarrow> Some Undefined
               | Some (Exited (joined, h)) \<Rightarrow>
                   (case fa_teardown (joined @ drop started ws) h of
                      None \<Rightarrow> None
                    | Some Undefined \<Rightarrow> Some Undefined
                    | Some (Exited (ws, h)) \<Rightarrow>
                        Some (Exited (0, Some (s'\<lparr>srv_workers := ws,
                          srv_stop := srv_stop s' \<or> o_stop env h\<rparr>), h)))))"

end
