(* ===== verification/Server_Inv.thy ===== *)
theory Server_Inv
  imports Server Worker_Props
begin

text \<open>
  The server handle, operation by operation: which CPUs are collected, what creation allocates
  and gives back, which sockets are open after the socket loop, what a returned thread leaves
  behind and what the teardown does with it.
\<close>

subsection \<open>CPUs\<close>

lemma collect_loop_filter:
  "collect_loop aff m cpu out =
     out @ take (m - length out) (map int (filter aff [cpu ..< CPU_SETSIZE]))"
proof (induction aff m cpu out rule: collect_loop.induct)
  case (1 aff m cpu out)
  show ?case
  proof (cases "cpu < CPU_SETSIZE \<and> length out < m")
    case True
    then have "[cpu ..< CPU_SETSIZE] = cpu # [Suc cpu ..< CPU_SETSIZE]"
      and "m - length out = Suc (m - Suc (length out))"
      by (auto simp: upt_conv_Cons)
    with True 1 show ?thesis
      by (simp add: collect_loop.simps [of aff m cpu])
  next
    case False
    then have "m - length out = 0 \<or> [cpu ..< CPU_SETSIZE] = []"
      by auto
    with False show ?thesis
      by (auto simp: collect_loop.simps [of aff m cpu])
  qed
qed

lemma fa_collect_cpus_spec:
  assumes "fa_collect_cpus env m h = (cpus, h')" and "0 < m"
  shows "cpus \<noteq> []" and "length cpus \<le> m" and "h' = S_getaffinity (fst (o_affinity env h)) # h"
    and "cpus = [-1] \<or> cpus = take m (map int (filter (snd (o_affinity env h)) [0 ..< CPU_SETSIZE]))"
  using assms by (auto simp: fa_collect_cpus_def Let_def collect_loop_filter split: if_splits prod.splits)

subsection \<open>Creation\<close>

lemma fa_defaults_simps [simp]:
  "cfg_port (fa_defaults c) = cfg_port c"
  "cfg_workers (fa_defaults c) = cfg_workers c"
  "cfg_multishot (fa_defaults c) = cfg_multishot c"
  "cfg_direct_files (fa_defaults c) = cfg_direct_files c"
  "cfg_backlog (fa_defaults c) = (if cfg_backlog c \<le> 0 then 4096 else cfg_backlog c)"
  "cfg_recv_buf (fa_defaults c) = (if cfg_recv_buf c \<le> 0 then 2048 else cfg_recv_buf c)"
  "cfg_reply_cap (fa_defaults c) = (if cfg_reply_cap c \<le> 0 then 2048 else cfg_reply_cap c)"
  by (simp_all add: fa_defaults_def Let_def)

text \<open>
  The allocation loop either fails and gives back everything allocated so far, or adds the
  missing workers at new addresses.
\<close>

lemma fa_new_workers_None:
  assumes "fa_new_workers env c cpus n acc h = (None, h')"
    and "os_ready env h" "distinct (map fst acc)" "set (map fst acc) \<subseteq> blocks h"
  shows "blocks h' = blocks h - set (map fst acc)" and "os_ready env h'"
    and "open_fds h' = open_fds h"
proof -
  have "blocks h' = blocks h - set (map fst acc) \<and> os_ready env h' \<and> open_fds h' = open_fds h"
    using assms
  proof (induction n arbitrary: acc h)
    case (Suc n)
    let ?wsz = "o_sizeof_worker env + c_size_t (cfg_reply_cap c)"
    show ?case
    proof (cases "o_calloc env h 1 ?wsz")
      case None
      let ?h = "S_calloc 1 ?wsz None # h"
      have "h' = free_each (map fst acc) ?h"
        using None Suc.prems(1) by simp
      moreover have "releases_valid (free_each (map fst acc) ?h)"
        using Suc.prems by (intro free_each_valid) (simp_all add: os_ready_def)
      ultimately show ?thesis
        using Suc.prems(2) by (simp add: free_each_readings os_ready_def)
    next
      case (Some a)
      let ?acc = "acc @ [(a, fa_new_worker c (cpus ! (length acc mod length cpus)))]"
      let ?h = "S_calloc 1 ?wsz (Some a) # h"
      have new: "a \<notin> blocks h"
        using Some Suc.prems(2) calloc_freshD by (auto simp: os_ready_def)
      have rec: "fa_new_workers env c cpus n ?acc ?h = (None, h')"
        using Some Suc.prems(1) by simp
      have "os_ready env ?h" "distinct (map fst ?acc)" "set (map fst ?acc) \<subseteq> blocks ?h"
        using new Suc.prems by (auto simp: os_ready_def)
      from Suc.IH [OF rec this] new show ?thesis
        by auto
    qed
  qed simp
  then show "blocks h' = blocks h - set (map fst acc)" and "os_ready env h'"
    and "open_fds h' = open_fds h"
    by auto
qed

lemma fa_new_workers_Some:
  assumes "fa_new_workers env c cpus n acc h = (Some ws, h')"
    and "os_ready env h" "distinct (map fst acc)" "set (map fst acc) \<subseteq> blocks h"
    and "map snd acc = map (\<lambda>i. fa_new_worker c (cpus ! (i mod length cpus))) [0 ..< length acc]"
  shows "map snd ws = map (\<lambda>i. fa_new_worker c (cpus ! (i mod length cpus))) [0 ..< length acc + n] \<and>
    length ws = length acc + n \<and> distinct (map fst ws) \<and>
    blocks h' = blocks h \<union> set (map fst ws) \<and>
    set (map fst ws) \<inter> blocks h = set (map fst acc) \<and> os_ready env h' \<and> open_fds h' = open_fds h"
  using assms
proof (induction n arbitrary: acc h)
  case (Suc n)
  let ?wsz = "o_sizeof_worker env + c_size_t (cfg_reply_cap c)"
  from Suc.prems(1) obtain a where a: "o_calloc env h 1 ?wsz = Some a"
    by (auto simp: Let_def split: option.splits)
  let ?acc = "acc @ [(a, fa_new_worker c (cpus ! (length acc mod length cpus)))]"
  let ?h = "S_calloc 1 ?wsz (Some a) # h"
  have new: "a \<notin> blocks h"
    using a Suc.prems(2) calloc_freshD by (auto simp: os_ready_def)
  have rec: "fa_new_workers env c cpus n ?acc ?h = (Some ws, h')"
    using a Suc.prems(1) by simp
  have "os_ready env ?h" "distinct (map fst ?acc)" "set (map fst ?acc) \<subseteq> blocks ?h"
      "map snd ?acc = map (\<lambda>i. fa_new_worker c (cpus ! (i mod length cpus))) [0 ..< length ?acc]"
    using new Suc.prems by (auto simp: os_ready_def)
  from Suc.IH [OF rec this] new Suc.prems(4) show ?case
    by auto
qed auto

text \<open>What \<open>fa_server_new\<close> has when it succeeds.\<close>

lemma fa_server_new_Some:
  assumes "fa_server_new env cfg handler user h = (Some s, h')" and "os_ready env h"
  obtains c f cpus where "cfg = Some c" and "handler = Some f" and "0 < cfg_port c"
    and "cpus = fst (fa_collect_cpus env CPU_SETSIZE (S_calloc 1 SIZEOF_FA_SERVER (Some (srv_addr s)) # h))"
    and "srv_cfg s = fa_defaults c" and "srv_handler s = f" and "srv_user s = user"
    and "srv_stop s = False" and "srv_conn_size s = c_int (SIZEOF_FA_CONN + cfg_recv_buf (fa_defaults c))"
    and "srv_nworkers s = (if 0 < cfg_workers c then cfg_workers c else int (length cpus))"
    and "srv_workers s = map (\<lambda>i. fa_new_worker (fa_defaults c) (cpus ! (i mod length cpus)))
      [0 ..< nat (srv_nworkers s)]"
    and "distinct (srv_addr s # srv_workers_addr s # srv_worker_addrs s)"
    and "length (srv_worker_addrs s) = nat (srv_nworkers s)"
    and "set (srv_addr s # srv_workers_addr s # srv_worker_addrs s) \<inter> blocks h = {}"
    and "blocks h' = blocks h \<union> set (srv_addr s # srv_workers_addr s # srv_worker_addrs s)"
    and "os_ready env h'" and "open_fds h' = open_fds h" and "0 < srv_nworkers s"
proof -
  from assms(1) obtain c f sa where c: "cfg = Some c" "handler = Some f" "0 < cfg_port c"
      "o_calloc env h 1 SIZEOF_FA_SERVER = Some sa"
    by (auto simp: fa_server_new_def Let_def split: option.splits if_splits)
  let ?h1 = "S_calloc 1 SIZEOF_FA_SERVER (Some sa) # h"
  obtain cpus h2 where cp: "fa_collect_cpus env CPU_SETSIZE ?h1 = (cpus, h2)"
    by (cases "fa_collect_cpus env CPU_SETSIZE ?h1")
  define n where "n = (if 0 < cfg_workers (fa_defaults c) then cfg_workers (fa_defaults c) else int (length cpus))"
  note h2 = fa_collect_cpus_spec(3) [OF cp]
  from assms(1) c cp obtain wa ws where
    w: "o_calloc env h2 (c_size_t n) SIZEOF_PTR = Some wa"
       "fa_new_workers env (fa_defaults c) cpus (nat n) [] (S_calloc (c_size_t n) SIZEOF_PTR (Some wa) # h2) = (Some ws, h')"
    and s: "s = \<lparr>srv_cfg = fa_defaults c, srv_conn_size = c_int (SIZEOF_FA_CONN + cfg_recv_buf (fa_defaults c)),
       srv_nworkers = n, srv_workers = map snd ws, srv_stop = False, srv_handler = f, srv_user = user,
       srv_addr = sa, srv_workers_addr = wa, srv_worker_addrs = map fst ws\<rparr>"
    by (auto simp: fa_server_new_def Let_def n_def [symmetric] simp del: fa_defaults_simps
        split: option.splits prod.splits)
  have sa: "sa \<notin> blocks h"
    using calloc_freshD c(4) assms(2) by (auto simp: os_ready_def)
  have b2: "blocks h2 = insert sa (blocks h)" "open_fds h2 = open_fds h" "os_ready env h2"
    using h2 assms(2) by (simp_all add: CPU_SETSIZE_def os_ready_def)
  have wa: "wa \<notin> blocks h2"
    using calloc_freshD w(1) b2(3) by (auto simp: os_ready_def)
  have "os_ready env (S_calloc (c_size_t n) SIZEOF_PTR (Some wa) # h2)"
    using b2(3) by (simp add: os_ready_def)
  note ws = fa_new_workers_Some [OF w(2) this, simplified]
  have d: "distinct (sa # wa # map fst ws)" "set (sa # wa # map fst ws) \<inter> blocks h = {}"
    using ws sa wa b2(1) by auto
  have "cpus \<noteq> []"
    by (rule fa_collect_cpus_spec(1) [OF cp]) (simp add: CPU_SETSIZE_def)
  then have "0 < n"
    by (simp add: n_def)
  show thesis
    by (rule that [of c f cpus]) (use c cp s ws b2 d \<open>0 < n\<close> in \<open>auto simp: n_def\<close>)
qed

lemma fa_server_new_None:
  assumes "fa_server_new env cfg handler user h = (None, h')" and "os_ready env h"
  shows "blocks h' = blocks h \<and> os_ready env h' \<and> open_fds h' = open_fds h"
proof (cases "\<exists>c f sa. cfg = Some c \<and> handler = Some f \<and> 0 < cfg_port c \<and>
    o_calloc env h 1 SIZEOF_FA_SERVER = Some sa")
  case False
  with assms show ?thesis
    by (auto simp: fa_server_new_def Let_def os_ready_def split: option.splits if_splits)
next
  case True
  then obtain c f sa where c: "cfg = Some c" "handler = Some f" "0 < cfg_port c"
      "o_calloc env h 1 SIZEOF_FA_SERVER = Some sa"
    by blast
  let ?h1 = "S_calloc 1 SIZEOF_FA_SERVER (Some sa) # h"
  obtain cpus h2 where cp: "fa_collect_cpus env CPU_SETSIZE ?h1 = (cpus, h2)"
    by (cases "fa_collect_cpus env CPU_SETSIZE ?h1")
  define n where "n = (if 0 < cfg_workers (fa_defaults c) then cfg_workers (fa_defaults c) else int (length cpus))"
  have sa: "sa \<notin> blocks h"
    using calloc_freshD c(4) assms(2) by (auto simp: os_ready_def)
  have b2: "blocks h2 = insert sa (blocks h)" "open_fds h2 = open_fds h" "os_ready env h2"
    using fa_collect_cpus_spec(3) [OF cp] assms(2) by (simp_all add: CPU_SETSIZE_def os_ready_def)
  show ?thesis
  proof (cases "o_calloc env h2 (c_size_t n) SIZEOF_PTR")
    case None
    with assms(1) c cp have "h' = S_free sa # S_calloc (c_size_t n) SIZEOF_PTR None # h2"
      by (simp add: fa_server_new_def Let_def n_def [symmetric] del: fa_defaults_simps)
    with b2 sa show ?thesis
      by (auto simp: os_ready_def)
  next
    case (Some wa)
    let ?h3 = "S_calloc (c_size_t n) SIZEOF_PTR (Some wa) # h2"
    from assms(1) c cp Some obtain h4 where
      h4: "fa_new_workers env (fa_defaults c) cpus (nat n) [] ?h3 = (None, h4)" "h' = S_free sa # S_free wa # h4"
      by (auto simp: fa_server_new_def Let_def n_def [symmetric] simp del: fa_defaults_simps
          split: option.splits prod.splits)
    have wa: "wa \<notin> blocks h2"
      using calloc_freshD Some b2(3) by (auto simp: os_ready_def)
    have "os_ready env ?h3"
      using b2(3) by (simp add: os_ready_def)
    note r = fa_new_workers_None [OF h4(1) this, simplified]
    from r h4(2) b2 sa wa show ?thesis
      by (auto simp: os_ready_def)
  qed
qed

subsection \<open>Freeing\<close>

lemma fa_server_free_blocks:
  assumes "distinct (srv_addr s # srv_workers_addr s # srv_worker_addrs s)"
    and "set (srv_addr s # srv_workers_addr s # srv_worker_addrs s) \<subseteq> blocks h" and "releases_valid h"
  shows "blocks (fa_server_free (Some s) h) = blocks h - set (srv_addr s # srv_workers_addr s # srv_worker_addrs s) \<and>
    releases_valid (fa_server_free (Some s) h)"
proof -
  have "releases_valid (free_each (srv_worker_addrs s) h)"
    using assms by (intro free_each_valid) auto
  with assms(1,2) show ?thesis
    by (auto simp: fa_server_free_def free_each_readings)
qed

end
