(* ===== verification/Server_Run.thy ===== *)
theory Server_Run
  imports Server_Inv
begin

text \<open>
  Running a server: the socket loop, the launch of the threads, what a thread leaves behind when
  it returns, and the teardown. \<open>server_ready\<close> is the state in which \<open>fa_server_run\<close> expects the
  server (\<open>fa_server_new\<close> establishes it).
\<close>

subsection \<open>Sockets\<close>

text \<open>\<open>with_socket w w'\<close>: the same worker up to its listening socket.\<close>

definition with_socket :: "fa_worker \<Rightarrow> fa_worker \<Rightarrow> bool" where
  "with_socket w w' \<longleftrightarrow> (\<exists>fd. w' = w\<lparr>w_listen_fd := fd\<rparr>)"

lemma with_socket_upd [simp]: "with_socket w (w\<lparr>w_listen_fd := fd\<rparr>)"
  by (auto simp: with_socket_def)

lemma idle_with_socket: "with_socket w w' \<Longrightarrow> idle s w' = idle s w"
  by (auto simp: with_socket_def idle_def)

lemma fa_open_sockets_ok:
  assumes "fa_open_sockets env c opened ws h = (True, ws', h')"
    and "fa_listen.made env h0 (map w_listen_fd opened) h"
  shows "fa_listen.made env h0 (map w_listen_fd ws') h' \<and>
    (\<exists>us. ws' = opened @ us \<and> list_all2 with_socket ws us)"
  using assms
proof (induction ws arbitrary: opened h)
  case (Cons w ws)
  obtain fd h1 where mk: "fa_make_listen_socket env (cfg_port c) (cfg_backlog c) h = (fd, h1)"
    by (cases "fa_make_listen_socket env (cfg_port c) (cfg_backlog c) h")
  with Cons.prems(1) have fd: "0 \<le> fd"
      and rec: "fa_open_sockets env c (opened @ [w\<lparr>w_listen_fd := fd\<rparr>]) ws h1 = (True, ws', h')"
    by (auto split: if_splits)
  have "fa_listen.made env h0 (map w_listen_fd (opened @ [w\<lparr>w_listen_fd := fd\<rparr>])) h1"
    using fa_listen.made_more [OF Cons.prems(2) mk fd] by simp
  from Cons.IH [OF rec this] show ?case
    by auto
qed simp

lemma fa_open_sockets_failed:
  assumes "fa_open_sockets env c opened ws h = (False, ws', h')"
    and "fa_listen.made env h0 (map w_listen_fd opened) h"
    and "list_all (\<lambda>w. w_listen_fd w = -1) ws"
  shows "open_fds h' = open_fds h0 \<and> blocks h' = blocks h0 \<and> os_ready env h' \<and>
    list_all (\<lambda>w. w_listen_fd w = -1) ws'"
  using assms
proof (induction ws arbitrary: opened h)
  case (Cons w ws)
  obtain fd h1 where mk: "fa_make_listen_socket env (cfg_port c) (cfg_backlog c) h = (fd, h1)"
    by (cases "fa_make_listen_socket env (cfg_port c) (cfg_backlog c) h")
  show ?case
  proof (cases "fd < 0")
    case True
    let ?h2 = "S_stderr ''flashaccept: failed to create listen socket'' # h1"
    have "fa_listen.made env h0 (map w_listen_fd opened) ?h2"
      using fa_listen.made_failed [OF Cons.prems(2) mk True]
      by (simp add: fa_listen.made_def os_ready_def)
    from fa_listen.made_undo [OF this] True mk Cons.prems(1,3) show ?thesis
      by (auto simp: list_all_iff)
  next
    case False
    with mk Cons.prems(1) have
      rec: "fa_open_sockets env c (opened @ [w\<lparr>w_listen_fd := fd\<rparr>]) ws h1 = (False, ws', h')"
      by simp
    have "fa_listen.made env h0 (map w_listen_fd (opened @ [w\<lparr>w_listen_fd := fd\<rparr>])) h1"
      using fa_listen.made_more [OF Cons.prems(2) mk] False by simp
    from Cons.IH [OF rec this] Cons.prems(3) show ?thesis
      by auto
  qed
qed simp

subsection \<open>Threads\<close>

lemma fa_start_threads_spec:
  assumes "fa_start_threads env n k h = (started, failed, h')"
  shows "k \<le> started \<and> started \<le> k + n \<and> (\<not> failed \<longrightarrow> started = k + n) \<and>
    open_fds h' = open_fds h \<and> blocks h' = blocks h \<and> (os_ready env h \<longrightarrow> os_ready env h')"
  using assms
proof (induction n arbitrary: k h)
  case (Suc n)
  let ?r = "o_pthread_create env h k"
  show ?case
  proof (cases "?r = 0")
    case True
    with Suc.prems Suc.IH [of "Suc k" "S_pthread_create k ?r # h"] show ?thesis
      by (auto simp: Let_def os_ready_def)
  next
    case False
    with Suc.prems show ?thesis
      by (auto simp: Let_def os_ready_def)
  qed
qed simp

lemma fa_ring_setup_idle:
  assumes "fa_ring_setup env s w = (ok, w')" and "idle s w"
  shows "idle s w'" and "w_listen_fd w' = w_listen_fd w"
  using assms by (auto simp: fa_ring_setup_def idle_def Let_def split: if_splits prod.splits)

text \<open>The loop keeps the listening socket.\<close>

interpretation fa_loop_fd: event_loop "fa_stopped env" "fa_loop_body env s"
  "\<lambda>w. contracts env s \<and> srv_ok s \<and> worker_inv env s [] w \<and> w_listen_fd w = l" "\<lambda>w. length (w_log w)"
proof (unfold_locales, goal_cases)
  case (1 w w')
  then show ?case
    using fa_loop.body_continues [of env s w w'] fa_loop_body_direct [of env s w w'] by auto
next
  case (2 w w')
  then have "w_listen_fd w' = w_listen_fd w"
    by (auto simp: fa_loop_body_def Let_def split: if_splits bind_splits)
  with 2 fa_loop.body_breaks [of env s w w'] show ?case
    by auto
next
  case (3 w)
  then show ?case
    using fa_loop.body_defined [of env s w] by auto
qed

lemma fa_worker_loop_exit:
  assumes "contracts env s" and "srv_ok s" and "idle s w" and "fa_worker_loop env s w = Some r"
  shows "\<exists>w'. r = Exited w' \<and> worker_inv env s [] w' \<and> w_listen_fd w' = w_listen_fd w"
proof -
  from loop_entry [OF contracts_malloc [OF assms(1)] assms(3)] obtain w1 where
    w1: "fa_warm env s FA_FREELIST_WARM w = Some w1" "same_worker w w1"
      "worker_inv env s [] (fa_arm_accept env s w1)"
    by blast
  have "w_listen_fd (fa_arm_accept env s w1) = w_listen_fd w"
    using w1(2) fa_arm_accept_frame [of w1 env s] by (simp add: same_worker_def)
  with w1 assms fa_loop_fd.exit_inv [of env s "fa_arm_accept env s w1" r "w_listen_fd w"]
  show ?thesis
    by (auto simp: fa_worker_loop_def)
qed

text \<open>A thread that returns leaves a worker with a partition of its connections.\<close>

lemma fa_thread_entry_exit:
  assumes "contracts env s" and "srv_ok s" and "idle s w" and "fa_thread_entry env s w = Some r"
  shows "\<exists>w'. r = Exited w' \<and> worker_inv env s [] w' \<and> w_listen_fd w' = w_listen_fd w"
proof -
  obtain ok w1 where rs: "fa_ring_setup env s w = (ok, w1)"
    by (cases "fa_ring_setup env s w")
  note w1 = fa_ring_setup_idle [OF rs assms(3)]
  show ?thesis
  proof (cases ok)
    case True
    with rs assms(4) have "fa_worker_loop env s w1 = Some r"
      by (simp add: fa_thread_entry_def)
    from fa_worker_loop_exit [OF assms(1,2) w1(1) this] w1(2) show ?thesis
      by simp
  next
    case False
    with rs assms(4) w1 idle_inv [OF w1(1), of env] show ?thesis
      by (auto simp: fa_thread_entry_def)
  qed
qed

lemma fa_thread_entry_returns:
  assumes "contracts env s" and "srv_ok s" and "idle s w"
    and "\<forall>h. n \<le> length h \<longrightarrow> e_stop env h"
  shows "\<exists>r. fa_thread_entry env s w = Some r"
proof -
  obtain ok w1 where rs: "fa_ring_setup env s w = (ok, w1)"
    by (cases "fa_ring_setup env s w")
  from fa_ring_setup_idle(1) [OF rs assms(3)] loop_entry [OF contracts_malloc [OF assms(1)]]
  obtain w2 where "fa_warm env s FA_FREELIST_WARM w1 = Some w2"
      "worker_inv env s [] (fa_arm_accept env s w2)"
    by blast
  with assms rs show ?thesis
    using fa_loop.returns [of env s "fa_arm_accept env s w2" n]
    by (auto simp: fa_thread_entry_def fa_worker_loop_def fa_stopped_def)
qed

subsection \<open>Teardown\<close>

text \<open>A drained worker: the objects of its freelist are freed, everything else is kept.\<close>

definition drained :: "addr list \<Rightarrow> fa_worker \<Rightarrow> fa_worker" where
  "drained fl w = w\<lparr>w_heap := w_heap w |` (- set fl), w_log := rev (map C_free fl) @ w_log w\<rparr>"

lemma drain_loop:
  assumes "cells (links fc_next (w_heap w)) p fl" and "distinct fl"
  shows "run_loop (\<lambda>(w, p). p = None) fa_drain_body (w, p) = Some (Exited (drained fl w, None))"
  using assms
proof (induction fl arbitrary: w p)
  case Nil
  then show ?case
    by (simp add: run_loop.simps drained_def restrict_map_def)
next
  case (Cons c fl)
  let ?w = "(call (C_free c) w)\<lparr>w_heap := (w_heap w)(c := None)\<rparr>"
  from Cons.prems(1) obtain q where q: "p = Some c" "links fc_next (w_heap w) c = Some q"
      "cells (links fc_next (w_heap w)) q fl"
    by auto
  then obtain obj where obj: "p = Some c" "w_heap w c = Some obj"
      "cells (links fc_next (w_heap w)) (fc_next obj) fl"
    by (auto simp: links_def [of _ _ c])
  have "cells (links fc_next (w_heap ?w)) (fc_next obj) fl"
    using obj(3) Cons.prems(2) by (subst cells_cong [where nx' = "links fc_next (w_heap w)"])
      (auto simp: links_def)
  from Cons.IH [OF this] Cons.prems(2) have
    "run_loop (\<lambda>(w, p). p = None) fa_drain_body (?w, fc_next obj) = Some (Exited (drained fl ?w, None))"
    by simp
  moreover have "(w_heap w)(c := None) |` (- set fl) = w_heap w |` (- set (c # fl))"
    by (auto simp: restrict_map_def fun_eq_iff)
  then have "drained fl ?w = drained (c # fl) w"
    by (simp add: drained_def call_def)
  ultimately show ?case
    using obj by (simp add: run_loop.simps [of _ _ "(w, Some c)"])
qed

lemma fa_drain_freelist_exit:
  assumes "freelist w fl" and "distinct fl"
  shows "fa_drain_freelist w = Some (Exited ((drained fl w)\<lparr>w_free_head := None\<rparr>))"
  using drain_loop assms by (simp add: fa_drain_freelist_def freelist_def)

lemma live_frees: "live (rev (map C_free fl) @ h) = live h - set fl"
  by (induction fl arbitrary: h rule: rev_induct) auto

lemma inflight_frees: "inflight (rev (map C_free fl) @ h) = inflight h"
  by (induction fl arbitrary: h rule: rev_induct) auto

lemma accepted_frees: "accepted (rev (map C_free fl) @ h) = accepted h"
  by (induction fl arbitrary: h rule: rev_induct) auto

lemma returned_frees: "returned d (rev (map C_free fl) @ h) = returned d h"
  by (induction fl arbitrary: h rule: rev_induct) auto

lemmas frees_readings = live_frees inflight_frees accepted_frees returned_frees

text \<open>
  What the teardown makes of a worker: ring and socket are gone, the freelist is empty; the
  objects still allocated are exactly those whose receive was in flight when the loop ended. The
  clients' descriptors stay as they were, except that a ring takes its direct descriptors with it.
\<close>

definition torn_down :: "fa_worker \<Rightarrow> fa_worker \<Rightarrow> bool" where
  "torn_down w w' \<longleftrightarrow> \<not> w_ring_ready w' \<and> w_listen_fd w' = min (w_listen_fd w) (-1) \<and>
     w_free_head w' = None \<and> live (w_log w') = set_mset (inflight (w_log w)) \<and>
     dom (w_heap w') = set_mset (inflight (w_log w)) \<and> w_direct w' = w_direct w \<and>
     inflight (w_log w') = inflight (w_log w) \<and> accepted (w_log w') = accepted (w_log w) \<and>
     open_clients (w_direct w) (w_log w') =
       (if w_direct w \<and> w_ring_ready w then {#} else open_clients (w_direct w) (w_log w))"

lemma own_split:
  assumes "own {#} {#} w" and "freelist w fl"
  shows "distinct fl" and "live (w_log w) - set fl = set_mset (inflight (w_log w))"
    and "dom (w_heap w) - set fl = set_mset (inflight (w_log w))"
proof -
  note eq = own_partition [OF assms]
  show "distinct fl"
    by (rule mset_set_distinct [OF eq(1)])
  have "set fl \<inter> set_mset (inflight (w_log w)) = {}"
    using mset_set_unionD(3) [OF eq] by simp
  moreover have "set fl \<union> set_mset (inflight (w_log w)) = dom (w_heap w)"
    using arg_cong [OF eq(1), of set_mset] eq(2) by simp
  moreover have "live (w_log w) = dom (w_heap w)"
    using assms(1) by (auto simp: own_def owned_def)
  ultimately show "live (w_log w) - set fl = set_mset (inflight (w_log w))"
    and "dom (w_heap w) - set fl = set_mset (inflight (w_log w))"
    by blast+
qed

lemma fa_teardown_exit:
  assumes "list_all (own {#} {#}) ws"
  shows "\<exists>ws'. fa_teardown ws h =
      Some (Exited (ws', close_each (filter (\<lambda>fd. 0 \<le> fd) (map w_listen_fd ws)) h)) \<and>
    list_all2 torn_down ws ws'"
  using assms
proof (induction ws arbitrary: h)
  case (Cons w ws)
  define v where "v = (if w_ring_ready w then (call C_queue_exit w)\<lparr>w_ring_ready := False\<rparr> else w)"
  define u where "u = (if 0 \<le> w_listen_fd v then v\<lparr>w_listen_fd := -1\<rparr> else v)"
  have u: "w_listen_fd u = min (w_listen_fd w) (-1)" "w_heap u = w_heap w" "w_direct u = w_direct w"
      "w_free_head u = w_free_head w" "\<not> w_ring_ready u" "inflight (w_log u) = inflight (w_log w)"
      "accepted (w_log u) = accepted (w_log w)"
      "open_clients (w_direct w) (w_log u) = (if w_direct w \<and> w_ring_ready w then {#} else open_clients (w_direct w) (w_log w))"
      "live (w_log u) = live (w_log w)" "w_listen_fd v = w_listen_fd w"
    by (auto simp: u_def v_def open_clients_def)
  from Cons.prems have own: "own {#} {#} w"
    by simp
  then obtain fl where fl: "freelist w fl"
    using own_freelist by blast
  then have "freelist u fl"
    using u by (simp add: freelist_def)
  with own_split [OF own fl] have
    drain: "fa_drain_freelist u = Some (Exited ((drained fl u)\<lparr>w_free_head := None\<rparr>))"
    by (intro fa_drain_freelist_exit)
  have "torn_down w ((drained fl u)\<lparr>w_free_head := None\<rparr>)"
    using u own_split [OF own fl] by (auto simp: torn_down_def drained_def frees_readings open_clients_def)
  moreover obtain ws' where "fa_teardown ws (if 0 \<le> w_listen_fd w then S_close (w_listen_fd w) # h else h) =
      Some (Exited (ws', close_each (filter (\<lambda>fd. 0 \<le> fd) (map w_listen_fd (w # ws))) h))"
    "list_all2 torn_down ws ws'"
    using Cons.IH [of "if 0 \<le> w_listen_fd w then S_close (w_listen_fd w) # h else h"] Cons.prems
    by (auto split: if_splits)
  ultimately show ?case
    using drain u(10)
    by (simp add: Let_def v_def [symmetric]) (auto simp: u_def split: if_splits)
qed simp

subsection \<open>Joining\<close>

lemma fa_join_threads_exit:
  assumes "fa_join_threads tenv s k ws h = Some r" and "\<forall>i. contracts (tenv i) s" and "srv_ok s"
    and "list_all (idle s) ws"
  shows "\<exists>ws' h'. r = Exited (ws', h') \<and> list_all2 (\<lambda>i w. worker_inv (tenv i) s [] w) [k ..< k + length ws] ws' \<and>
    map w_listen_fd ws' = map w_listen_fd ws \<and> open_fds h' = open_fds h \<and> blocks h' = blocks h \<and>
    (os_ready env h \<longrightarrow> os_ready env h')"
  using assms(1,4)
proof (induction ws arbitrary: k h r)
  case (Cons w ws)
  from Cons.prems(1) obtain r1 where r1: "fa_thread_entry (tenv k) s w = Some r1"
    by (auto split: option.splits)
  from fa_thread_entry_exit [OF _ assms(3) _ this] Cons.prems(2) assms(2) obtain w' where
    w': "r1 = Exited w'" "worker_inv (tenv k) s [] w'" "w_listen_fd w' = w_listen_fd w"
    by auto
  with Cons.prems(1) r1 obtain r2 where r2: "fa_join_threads tenv s (Suc k) ws (S_pthread_join k # h) = Some r2"
    by (auto split: option.splits)
  from Cons.IH [OF this] Cons.prems(2) obtain ws' h' where
    ws': "r2 = Exited (ws', h')" "list_all2 (\<lambda>i w. worker_inv (tenv i) s [] w) [Suc k ..< Suc k + length ws] ws'"
      "map w_listen_fd ws' = map w_listen_fd ws" "open_fds h' = open_fds h" "blocks h' = blocks h"
      "os_ready env h \<longrightarrow> os_ready env h'"
    by (auto simp: os_ready_def)
  have "[k ..< k + length (w # ws)] = k # [Suc k ..< Suc k + length ws]"
    by (simp add: upt_conv_Cons del: upt_Suc)
  with w' ws' r1 r2 Cons.prems(1) show ?case
    by auto
qed auto

lemma fa_join_threads_returns:
  assumes "\<forall>i. contracts (tenv i) s" and "srv_ok s" and "list_all (idle s) ws"
    and "\<forall>i h. n \<le> length h \<longrightarrow> e_stop (tenv i) h"
  shows "\<exists>r. fa_join_threads tenv s k ws h = Some r"
  using assms(3)
proof (induction ws arbitrary: k h)
  case (Cons w ws)
  with assms obtain r1 where r1: "fa_thread_entry (tenv k) s w = Some r1"
    using fa_thread_entry_returns [of "tenv k" s w n] by auto
  from fa_thread_entry_exit [OF _ assms(2) _ this] Cons.prems assms(1) obtain w' where "r1 = Exited w'"
    by auto
  moreover from Cons obtain r2 where "fa_join_threads tenv s (Suc k) ws (S_pthread_join k # h) = Some r2"
    by fastforce
  ultimately show ?case
    using r1 by (auto split: loop_exit.splits)
qed simp

text \<open>The state \<open>fa_server_run\<close> starts from.\<close>

definition server_ready :: "'u fa_handle \<Rightarrow> bool" where
  "server_ready s \<longleftrightarrow> srv_ok (fa_server.truncate s) \<and> srv_workers s \<noteq> [] \<and>
     srv_nworkers s = int (length (srv_workers s)) \<and>
     list_all (\<lambda>w. idle (fa_server.truncate s) w \<and> w_listen_fd w = -1) (srv_workers s)"

text \<open>Every worker's surroundings keep the contracts, with the server's own handler.\<close>

definition threads_ok :: "(nat \<Rightarrow> fa_env) \<Rightarrow> 'u fa_handle \<Rightarrow> bool" where
  "threads_ok tenv s \<longleftrightarrow> (\<forall>i. contracts (thread_env tenv s i) (fa_server.truncate s))"

lemma truncate_simps [simp]:
  "srv_cfg (fa_server.truncate s) = srv_cfg s"
  "srv_conn_size (fa_server.truncate s) = srv_conn_size s"
  by (simp_all add: fa_server.defs)

lemma idle_cong: "srv_cfg s = srv_cfg s' \<Longrightarrow> idle s w = idle s' w"
  by (simp add: idle_def)

lemma srv_ok_cong: "srv_cfg s = srv_cfg s' \<Longrightarrow> srv_conn_size s = srv_conn_size s' \<Longrightarrow> srv_ok s = srv_ok s'"
  by (simp add: srv_ok_def)

lemma contracts_cong: "srv_cfg s = srv_cfg s' \<Longrightarrow> contracts env s = contracts env s'"
  by (simp add: contracts_def)

lemma thread_env_workers [simp]: "thread_env tenv (s\<lparr>srv_workers := ws\<rparr>) i = thread_env tenv s i"
  by (simp add: thread_env_def)

subsection \<open>The whole run\<close>

lemma raise_nofile_readings [simp]:
  "open_fds (fa_raise_nofile env h) = open_fds h" "blocks (fa_raise_nofile env h) = blocks h"
  "os_ready env' (fa_raise_nofile env h) = os_ready env' h"
  by (simp_all add: fa_raise_nofile_def os_ready_def Let_def split: prod.splits)

text \<open>A worker the server is done with.\<close>

definition finished :: "fa_worker \<Rightarrow> bool" where
  "finished w \<longleftrightarrow> \<not> w_ring_ready w \<and> w_listen_fd w = -1 \<and> w_free_head w = None \<and>
     live (w_log w) = set_mset (inflight (w_log w))"

lemma torn_down_finished: "torn_down w w' \<Longrightarrow> -1 \<le> w_listen_fd w \<Longrightarrow> finished w'"
  by (simp add: torn_down_def finished_def)

lemma list_all2_with_socket_idle:
  "list_all2 with_socket ws us \<Longrightarrow> list_all (idle s) ws \<Longrightarrow> list_all (idle s) us"
  by (induction rule: list_all2_induct) (auto simp: idle_with_socket)

lemma teardown_restores:
  assumes "fa_listen.made env h0 (map w_listen_fd ws) h" and "list_all (own {#} {#}) ws"
  shows "\<exists>ws' h'. fa_teardown ws h = Some (Exited (ws', h')) \<and> list_all finished ws' \<and>
    length ws' = length ws \<and> open_fds h' = open_fds h0 \<and> blocks h' = blocks h0 \<and> os_ready env h'"
proof -
  have fds: "\<forall>w \<in> set ws. 0 \<le> w_listen_fd w"
    using assms(1) by (auto simp: fa_listen.made_def)
  then have "filter (\<lambda>fd. 0 \<le> fd) (map w_listen_fd ws) = map w_listen_fd ws"
    by (auto simp: filter_id_conv)
  with fa_teardown_exit [OF assms(2), of h] obtain ws' where
    ws': "fa_teardown ws h = Some (Exited (ws', close_each (map w_listen_fd ws) h))"
      "list_all2 torn_down ws ws'"
    by auto
  have "list_all finished ws'"
    using ws'(2) fds by (induction rule: list_all2_induct) (auto intro: torn_down_finished)
  with ws' fa_listen.made_undo [OF assms(1)] show ?thesis
    by (auto dest: list_all2_lengthD)
qed

text \<open>The run from the moment the threads are started.\<close>

lemma join_and_teardown:
  assumes "fa_listen.made env h0 (map w_listen_fd ws) h" and "list_all (idle s) ws"
    and "\<forall>i. contracts (tenv i) s" and "srv_ok s" and "fa_join_threads tenv s 0 (take st ws) h = Some r"
  shows "\<exists>ws1 h1 ws2 h2. r = Exited (ws1, h1) \<and> fa_teardown (ws1 @ drop st ws) h1 = Some (Exited (ws2, h2)) \<and>
    list_all finished ws2 \<and> length ws2 = length ws \<and> open_fds h2 = open_fds h0 \<and>
    blocks h2 = blocks h0 \<and> os_ready env h2"
proof -
  have "list_all (idle s) (take st ws)"
    using assms(2) by (auto simp: list_all_iff dest: in_set_takeD)
  with fa_join_threads_exit [OF assms(5,3,4)] obtain ws1 h1 where
    ws1: "r = Exited (ws1, h1)"
      "list_all2 (\<lambda>i w. worker_inv (tenv i) s [] w) [0 ..< 0 + length (take st ws)] ws1"
      "map w_listen_fd ws1 = map w_listen_fd (take st ws)" "open_fds h1 = open_fds h"
      "blocks h1 = blocks h" "os_ready env h \<longrightarrow> os_ready env h1"
    by blast
  have "list_all (own {#} {#}) ws1"
    using ws1(2) by (rule list_all2_list_all) (simp add: worker_inv_def)
  moreover have "list_all (own {#} {#}) (drop st ws)"
    using assms(2) idle_inv by (fastforce simp: list_all_iff worker_inv_def dest: in_set_dropD)
  ultimately have own: "list_all (own {#} {#}) (ws1 @ drop st ws)"
    by simp
  have "map w_listen_fd (ws1 @ drop st ws) = map w_listen_fd ws"
    using ws1(3) by (metis append_take_drop_id map_append)
  then have "fa_listen.made env h0 (map w_listen_fd (ws1 @ drop st ws)) h1"
    using assms(1) ws1 by (simp add: fa_listen.made_def)
  moreover have "length (ws1 @ drop st ws) = length ws"
    using list_all2_lengthD [OF ws1(2)] by simp
  ultimately show ?thesis
    using teardown_restores [OF _ own] ws1(1) by fastforce
qed

text \<open>The state after the socket loop.\<close>

lemma open_phase:
  assumes "server_ready s" and "os_ready env h"
    and "fa_open_sockets env (srv_cfg s) [] (srv_workers s) (fa_raise_nofile env h) = (ok, ws, h')"
  shows "if ok then fa_listen.made env h (map w_listen_fd ws) h' \<and> list_all (idle (fa_server.truncate s)) ws \<and>
      length ws = length (srv_workers s)
    else open_fds h' = open_fds h \<and> blocks h' = blocks h \<and> os_ready env h' \<and>
      list_all (\<lambda>w. w_listen_fd w = -1) ws"
proof -
  have made: "fa_listen.made env h (map w_listen_fd []) (fa_raise_nofile env h)"
    using assms(2) by (simp add: fa_listen.made_def)
  have idle: "list_all (idle (fa_server.truncate s)) (srv_workers s)"
      "list_all (\<lambda>w. w_listen_fd w = -1) (srv_workers s)"
    using assms(1) by (auto simp: server_ready_def list_all_iff)
  show ?thesis
  proof (cases ok)
    case True
    with fa_open_sockets_ok [OF _ made] assms(3) have
      "fa_listen.made env h (map w_listen_fd ws) h'" and "list_all2 with_socket (srv_workers s) ws"
      by auto
    with True idle list_all2_with_socket_idle show ?thesis
      by (auto dest: list_all2_lengthD)
  next
    case False
    with fa_open_sockets_failed [OF _ made idle(2)] assms(3) show ?thesis
      by auto
  qed
qed

text \<open>The three ways in which the run can end.\<close>

lemma fa_server_run_joins:
  assumes "server_ready s" and "threads_ok tenv s" and "os_ready env h"
    and so: "fa_open_sockets env (srv_cfg s) [] (srv_workers s) (fa_raise_nofile env h) = (True, ws, h1)"
    and th: "fa_start_threads env (length ws) 0 h1 = (st, failed, h2)" and "st \<noteq> 0"
    and run: "fa_server_run env tenv (Some s) h = Some r"
  obtains ws2 h4 where
      "r = Exited (0, Some (s\<lparr>srv_workers := ws2, srv_stop := srv_stop s \<or> failed \<or> o_stop env h4\<rparr>), h4)"
      "list_all finished ws2" "length ws2 = length ws" "open_fds h4 = open_fds h" "blocks h4 = blocks h" "os_ready env h4"
proof -
  note phase = open_phase [OF assms(1,3) so] and th' = fa_start_threads_spec [OF th]
  let ?u = "s\<lparr>srv_workers := ws\<rparr>"
  from so th assms(6) run obtain rj where
    join: "fa_join_threads (thread_env tenv ?u) (fa_server.truncate ?u) 0 (take st ws) h2 = Some rj"
    by (auto simp: fa_server_run_def Let_def split: option.splits)
  have "\<forall>i. contracts (thread_env tenv ?u i) (fa_server.truncate ?u)" "srv_ok (fa_server.truncate ?u)"
      "list_all (idle (fa_server.truncate ?u)) ws"
    using assms(1,2) phase contracts_cong [of "fa_server.truncate ?u" "fa_server.truncate s"]
      srv_ok_cong [of "fa_server.truncate ?u" "fa_server.truncate s"]
      idle_cong [of "fa_server.truncate ?u" "fa_server.truncate s"]
    by (simp_all add: threads_ok_def server_ready_def list_all_iff)
  moreover have "fa_listen.made env h (map w_listen_fd ws) h2"
    using phase th' by (auto simp: fa_listen.made_def)
  ultimately obtain ws1 h3 ws2 h4 where
    fin: "rj = Exited (ws1, h3)" "fa_teardown (ws1 @ drop st ws) h3 = Some (Exited (ws2, h4))"
      "list_all finished ws2" "length ws2 = length ws" "open_fds h4 = open_fds h"
      "blocks h4 = blocks h" "os_ready env h4"
    using join_and_teardown [OF _ _ _ _ join] by blast
  have "r = Exited (0, Some (s\<lparr>srv_workers := ws2, srv_stop := srv_stop s \<or> failed \<or> o_stop env h4\<rparr>), h4)"
    using assms(6) so th join run fin by (cases failed) (simp_all add: fa_server_run_def Let_def)
  with fin(3-7) show thesis
    by (intro that)
qed

lemma fa_server_run_cases:
  assumes "server_ready s" and "threads_ok tenv s" and "os_ready env h"
    and "fa_server_run env tenv (Some s) h = Some r"
  obtains (no_socket) s' h' where "r = Exited (-1, Some s', h')"
      "open_fds h' = open_fds h" "blocks h' = blocks h" "os_ready env h'"
      "list_all (\<lambda>w. w_listen_fd w = -1) (srv_workers s')" "srv_stop s' = srv_stop s"
      "\<not> fst (fa_open_sockets env (srv_cfg s) [] (srv_workers s) (fa_raise_nofile env h))"
  | (no_thread) s' h' where "r = Exited (-1, Some s', h')" "srv_stop s'"
      "fa_listen.made env h (map w_listen_fd (srv_workers s')) h'"
      "length (srv_workers s') = length (srv_workers s)"
      "\<exists>h1 h2. fa_start_threads env (length (srv_workers s)) 0 h1 = (0, True, h2)"
  | (ran) s' h' where "r = Exited (0, Some s', h')"
      "open_fds h' = open_fds h" "blocks h' = blocks h" "os_ready env h'"
      "list_all finished (srv_workers s')" "length (srv_workers s') = length (srv_workers s)"
      "\<exists>st failed h1 h2. fa_start_threads env (length (srv_workers s)) 0 h1 = (st, failed, h2) \<and>
         0 < st \<and> srv_stop s' = (srv_stop s \<or> failed \<or> o_stop env h')"
proof -
  obtain ok ws h1 where so: "fa_open_sockets env (srv_cfg s) [] (srv_workers s) (fa_raise_nofile env h) = (ok, ws, h1)"
    by (metis prod_cases3)
  note phase = open_phase [OF assms(1,3) so]
  obtain st failed h2 where th: "fa_start_threads env (length ws) 0 h1 = (st, failed, h2)"
    by (metis prod_cases3)
  note th' = fa_start_threads_spec [OF th]
  consider "\<not> ok" | "ok" "st = 0" | "ok" "st \<noteq> 0"
    by blast
  then show thesis
  proof cases
    case 1
    with so phase assms(4) show ?thesis
      by (intro no_socket [of "s\<lparr>srv_workers := ws\<rparr>" h1]) (auto simp: fa_server_run_def Let_def)
  next
    case 2
    have failed
      using 2 th' phase assms(1) by (auto simp: server_ready_def)
    with 2 so th th' phase assms(4) show ?thesis
      by (intro no_thread [of "s\<lparr>srv_workers := ws, srv_stop := True\<rparr>" h2])
        (auto simp: fa_server_run_def fa_listen.made_def Let_def)
  next
    case 3
    then have ok: "fa_open_sockets env (srv_cfg s) [] (srv_workers s) (fa_raise_nofile env h) = (True, ws, h1)"
      using so by simp
    obtain ws2 h4 where fin:
      "r = Exited (0, Some (s\<lparr>srv_workers := ws2, srv_stop := srv_stop s \<or> failed \<or> o_stop env h4\<rparr>), h4)"
      "list_all finished ws2" "length ws2 = length ws" "open_fds h4 = open_fds h" "blocks h4 = blocks h" "os_ready env h4"
      by (rule fa_server_run_joins [OF assms(1-3) ok th 3(2) assms(4)])
    have "length ws = length (srv_workers s)" "0 < st"
      using phase 3 by auto
    with fin th show ?thesis
      by (intro ran [OF fin(1)]) auto
  qed
qed

text \<open>The run ends once every worker sees the stop flag.\<close>

lemma fa_server_run_returns:
  assumes "server_ready s" and "threads_ok tenv s" and "os_ready env h"
    and "\<forall>i h. n \<le> length h \<longrightarrow> e_stop (tenv i) h"
  shows "\<exists>r. fa_server_run env tenv (Some s) h = Some r"
proof -
  obtain ok ws h1 where so: "fa_open_sockets env (srv_cfg s) [] (srv_workers s) (fa_raise_nofile env h) = (ok, ws, h1)"
    by (metis prod_cases3)
  note phase = open_phase [OF assms(1,3) so]
  obtain st failed h2 where th: "fa_start_threads env (length ws) 0 h1 = (st, failed, h2)"
    by (metis prod_cases3)
  show ?thesis
  proof (cases ok)
    case True
    let ?u = "s\<lparr>srv_workers := ws\<rparr>"
    have ok: "\<forall>i. contracts (thread_env tenv ?u i) (fa_server.truncate ?u)" "srv_ok (fa_server.truncate ?u)"
        "list_all (idle (fa_server.truncate ?u)) ws"
      using True assms(1,2) phase contracts_cong [of "fa_server.truncate ?u" "fa_server.truncate s"]
        srv_ok_cong [of "fa_server.truncate ?u" "fa_server.truncate s"]
        idle_cong [of "fa_server.truncate ?u" "fa_server.truncate s"]
      by (simp_all add: threads_ok_def server_ready_def list_all_iff)
    moreover have "list_all (idle (fa_server.truncate ?u)) (take st ws)"
      using ok(3) by (auto simp: list_all_iff dest: in_set_takeD)
    moreover have "\<forall>i h. n \<le> length h \<longrightarrow> e_stop (thread_env tenv ?u i) h"
      using assms(4) by (simp add: thread_env_def)
    ultimately obtain rj where
      join: "fa_join_threads (thread_env tenv ?u) (fa_server.truncate ?u) 0 (take st ws) h2 = Some rj"
      using fa_join_threads_returns by blast
    have "fa_listen.made env h (map w_listen_fd ws) h2"
      using True phase fa_start_threads_spec [OF th] by (auto simp: fa_listen.made_def)
    from join_and_teardown [OF this ok(3,1,2) join] True so th join show ?thesis
      by (auto simp: fa_server_run_def Let_def)
  qed (use so in \<open>simp add: fa_server_run_def\<close>)
qed

text \<open>Pre-warming is always defined and accepts nothing, whatever the state.\<close>

lemma fa_warm_total: "\<exists>w'. fa_warm env s n w = Some w' \<and> accepted (w_log w') = accepted (w_log w)"
proof (induction n arbitrary: w)
  case (Suc n)
  obtain p w1 where m: "conn_malloc env s w = (p, w1)"
    by (cases "conn_malloc env s w")
  then have "accepted (w_log w1) = accepted (w_log w)" and "\<forall>a. p = Some a \<longrightarrow> w_heap w1 a \<noteq> None"
    by (auto simp: conn_malloc_def Let_def split: option.splits)
  then obtain w2 where w2: "(case p of None \<Rightarrow> Some w1 | Some c \<Rightarrow> fa_conn_free c w1) = Some w2"
      "accepted (w_log w2) = accepted (w_log w)"
    by (cases p) (auto simp: fa_conn_free_def)
  with Suc [of w2] m show ?case by simp
qed simp

lemma fa_arm_accept_accepted: "accepted (w_log (fa_arm_accept env s w)) = accepted (w_log w)"
proof -
  obtain ok w1 where acq: "acquire_sqe env w = (ok, w1)"
    by (cases "acquire_sqe env w")
  with acquire_sqe_readings(3) [OF acq] show ?thesis
    by (simp add: fa_arm_accept_def Let_def)
qed

text \<open>A run leaves the server where it is.\<close>

lemma fa_server_run_addrs:
  assumes "fa_server_run env tenv (Some s) h = Some (Exited (rc, Some s', h'))"
  shows "srv_addr s' = srv_addr s \<and> srv_workers_addr s' = srv_workers_addr s \<and>
    srv_worker_addrs s' = srv_worker_addrs s"
  using assms
  by (auto simp: fa_server_run_def Let_def split: prod.splits if_splits option.splits loop_exit.splits)

text \<open>A new server is ready to run, and its workers have made no call yet.\<close>

lemma fa_server_new_server_ready:
  assumes "fa_server_new env (Some c) handler user h = (Some s, h')" and "os_ready env h"
    and "cfg_recv_buf c \<le> INT_MAX" and "cfg_reply_cap c \<le> INT_MAX"
  shows "server_ready s" and "srv_cfg s = fa_defaults c" and "handler = Some (srv_handler s)"
    and "\<forall>w \<in> set (srv_workers s). w_log w = []" and "\<not> srv_stop s"
proof -
  have "server_ready s \<and> srv_cfg s = fa_defaults c \<and> handler = Some (srv_handler s) \<and>
    (\<forall>w \<in> set (srv_workers s). w_log w = []) \<and> \<not> srv_stop s"
  proof (rule fa_server_new_Some [OF assms(1,2)], goal_cases)
    case (1 c' f cpus)
    have "srv_ok (fa_server.truncate s)"
      using 1(1,5,9) assms(3,4) by (auto simp: srv_ok_def INT_MAX_def)
    moreover have "idle (fa_server.truncate s) w \<and> w_listen_fd w = -1 \<and> w_log w = []"
      if "w \<in> set (srv_workers s)" for w
      using that 1(5) unfolding 1(11) by (auto simp: idle_def fa_new_worker_def)
    moreover have "srv_workers s \<noteq> [] \<and> srv_nworkers s = int (length (srv_workers s))"
      using 1(18) unfolding 1(11) by simp
    ultimately show ?case
      using 1(1,2,5,6,8) by (simp add: server_ready_def list_all_iff)
  qed
  then show "server_ready s" and "srv_cfg s = fa_defaults c" and "handler = Some (srv_handler s)"
    and "\<forall>w \<in> set (srv_workers s). w_log w = []" and "\<not> srv_stop s"
    by auto
qed

end
