(* ===== verification/Server_Props.thy ===== *)
theory Server_Props
  imports Server_Run Reply_Props
begin

text \<open>
  The properties of the server handle: creation, listening sockets, running, teardown, stopping,
  and where they fall short. The witnesses use an operating system that gives the lowest unused
  descriptor above all earlier ones, unused addresses, and two CPUs.
\<close>

subsection \<open>A concrete operating system\<close>

fun next_fd :: "os_history \<Rightarrow> int" where
  "next_fd [] = 3"
| "next_fd (S_socket fd # h) = max (fd + 1) (next_fd h)"
| "next_fd (_ # h) = next_fd h"

fun next_block :: "os_history \<Rightarrow> addr" where
  "next_block [] = 0"
| "next_block (S_calloc n m (Some a) # h) = max (Suc a) (next_block h)"
| "next_block (_ # h) = next_block h"

lemma open_below: "fd \<in> open_fds h \<Longrightarrow> fd < next_fd h"
  by (induction h rule: next_fd.induct) (auto split: if_splits)

lemma blocks_below: "a \<in> blocks h \<Longrightarrow> a < next_block h"
  by (induction h rule: next_block.induct) auto

definition ref_os :: os_env where
  "ref_os =
     \<lparr>o_socket = next_fd, o_setsockopt = \<lambda>h opt. 0, o_bind = \<lambda>h port. 0, o_listen = \<lambda>h. 0,
      o_calloc = \<lambda>h n m. Some (next_block h), o_getrlimit = \<lambda>h. (0, 1024, 4096),
      o_affinity = \<lambda>h. (0, \<lambda>cpu. cpu = 1 \<or> cpu = 3), o_pthread_create = \<lambda>h i. 0,
      o_stop = \<lambda>h. True, o_sizeof_worker = 400\<rparr>"

lemma ref_os_ready: "releases_valid h \<Longrightarrow> os_ready ref_os h"
  using open_below blocks_below
  by (fastforce simp: os_ready_def sockets_fresh_def calloc_fresh_def ref_os_def)

text \<open>An operating system on which something fails.\<close>

lemma os_ready_fails:
  assumes "os_ready ref_os h"
  shows "os_ready (ref_os\<lparr>o_bind := b\<rparr>) h" "os_ready (ref_os\<lparr>o_pthread_create := t\<rparr>) h"
    "os_ready (ref_os\<lparr>o_calloc := \<lambda>h n m. if n = 2 then None else Some (next_block h)\<rparr>) h"
  using assms blocks_below
  by (fastforce simp: os_ready_def sockets_fresh_def calloc_fresh_def ref_os_def)+

definition demo_handle :: "nat \<Rightarrow> unit fa_handle" where
  "demo_handle n = \<lparr>srv_cfg = demo_cfg, srv_conn_size = 24, srv_nworkers = int n,
     srv_workers = replicate n (fa_new_worker demo_cfg 1), srv_stop = False,
     srv_handler = \<lambda>u h. echo_back, srv_user = (), srv_addr = 0, srv_workers_addr = 1,
     srv_worker_addrs = map (\<lambda>i. i + 2) [0 ..< n]\<rparr>"

abbreviation quiet :: "nat \<Rightarrow> fa_env" where
  "quiet i \<equiv> ref_env (\<lambda>h. []) (\<lambda>h. 500 \<le> length h) echo_back"

lemma demo_handle_ready: "0 < n \<Longrightarrow> server_ready (demo_handle n)"
  by (auto simp: server_ready_def demo_handle_def srv_ok_def demo_cfg_def INT_MAX_def is_c_int_def
      SIZEOF_FA_CONN_def idle_def fa_new_worker_def list_all_iff fa_server.defs)

lemma demo_threads_ok: "threads_ok quiet (demo_handle n)"
proof -
  have "contracts (quiet i) (fa_server.truncate (demo_handle n))" for i
    by (rule echo_contracts)
  then show ?thesis
    by (simp add: threads_ok_def thread_env_def contracts_def malloc_fresh_def kernel_ok_def
        handler_ok_def demo_handle_def) (simp add: ref_env_def)
qed

lemma quiet_stops: "\<forall>i h. 500 \<le> length h \<longrightarrow> e_stop (quiet i) h"
  by (simp add: ref_env_def)

lemma ref_os_creates:
  assumes "0 < cfg_port c"
  shows "\<exists>s h'. fa_server_new ref_os (Some c) (Some f) u h = (Some s, h')"
proof -
  have ws: "fa_new_workers ref_os c cpus n acc h \<noteq> (None, h')" for c cpus n acc h h'
    by (induction n arbitrary: acc h) (simp_all add: ref_os_def)
  have al: "o_calloc ref_os h n m = Some (next_block h)" for h n m
    by (simp add: ref_os_def)
  obtain p h' where p: "fa_server_new ref_os (Some c) (Some f) u h = (p, h')"
    by (cases "fa_server_new ref_os (Some c) (Some f) u h")
  moreover have "p \<noteq> None"
    using p assms al by (auto simp: fa_server_new_def ws Let_def split: prod.splits option.splits)
  ultimately show ?thesis by auto
qed

subsection \<open>Creation\<close>

text \<open>
  C16. A server that \<open>fa_server_new\<close> returns is ready to run: the defaults are filled in, the
  connection size is the one the workers' memory safety relies on, there is at least one worker,
  as many as counted, and each is idle, without a socket, and has a reply scratch of the
  configured capacity.
\<close>

theorem server_new_ready:
  assumes "fa_server_new env (Some c) handler user h = (Some s, h')" and "os_ready env h"
    and "cfg_recv_buf c \<le> INT_MAX" and "cfg_reply_cap c \<le> INT_MAX"
  shows "server_ready s \<and> srv_cfg s = fa_defaults c \<and> \<not> srv_stop s"
  using fa_server_new_server_ready [OF assms] by simp

theorem server_new_ready_witness:
  "\<exists>s h'. fa_server_new ref_os (Some demo_cfg) (Some (\<lambda>u h. echo_back)) () [] = (Some s, h') \<and> server_ready s"
proof -
  obtain s h' where "fa_server_new ref_os (Some demo_cfg) (Some (\<lambda>u h. echo_back)) () [] = (Some s, h')"
    using ref_os_creates [of demo_cfg "\<lambda>u h. echo_back" "()" "[]"] by (auto simp: demo_cfg_def)
  with server_new_ready [OF this ref_os_ready] show ?thesis
    by (auto simp: demo_cfg_def INT_MAX_def)
qed

text \<open>
  C17. By default there is one worker per CPU the process may run on, each pinned to a different
  one: the CPUs of the workers are exactly the CPUs of the affinity mask, in order.
\<close>

theorem one_worker_per_cpu:
  assumes "fa_server_new env (Some c) handler user h = (Some s, h')" and "os_ready env h"
    and "cfg_workers c \<le> 0" and "\<forall>h. o_affinity env h = (0, aff)"
    and "\<exists>cpu < CPU_SETSIZE. aff cpu"
  shows "map w_cpu (srv_workers s) = map int (filter aff [0 ..< CPU_SETSIZE])"
proof (rule fa_server_new_Some [OF assms(1,2)], goal_cases)
  case (1 c' f cpus)
  have "length (filter aff [0 ..< CPU_SETSIZE]) \<le> CPU_SETSIZE"
    using length_filter_le [of aff "[0 ..< CPU_SETSIZE]"] by simp
  moreover have "filter aff [0 ..< CPU_SETSIZE] \<noteq> []"
    using assms(5) by (auto simp: filter_empty_conv)
  ultimately have cpus: "cpus = map int (filter aff [0 ..< CPU_SETSIZE])"
    unfolding 1(4) using assms(4)
    by (simp add: fa_collect_cpus_def collect_loop_filter Let_def) (simp add: CPU_SETSIZE_def)
  have "map w_cpu (srv_workers s) = map (\<lambda>i. cpus ! (i mod length cpus)) [0 ..< length cpus]"
    unfolding 1(11) using 1(1,10) assms(3) by (simp add: fa_new_worker_def)
  also have "\<dots> = map ((!) cpus) [0 ..< length cpus]"
    by (rule map_cong) auto
  also have "\<dots> = cpus"
    by (rule map_nth)
  finally show ?thesis
    by (simp add: cpus)
qed

theorem one_worker_per_cpu_witness:
  "\<exists>s h'. fa_server_new ref_os (Some (demo_cfg\<lparr>cfg_workers := 0\<rparr>)) (Some (\<lambda>u h. echo_back)) () [] = (Some s, h')
     \<and> map w_cpu (srv_workers s) = map int (filter (\<lambda>cpu. cpu = 1 \<or> cpu = 3) [0 ..< CPU_SETSIZE])"
proof -
  let ?c = "demo_cfg\<lparr>cfg_workers := 0\<rparr>"
  obtain s h' where s: "fa_server_new ref_os (Some ?c) (Some (\<lambda>u h. echo_back)) () [] = (Some s, h')"
    using ref_os_creates [of ?c "\<lambda>u h. echo_back" "()" "[]"] by (auto simp: demo_cfg_def)
  have "\<forall>h. o_affinity ref_os h = (0, \<lambda>cpu. cpu = 1 \<or> cpu = 3)" "cfg_workers ?c \<le> 0"
      "\<exists>cpu < CPU_SETSIZE. cpu = 1 \<or> cpu = 3"
    by (auto simp: ref_os_def CPU_SETSIZE_def intro: exI [of _ 3])
  with s one_worker_per_cpu [OF s ref_os_ready, of "\<lambda>cpu. cpu = 1 \<or> cpu = 3"] show ?thesis
    by auto
qed

text \<open>
  C18. Creating a server is balanced, on every path. A failed creation leaves nothing behind:
  whenever \<open>fa_server_new\<close> returns NULL (a NULL argument, a bad port, no memory for the server, for
  the array or for any of the workers), every block it allocated has been freed exactly once. And
  \<open>fa_server_free\<close> frees exactly the blocks a successful creation allocated, each once; on NULL it
  does nothing.
\<close>

theorem server_new_balanced:
  assumes "fa_server_new env cfg handler user h = (p, h')" and "os_ready env h"
  shows "(p = None \<longrightarrow> blocks h' = blocks h \<and> releases_valid h') \<and>
    blocks (fa_server_free p h') = blocks h \<and> releases_valid (fa_server_free p h')"
proof (cases p)
  case None
  with fa_server_new_None [of env cfg handler user h h'] assms show ?thesis
    by (simp add: os_ready_def fa_server_free_def)
next
  case (Some s)
  with assms(1) have new: "fa_server_new env cfg handler user h = (Some s, h')"
    by simp
  show ?thesis
  proof (rule fa_server_new_Some [OF new assms(2)], goal_cases)
    case 1
    with Some fa_server_free_blocks [of s h'] show ?case
      by (auto simp: os_ready_def)
  qed
qed

theorem server_new_balanced_witness:
  "(\<exists>h'. fa_server_new (ref_os\<lparr>o_calloc := \<lambda>h n m. if n = 2 then None else Some (next_block h)\<rparr>)
     (Some (demo_cfg\<lparr>cfg_workers := 2\<rparr>)) (Some (\<lambda>u h. echo_back)) () [] = (None, h') \<and> h' \<noteq> [] \<and> blocks h' = {}) \<and>
   (\<exists>s h'. fa_server_new ref_os (Some demo_cfg) (Some (\<lambda>u h. echo_back)) () [] = (Some s, h') \<and>
     srv_addr s \<in> blocks h' \<and> blocks (fa_server_free (Some s) h') = {})"
proof
  let ?os = "ref_os\<lparr>o_calloc := \<lambda>h n m. if n = 2 then None else Some (next_block h)\<rparr>"
  obtain h' where h': "fa_server_new ?os (Some (demo_cfg\<lparr>cfg_workers := 2\<rparr>)) (Some (\<lambda>u h. echo_back)) () [] = (None, h')"
      "h' \<noteq> []"
    by (simp add: fa_server_new_def demo_cfg_def Let_def c_size_t_def take_bit_int_eq_self case_prod_unfold)
  with server_new_balanced [OF h'(1)] os_ready_fails(3) [OF ref_os_ready [of "[]"]]
  show "\<exists>h'. fa_server_new ?os (Some (demo_cfg\<lparr>cfg_workers := 2\<rparr>)) (Some (\<lambda>u h. echo_back)) () [] = (None, h') \<and>
      h' \<noteq> [] \<and> blocks h' = {}"
    by auto
next
  obtain s h' where s: "fa_server_new ref_os (Some demo_cfg) (Some (\<lambda>u h. echo_back)) () [] = (Some s, h')"
    using ref_os_creates [of demo_cfg "\<lambda>u h. echo_back" "()" "[]"] by (auto simp: demo_cfg_def)
  moreover have "srv_addr s \<in> blocks h'"
    by (rule fa_server_new_Some [OF s ref_os_ready]) auto
  ultimately show "\<exists>s h'. fa_server_new ref_os (Some demo_cfg) (Some (\<lambda>u h. echo_back)) () [] = (Some s, h') \<and>
      srv_addr s \<in> blocks h' \<and> blocks (fa_server_free (Some s) h') = {}"
    using server_new_balanced [OF s ref_os_ready] by auto
qed

subsection \<open>Sockets\<close>

text \<open>
  C20. A listening socket is set up completely and in order: reusable address, reusable port, bound
  to the port on all interfaces, listening with the given backlog, every step successful. The
  port is taken modulo \<open>2\<^sup>1\<^sup>6\<close>: a configured port above 65535 is not rejected but silently becomes
  another port.
\<close>

theorem listen_socket_bound:
  assumes "fa_make_listen_socket env port backlog h = (fd, h')" and "0 \<le> fd"
  shows "\<exists>r1 r2 r3 r4. 0 \<le> r1 \<and> 0 \<le> r2 \<and> 0 \<le> r3 \<and> 0 \<le> r4 \<and>
    h' = [S_listen fd backlog r4, S_bind fd (port mod 65536) r3, S_setsockopt fd SO_REUSEPORT r2,
      S_setsockopt fd SO_REUSEADDR r1, S_socket fd] @ h"
  using assms
  by (auto simp: fa_make_listen_socket_def Let_def c_ushort_def take_bit_eq_mod split: if_splits)

theorem listen_socket_bound_witness:
  "\<exists>h'. fa_make_listen_socket ref_os 65616 4096 [] = (3, h') \<and> S_bind 3 80 0 \<in> set h'"
proof -
  obtain h' where h': "fa_make_listen_socket ref_os 65616 4096 [] = (3, h')"
    by (simp add: fa_make_listen_socket_def ref_os_def Let_def)
  from listen_socket_bound [OF h'] h' show ?thesis
    by (auto simp: fa_make_listen_socket_def ref_os_def Let_def)
qed

subsection \<open>Running\<close>

text \<open>
  C21. When a listening socket cannot be made, \<open>fa_server_run\<close> returns -1 without starting a
  thread, and every socket opened for an earlier worker has been closed exactly once: no
  descriptor stays open and no worker keeps a stale one.
\<close>

theorem run_socket_failure:
  assumes "server_ready s" and "os_ready env h"
    and "\<not> fst (fa_open_sockets env (srv_cfg s) [] (srv_workers s) (fa_raise_nofile env h))"
  shows "\<exists>s' h'. fa_server_run env tenv (Some s) h = Some (Exited (-1, Some s', h')) \<and>
    open_fds h' = open_fds h \<and> releases_valid h' \<and> (\<forall>w \<in> set (srv_workers s'). w_listen_fd w = -1)"
proof -
  obtain ok ws h1 where so: "fa_open_sockets env (srv_cfg s) [] (srv_workers s) (fa_raise_nofile env h) = (ok, ws, h1)"
    by (metis prod_cases3)
  with assms(3) open_phase [OF assms(1,2) so] show ?thesis
    by (auto simp: fa_server_run_def os_ready_def list_all_iff)
qed

theorem run_socket_failure_witness:
  "\<exists>s' h'. fa_server_run (ref_os\<lparr>o_bind := \<lambda>h port. if S_socket 4 \<in> set h then -98 else 0\<rparr>) quiet
      (Some (demo_handle 2)) [] = Some (Exited (-1, Some s', h')) \<and> open_fds h' = {}"
proof -
  let ?os = "ref_os\<lparr>o_bind := \<lambda>h port. if S_socket 4 \<in> set h then -98 else 0\<rparr>"
  have "\<not> fst (fa_open_sockets ?os (srv_cfg (demo_handle 2)) [] (srv_workers (demo_handle 2)) (fa_raise_nofile ?os []))"
    by (simp add: demo_handle_def numeral_2_eq_2 fa_make_listen_socket_def fa_raise_nofile_def ref_os_def Let_def)
  from run_socket_failure [OF demo_handle_ready os_ready_fails(1) [OF ref_os_ready] this, of quiet]
  show ?thesis by auto
qed

text \<open>
  C22. A run comes to an end and cleans up: if the sockets can be opened and the first thread
  starts, then once every worker sees the stop flag \<open>fa_server_run\<close> returns 0, all listening
  sockets are closed exactly once, every ring is torn down, the freelists are freed, and what is
  still allocated are the connections that were waiting for a request.
\<close>

theorem run_completes:
  assumes "server_ready s" and "threads_ok tenv s" and "os_ready env h"
    and "fst (fa_open_sockets env (srv_cfg s) [] (srv_workers s) (fa_raise_nofile env h))"
    and "\<forall>h. o_pthread_create env h 0 = 0" and "\<forall>i h. n \<le> length h \<longrightarrow> e_stop (tenv i) h"
  shows "\<exists>s' h'. fa_server_run env tenv (Some s) h = Some (Exited (0, Some s', h')) \<and>
    open_fds h' = open_fds h \<and> releases_valid h' \<and> length (srv_workers s') = length (srv_workers s) \<and>
    (\<forall>w \<in> set (srv_workers s'). finished w)"
proof -
  from fa_server_run_returns [OF assms(1-3,6)] obtain r where
    r: "fa_server_run env tenv (Some s) h = Some r" ..
  from assms(1-3) r show ?thesis
  proof (cases rule: fa_server_run_cases)
    case (no_thread s' h')
    obtain k where "length (srv_workers s) = Suc k"
      using assms(1) by (cases "srv_workers s") (auto simp: server_ready_def)
    moreover have "fa_start_threads env (Suc k) 0 h1 \<noteq> (0, True, h2)" for h1 h2
      using assms(5) fa_start_threads_spec [of env k "Suc 0" "S_pthread_create 0 0 # h1"]
      by (fastforce simp: Let_def)
    ultimately show ?thesis
      using no_thread by auto
  qed (use assms(4) r in \<open>auto simp: os_ready_def list_all_iff\<close>)
qed

theorem run_completes_witness:
  "\<exists>s' h'. fa_server_run ref_os quiet (Some (demo_handle 1)) [] = Some (Exited (0, Some s', h')) \<and>
     open_fds h' = {} \<and> (\<forall>w \<in> set (srv_workers s'). finished w)"
proof -
  have "fst (fa_open_sockets ref_os (srv_cfg (demo_handle 1)) [] (srv_workers (demo_handle 1)) (fa_raise_nofile ref_os []))"
    by (simp add: demo_handle_def fa_make_listen_socket_def fa_raise_nofile_def ref_os_def Let_def)
  moreover have "\<forall>h. o_pthread_create ref_os h 0 = 0"
    by (simp add: ref_os_def)
  ultimately show ?thesis
    using run_completes [OF demo_handle_ready demo_threads_ok ref_os_ready _ _ quiet_stops, of 1 "[]"]
    by auto
qed

lemma fa_start_threads_fails:
  assumes "\<forall>h j. k \<le> j \<longrightarrow> j < i \<longrightarrow> o_pthread_create env h j = 0" and "\<forall>h. o_pthread_create env h i \<noteq> 0"
    and "k \<le> i" and "i < k + n"
  shows "\<exists>h'. fa_start_threads env n k h = (i, True, h')"
  using assms
proof (induction n arbitrary: k h)
  case (Suc n)
  show ?case
  proof (cases "k = i")
    case True
    with Suc.prems(2) show ?thesis
      by (simp add: Let_def)
  next
    case False
    with Suc.prems Suc.IH [of "Suc k"] show ?thesis
      by (simp add: Let_def)
  qed
qed simp

text \<open>
  C23. What happens when a thread cannot be created, the one of worker \<open>i\<close> being the first. If it is
  the very first, \<open>fa_server_run\<close> returns -1 but leaves the listening sockets of all workers open: unlike
  the failure of a socket, this path closes nothing. If others were started before, the run is
  called off (the stop flag is set) and everything is closed, but it returns 0, the value documented
  for a clean stop, although the server failed to start.
\<close>

theorem run_thread_failure:
  assumes "server_ready s" and "threads_ok tenv s" and "os_ready env h"
    and "fst (fa_open_sockets env (srv_cfg s) [] (srv_workers s) (fa_raise_nofile env h))"
    and "i < length (srv_workers s)" and "\<forall>h. \<forall>j < i. o_pthread_create env h j = 0"
    and "\<forall>h. o_pthread_create env h i \<noteq> 0" and "\<forall>j h. n \<le> length h \<longrightarrow> e_stop (tenv j) h"
  shows "\<exists>s' h'. fa_server_run env tenv (Some s) h = Some (Exited (if i = 0 then -1 else 0, Some s', h')) \<and> srv_stop s' \<and>
    (if i = 0
     then \<exists>fds. open_fds h' = set fds \<union> open_fds h \<and> set fds \<inter> open_fds h = {} \<and> distinct fds \<and>
       length fds = length (srv_workers s)
     else open_fds h' = open_fds h)"
proof -
  have th: "\<exists>h2. fa_start_threads env (length (srv_workers s)) 0 h1 = (i, True, h2)" for h1
    using assms(5-7) by (intro fa_start_threads_fails) auto
  from fa_server_run_returns [OF assms(1-3,8)] obtain r where
    r: "fa_server_run env tenv (Some s) h = Some r" ..
  from assms(1-3) r show ?thesis
  proof (cases rule: fa_server_run_cases)
    case (no_thread s' h')
    then have "i = 0"
      using th by (metis prod.inject)
    moreover have "\<exists>fds. open_fds h' = set fds \<union> open_fds h \<and> set fds \<inter> open_fds h = {} \<and> distinct fds \<and>
        length fds = length (srv_workers s)"
      using no_thread(3,4) by (intro exI [of _ "map w_listen_fd (srv_workers s')"]) (simp add: fa_listen.made_def)
    ultimately show ?thesis
      using no_thread(1,2) r by auto
  next
    case (ran s' h')
    then have "i \<noteq> 0" "srv_stop s'"
      using th by (metis prod.inject less_irrefl)+
    then show ?thesis
      using ran(1,2) r by auto
  qed (use assms(4) in auto)
qed

theorem run_thread_failure_witness:
  "(\<exists>s' h' fds. fa_server_run (ref_os\<lparr>o_pthread_create := \<lambda>h i. 11\<rparr>) quiet (Some (demo_handle 2)) [] =
     Some (Exited (-1, Some s', h')) \<and> open_fds h' = set fds \<and> distinct fds \<and> length fds = 2) \<and>
   (\<exists>s' h'. fa_server_run (ref_os\<lparr>o_pthread_create := \<lambda>h i. if i = 0 then 0 else 11\<rparr>) quiet
     (Some (demo_handle 2)) [] = Some (Exited (0, Some s', h')) \<and> srv_stop s')"
proof -
  let ?never = "ref_os\<lparr>o_pthread_create := \<lambda>h i. 11\<rparr>" and ?once = "ref_os\<lparr>o_pthread_create := \<lambda>h i. if i = 0 then 0 else 11\<rparr>"
  have sock: "fst (fa_open_sockets (ref_os\<lparr>o_pthread_create := c\<rparr>) (srv_cfg (demo_handle 2)) [] (srv_workers (demo_handle 2))
      (fa_raise_nofile (ref_os\<lparr>o_pthread_create := c\<rparr>) []))" for c
    by (simp add: demo_handle_def numeral_2_eq_2 fa_make_listen_socket_def fa_raise_nofile_def ref_os_def Let_def)
  have two: "length (srv_workers (demo_handle 2)) = 2"
    by (simp add: demo_handle_def)
  note ready = demo_handle_ready demo_threads_ok os_ready_fails(2) [OF ref_os_ready] sock
  from run_thread_failure [where env = ?never and i = 0, OF ready _ _ _ quiet_stops] two
  have "\<exists>s' h' fds. fa_server_run ?never quiet (Some (demo_handle 2)) [] = Some (Exited (-1, Some s', h')) \<and>
      open_fds h' = set fds \<and> distinct fds \<and> length fds = 2"
    by fastforce
  moreover from run_thread_failure [where env = ?once and i = 1, OF ready _ _ _ quiet_stops] two
  have "\<exists>s' h'. fa_server_run ?once quiet (Some (demo_handle 2)) [] = Some (Exited (0, Some s', h')) \<and> srv_stop s'"
    by fastforce
  ultimately show ?thesis
    by blast
qed

subsection \<open>Teardown and stopping\<close>

text \<open>
  C25. The teardown frees the connections on the freelist, each once, but not those still waiting
  for a request: their objects stay allocated. Their descriptors depend on the mode: a ring with a
  direct descriptor table takes all of its clients' descriptors with it, but the regular descriptors
  of waiting clients are never closed: those open before the teardown are open after it.
\<close>

theorem teardown_leaks_inflight:
  assumes "list_all (own {#} {#}) ws"
  shows "\<exists>ws' h'. fa_teardown ws h = Some (Exited (ws', h')) \<and>
    list_all2 (\<lambda>w w'. live (w_log w') = set_mset (inflight (w_log w)) \<and> w_free_head w' = None \<and>
      open_clients (w_direct w) (w_log w') =
        (if w_direct w \<and> w_ring_ready w then {#} else open_clients (w_direct w) (w_log w))) ws ws'"
proof -
  from fa_teardown_exit [OF assms] obtain ws' where
    "fa_teardown ws h = Some (Exited (ws', close_each (filter (\<lambda>fd. 0 \<le> fd) (map w_listen_fd ws)) h))"
    "list_all2 torn_down ws ws'"
    by blast
  then show ?thesis
    by (auto simp: torn_down_def elim: list_all2_mono)
qed

text \<open>A worker that stopped with one spare connection and one client that has not sent anything.\<close>

definition waiting_client :: fa_worker where
  "waiting_client = (demo_worker False)\<lparr>w_free_head := Some 1,
     w_heap := [
       0 \<mapsto> \<lparr>fc_next = None, fc_state = FA_ST_RECV, fc_fd = 5, fc_buf = [], fc_room = 24\<rparr>,
       1 \<mapsto> \<lparr>fc_next = None, fc_state = FA_ST_RECV, fc_fd = 0, fc_buf = [], fc_room = 24\<rparr>],
     w_log := [C_prep ((prep_recv 5 0 8)\<lparr>sqe_flags := {}, sqe_user_data := UConn 0\<rparr>),
       C_peek [accept_done 5 True], C_malloc 24 (Some 1), C_malloc 24 (Some 0)]\<rparr>"

theorem teardown_leaks_inflight_witness:
  "\<exists>w' h'. fa_teardown [waiting_client] [] = Some (Exited ([w'], h')) \<and> live (w_log w') = {0} \<and>
     open_clients False (w_log w') = {#5#}"
proof -
  have "own {#} {#} waiting_client"
    unfolding own_def
    by (rule owned_I [of _ _ _ "[1]"])
      (auto simp: waiting_client_def accept_done_def links_def demo_worker_def split: if_splits)
  then have "list_all (own {#} {#}) [waiting_client]"
    by simp
  from teardown_leaks_inflight [OF this, of "[]"] obtain ws' h' where
    "fa_teardown [waiting_client] [] = Some (Exited (ws', h'))"
    "list_all2 (\<lambda>w w'. live (w_log w') = set_mset (inflight (w_log w)) \<and> w_free_head w' = None \<and>
      open_clients (w_direct w) (w_log w') =
        (if w_direct w \<and> w_ring_ready w then {#} else open_clients (w_direct w) (w_log w))) [waiting_client] ws'"
    by blast
  then show ?thesis
    unfolding list_all2_Cons1 by (auto simp: waiting_client_def accept_done_def demo_worker_def open_clients_def)
qed

text \<open>
  The stop flag is never cleared: a server that was stopped once can be run again only to
  stop at once. Every thread it starts returns without having waited for a connection, let alone
  accepted one. (The comment on the teardown says that the server can be re-run.)
\<close>

lemma stopped_server_accepts_nothing:
  assumes "srv_stop s"
  shows "\<exists>w'. fa_thread_entry (thread_env tenv s i) t w = Some (Exited w') \<and>
    accepted (w_log w') = accepted (w_log w)"
proof -
  let ?env = "thread_env tenv s i"
  have stop: "e_stop ?env h" for h
    using assms by (simp add: thread_env_def)
  obtain ok w1 where rs: "fa_ring_setup ?env t w = (ok, w1)"
    by (cases "fa_ring_setup ?env t w")
  then have a1: "accepted (w_log w1) = accepted (w_log w)"
    by (auto simp: fa_ring_setup_def Let_def split: if_splits prod.splits)
  obtain w2 where "fa_warm ?env t FA_FREELIST_WARM w1 = Some w2" "accepted (w_log w2) = accepted (w_log w1)"
    using fa_warm_total by blast
  with a1 rs stop show ?thesis
    by (auto simp: fa_thread_entry_def fa_worker_loop_def run_loop.simps fa_stopped_def
        fa_arm_accept_accepted)
qed

end
