(* ===== verification/C_Args.thy ===== *)
theory C_Args
  imports Prelude
begin

text \<open>
  What the programs use of the C library to read their command lines: \<open>atoi\<close> as \<open>strtol\<close> with
  base 10 (leading white space, an optional sign, digits up to the first other character,
  saturation at the bounds of \<open>long\<close>) converted to \<open>int\<close>. Printing a number and reading it back
  gives the number.
\<close>

definition c_isspace :: "char \<Rightarrow> bool" where
  "c_isspace c \<longleftrightarrow> c \<in> {CHR '' '', CHR 0x09, CHR 0x0A, CHR 0x0B, CHR 0x0C, CHR 0x0D}"

definition digit_val :: "char \<Rightarrow> int" where
  "digit_val c = int (of_char c) - 48"

definition c_isdigit :: "char \<Rightarrow> bool" where
  "c_isdigit c \<longleftrightarrow> 0 \<le> digit_val c \<and> digit_val c \<le> 9"

fun read_digits :: "string \<Rightarrow> int \<Rightarrow> int" where
  "read_digits [] acc = acc"
| "read_digits (c # cs) acc =
     (if c_isdigit c then read_digits cs (acc * 10 + digit_val c) else acc)"

definition LONG_MAX :: int where "LONG_MAX = 2 ^ 63 - 1"

definition strtol10 :: "string \<Rightarrow> int" where
  "strtol10 s =
     (let s = dropWhile c_isspace s;
          v = (case s of
                 c # cs \<Rightarrow> if c = CHR ''-'' then - read_digits cs 0
                          else if c = CHR ''+'' then read_digits cs 0
                          else read_digits s 0
               | [] \<Rightarrow> 0)
      in max (- LONG_MAX - 1) (min LONG_MAX v))"

definition atoi :: "string \<Rightarrow> int" where
  "atoi s = c_int (strtol10 s)"

lemma atoi_range: "is_c_int (atoi s)"
  by (simp add: atoi_def c_int_range)

subsection \<open>Printing and reading\<close>

definition digit_char :: "nat \<Rightarrow> char" where
  "digit_char d = char_of (48 + d)"

fun print_nat :: "nat \<Rightarrow> string" where
  "print_nat n = (if n < 10 then [digit_char n] else print_nat (n div 10) @ [digit_char (n mod 10)])"

declare print_nat.simps [simp del]

definition print_int :: "int \<Rightarrow> string" where
  "print_int x = (if x < 0 then CHR ''-'' # print_nat (nat (- x)) else print_nat (nat x))"

lemma digit_char_val: "d < 10 \<Longrightarrow> digit_val (digit_char d) = int d"
  by (simp add: digit_val_def digit_char_def of_char_of)

lemma digit_char_digit: "d < 10 \<Longrightarrow> c_isdigit (digit_char d)"
  by (simp add: c_isdigit_def digit_char_val)

lemma read_digits_append:
  "list_all c_isdigit xs \<Longrightarrow> read_digits (xs @ ys) acc = read_digits ys (read_digits xs acc)"
  by (induction xs arbitrary: acc) auto

lemma print_nat_digits: "list_all c_isdigit (print_nat n)"
  by (induction n rule: print_nat.induct) (subst print_nat.simps, simp add: digit_char_digit)

lemma read_print_nat: "read_digits (print_nat n) 0 = int n"
proof (induction n rule: print_nat.induct)
  case (1 n)
  show ?case
  proof (cases "n < 10")
    case True
    then show ?thesis
      by (simp add: print_nat.simps [of n] digit_char_digit digit_char_val)
  next
    case False
    with 1 have "read_digits (print_nat (n div 10)) 0 = int (n div 10)"
      by simp
    moreover have "int (n div 10) * 10 + int (n mod 10) = int n"
      by presburger
    ultimately show ?thesis
      using False by (simp add: print_nat.simps [of n] read_digits_append print_nat_digits digit_char_digit
          digit_char_val)
  qed
qed

lemma print_nat_not_empty: "print_nat n \<noteq> []"
  by (subst print_nat.simps) simp

lemma digit_not_other: "c_isdigit c \<Longrightarrow> \<not> c_isspace c \<and> c \<noteq> CHR ''-'' \<and> c \<noteq> CHR ''+''"
  by (auto simp: c_isdigit_def c_isspace_def digit_val_def)

lemma print_nat_first:
  obtains c cs where "print_nat n = c # cs" and "c_isdigit c"
  using print_nat_not_empty [of n] print_nat_digits [of n] by (cases "print_nat n") auto

lemma strtol_print: "- LONG_MAX - 1 \<le> x \<Longrightarrow> x \<le> LONG_MAX \<Longrightarrow> strtol10 (print_int x) = x"
proof -
  assume range: "- LONG_MAX - 1 \<le> x" "x \<le> LONG_MAX"
  obtain c cs where c: "print_nat (nat \<bar>x\<bar>) = c # cs" "c_isdigit c"
    by (rule print_nat_first)
  have "read_digits (c # cs) 0 = \<bar>x\<bar>"
    using read_print_nat [of "nat \<bar>x\<bar>"] c by simp
  with c digit_not_other [OF c(2)] range show ?thesis
    by (cases "x < 0") (auto simp: strtol10_def print_int_def c_isspace_def)
qed

lemma atoi_print: "is_c_int x \<Longrightarrow> atoi (print_int x) = x"
  by (simp add: atoi_def strtol_print is_c_int_def LONG_MAX_def)

end
