(* ===== verification/Echo.thy ===== *)
theory Echo
  imports Server_Props C_Args
begin

text \<open>
  The example server \<open>examples/echo_server.c\<close>: its handler, command line, signal handler and main
  function, on top of the library's server.
\<close>

subsection \<open>The program\<close>

definition ECHO_REPLY :: bytes where
  "ECHO_REPLY = ''HTTP/1.1 200 OK'' @ [CHR 0x0D, CHR 0x0A, CHR 0x0D, CHR 0x0A]"

definition echo_handler :: "unit fa_handler" where
  "echo_handler user h req cap =
     (let n = int (length ECHO_REPLY); n = (if cap < n then cap else n)
      in (take (c_size_t n) ECHO_REPLY, n))"

record echo_opts =
  eo_port :: int
  eo_multishot :: int
  eo_direct :: int

definition echo_defaults :: echo_opts where
  "echo_defaults = \<lparr>eo_port = 12480, eo_multishot = 1, eo_direct = 1\<rparr>"

fun echo_parse :: "string list \<Rightarrow> echo_opts \<Rightarrow> echo_opts" where
  "echo_parse (a # b # rest) opts =
     (if a = ''--port'' then echo_parse rest (opts\<lparr>eo_port := atoi b\<rparr>)
      else if a = ''--multishot'' then echo_parse rest (opts\<lparr>eo_multishot := atoi b\<rparr>)
      else if a = ''--direct'' then echo_parse rest (opts\<lparr>eo_direct := atoi b\<rparr>)
      else echo_parse (b # rest) opts)"
| "echo_parse _ opts = opts"

definition echo_config :: "echo_opts \<Rightarrow> fa_config" where
  "echo_config opts = \<lparr>cfg_port = eo_port opts, cfg_workers = 0, cfg_backlog = 0, cfg_recv_buf = 0,
     cfg_reply_cap = 0, cfg_multishot = eo_multishot opts, cfg_direct_files = eo_direct opts\<rparr>"

definition on_signal :: "unit fa_handle option \<Rightarrow> unit fa_handle option" where
  "on_signal g = fa_server_stop g"

definition echo_main ::
  "os_env \<Rightarrow> (nat \<Rightarrow> fa_env) \<Rightarrow> string list \<Rightarrow> os_history \<Rightarrow> (int \<times> os_history) loop_exit option" where
  "echo_main env tenv argv h =
     (let opts = echo_parse (tl argv) echo_defaults;
          (g, h) = fa_server_new env (Some (echo_config opts)) (Some echo_handler) () h
      in case g of
           None \<Rightarrow> Some (Exited (1, S_stderr ''echo_server: failed to create server'' # h))
         | Some s \<Rightarrow>
             (case fa_server_run env tenv (Some s)
                (S_stderr ''echo_server: listening'' # S_signal ''SIGTERM'' # S_signal ''SIGINT'' # h) of
                None \<Rightarrow> None
              | Some Undefined \<Rightarrow> Some Undefined
              | Some (Exited (rc, g, h)) \<Rightarrow> Some (Exited (rc, fa_server_free g h))))"

subsection \<open>Properties\<close>

lemma echo_created:
  assumes "fa_server_new env (Some (echo_config opts)) (Some echo_handler) () h = (Some s, h')"
    and "os_ready env h" and "malloc_fresh (tenv i)" and "kernel_ok (tenv i)"
  shows "const_server (thread_env tenv s i) (fa_server.truncate s) ECHO_REPLY" and "server_ready s"
    and "\<forall>w \<in> set (srv_workers s). w_log w = []"
proof -
  let ?env = "thread_env tenv s i" and ?t = "fa_server.truncate s"
  note new = fa_server_new_server_ready [OF assms(1,2)]
  have bounds: "cfg_recv_buf (echo_config opts) \<le> INT_MAX" "cfg_reply_cap (echo_config opts) \<le> INT_MAX"
    by (simp_all add: echo_config_def INT_MAX_def)
  then show "server_ready s" and "\<forall>w \<in> set (srv_workers s). w_log w = []"
    using new by simp_all
  have cfg: "cfg_reply_cap (srv_cfg s) = 2048" "srv_handler s = echo_handler"
    using new(2,3) bounds by (auto simp: echo_config_def)
  have const: "const_handler ?env 2048 ECHO_REPLY"
    using cfg(2) by (simp add: const_handler_def thread_env_def echo_handler_def ECHO_REPLY_def)
  then have "contracts ?env ?t"
    using assms(3,4) cfg
    by (simp add: contracts_def malloc_fresh_def kernel_ok_def handler_ok_def const_handler_def)
      (simp add: thread_env_def ECHO_REPLY_def)
  with const cfg new(1) bounds show "const_server ?env ?t ECHO_REPLY"
    by (simp add: const_server_def server_ready_def ECHO_REPLY_def)
qed

text \<open>
  The example server sends what its comment promises: every payload that any of its workers
  ever puts on the wire is exactly the 19 bytes of the reply, for every command line, every
  kernel and any number of clients per batch.
\<close>

lemma echo_payload:
  assumes "fa_server_new env (Some (echo_config opts)) (Some echo_handler) () h = (Some s, h')"
    and "os_ready env h" and "w \<in> set (srv_workers s)"
    and "malloc_fresh (tenv i)" and "kernel_ok (tenv i)"
    and "fa_ring_setup (thread_env tenv s i) (fa_server.truncate s) w = (True, w1)"
    and "fa_heads (thread_env tenv s i) (fa_server.truncate s) w1 v"
    and "p \<in> set (transmitted (w_log v))"
  shows "snd p = ECHO_REPLY"
proof -
  let ?env = "thread_env tenv s i" and ?t = "fa_server.truncate s"
  note new = echo_created [OF assms(1,2), of tenv i, OF assms(4,5)]
  have "idle ?t w" "w_log w = []"
    using assms(3) new(2,3) by (auto simp: server_ready_def list_all_iff)
  with fa_ring_setup_idle [OF assms(6)] have "idle ?t w1" "transmitted (w_log w1) = []"
    using assms(6) by (auto simp: fa_ring_setup_def Let_def split: if_splits prod.splits)
  from heads_uniform [OF new(1) this assms(7)] assms(8) show ?thesis
    by (simp add: uniform_def)
qed

text \<open>
  The command line is read as documented: options may be mixed with other words before them,
  and every value that fits an \<open>int\<close>, written in decimal, is the value used.
\<close>

lemma echo_command_line:
  assumes "is_c_int p" and "is_c_int m" and "is_c_int d"
    and "set words \<inter> {''--port'', ''--multishot'', ''--direct''} = {}"
  shows "echo_parse (words @ [''--port'', print_int p, ''--multishot'', print_int m, ''--direct'', print_int d])
    echo_defaults = \<lparr>eo_port = p, eo_multishot = m, eo_direct = d\<rparr>"
proof -
  have "echo_parse (words @ a # b # rest) opts = echo_parse (a # b # rest) opts" for a b rest opts
    using assms(4)
  proof (induction words)
    case (Cons w ws)
    then show ?case by (cases ws) auto
  qed simp
  with assms(1-3) show ?thesis
    by (simp add: atoi_print echo_defaults_def)
qed

text \<open>
  C29. The main thread of the example program is balanced: once the stop flag is seen by the
  workers, main returns; every block the creation of the server allocated (the server, its array of
  workers, the workers) has been freed exactly once; the exit code is 1 exactly when no server could
  be created; and unless it is -1, the listening sockets are all closed. This is not all a run
  leaves behind: connection objects of clients whose request has not come are not freed (C25),
  and if no thread could be started the listening sockets stay open (C23).
\<close>

theorem echo_main_balanced:
  assumes "os_ready env h" and "\<forall>i. malloc_fresh (tenv i) \<and> kernel_ok (tenv i)"
    and "\<forall>i h. n \<le> length h \<longrightarrow> e_stop (tenv i) h"
  shows "\<exists>rc h'. echo_main env tenv argv h = Some (Exited (rc, h')) \<and> blocks h' = blocks h \<and>
    releases_valid h' \<and> rc \<in> {0, -1, 1} \<and> (rc = -1 \<or> open_fds h' = open_fds h) \<and>
    (rc = 1 \<longleftrightarrow> fst (fa_server_new env (Some (echo_config (echo_parse (tl argv) echo_defaults)))
       (Some echo_handler) () h) = None)"
proof -
  let ?opts = "echo_parse (tl argv) echo_defaults"
  obtain g h1 where new: "fa_server_new env (Some (echo_config ?opts)) (Some echo_handler) () h = (g, h1)"
    by (cases "fa_server_new env (Some (echo_config ?opts)) (Some echo_handler) () h")
  show ?thesis
  proof (cases g)
    case None
    with new have n: "fa_server_new env (Some (echo_config ?opts)) (Some echo_handler) () h = (None, h1)"
      by simp
    from fa_server_new_None [OF n assms(1)] n show ?thesis
      by (simp add: echo_main_def os_ready_def)
  next
    case (Some s)
    let ?h = "S_stderr ''echo_server: listening'' # S_signal ''SIGTERM'' # S_signal ''SIGINT'' # h1"
    have s: "fa_server_new env (Some (echo_config ?opts)) (Some echo_handler) () h = (Some s, h1)"
      using new Some by simp
    have "const_server (thread_env tenv s i) (fa_server.truncate s) ECHO_REPLY" "server_ready s" for i
      using echo_created [OF s assms(1), of tenv i] assms(2) by auto
    then have ready: "server_ready s" "threads_ok tenv s"
      by (auto simp: threads_ok_def const_server_def)
    have mem: "os_ready env ?h" "open_fds ?h = open_fds h" "distinct (srv_addr s # srv_workers_addr s # srv_worker_addrs s)"
        "blocks ?h = blocks h \<union> set (srv_addr s # srv_workers_addr s # srv_worker_addrs s)"
        "set (srv_addr s # srv_workers_addr s # srv_worker_addrs s) \<inter> blocks h = {}"
      by (rule fa_server_new_Some [OF s assms(1)], simp add: os_ready_def)+
    obtain r where r: "fa_server_run env tenv (Some s) ?h = Some r"
      using fa_server_run_returns [OF ready mem(1) assms(3)] ..
    obtain rc s' h' where run: "r = Exited (rc, Some s', h')" "blocks h' = blocks ?h" "os_ready env h'" "rc \<in> {0, -1}"
        "rc = -1 \<or> open_fds h' = open_fds ?h"
      using ready mem(1) r by (cases rule: fa_server_run_cases) (auto simp: fa_listen.made_def)
    have addrs: "srv_addr s' = srv_addr s" "srv_workers_addr s' = srv_workers_addr s"
        "srv_worker_addrs s' = srv_worker_addrs s"
      using fa_server_run_addrs [of env tenv s ?h rc s' h'] r run(1) by auto
    then have "blocks (fa_server_free (Some s') h') = blocks h \<and> releases_valid (fa_server_free (Some s') h')"
      using fa_server_free_blocks [of s' h'] mem(3-5) run(2,3) by (auto simp: os_ready_def)
    moreover have "open_fds (fa_server_free (Some s') h') = open_fds h'"
      by (simp add: fa_server_free_def free_each_readings)
    ultimately show ?thesis
      using s r run(1,4,5) mem(2) by (auto simp: echo_main_def)
  qed
qed

theorem echo_main_balanced_witness:
  "\<exists>rc h'. echo_main ref_os quiet [''echo_server'', ''--port'', ''12480''] [] = Some (Exited (rc, h')) \<and>
     blocks h' = {} \<and> releases_valid h'"
proof -
  have "malloc_fresh (quiet i) \<and> kernel_ok (quiet i)" for i
    using echo_contracts [of "\<lambda>h. []" "\<lambda>h. 500 \<le> length h"] by (simp add: contracts_def)
  with echo_main_balanced [OF ref_os_ready [of "[]"] _ quiet_stops, of "[''echo_server'', ''--port'', ''12480'']"]
  show ?thesis by fastforce
qed

end
