(* ===== verification/Treat.thy ===== *)
theory Treat
  imports Server C_Args
begin

text \<open>
  The benchmark server \<open>research/treatment/accept-treat.c\<close>, the stand-alone program the library
  was made from: one worker per allowed CPU, multishot accept, a fixed 19-byte reply from a
  static array, no handler and no stop flag. Its freelist is a second implementation of the
  interface \<open>conn_pool\<close>, its socket routine a second one of \<open>listener\<close>.
\<close>

subsection \<open>Data\<close>

definition TREAT_REPLY :: bytes where
  "TREAT_REPLY = ''HTTP/1.1 200 OK'' @ [CHR 0x0D, CHR 0x0A, CHR 0x0D, CHR 0x0A]"

definition REPLY_LEN :: nat where "REPLY_LEN = 19"
definition READ_BUF_SZ :: nat where "READ_BUF_SZ = 256"
definition NFILES :: nat where "NFILES = 4096"
definition CQE_BATCH :: nat where "CQE_BATCH = 256"

text \<open>
  Size of \<open>struct conn\<close>: a pointer, an enum, two ints, the buffer, padding. The buffer begins after
  20 bytes. The static reply is an array with a terminating NUL.
\<close>

definition SIZEOF_CONN :: nat where "SIZEOF_CONN = 280"
definition OFFSETOF_BUF :: nat where "OFFSETOF_BUF = 20"

definition sizeof_reply :: nat where "sizeof_reply = length TREAT_REPLY + 1"

lemma reply_in_array [simp]: "\<not> sizeof_reply < REPLY_LEN"
  by (simp add: sizeof_reply_def REPLY_LEN_def TREAT_REPLY_def)

datatype conn_state = ST_ACCEPT | ST_RECV | ST_SEND | ST_CLOSE

record conn =
  cn_next :: ptr
  cn_state :: conn_state
  cn_fd :: int
  cn_sent :: int
  cn_buf :: bytes

record worker_ctx =
  wc_listen_fd :: int
  wc_direct :: bool
  wc_marker :: conn_state
  wc_free_head :: ptr
  wc_heap :: "addr \<rightharpoonup> conn"
  wc_log :: history

type_synonym treat_env = "conn uring_env"

definition tcall :: "call \<Rightarrow> worker_ctx \<Rightarrow> worker_ctx" where
  "tcall c w = w\<lparr>wc_log := c # wc_log w\<rparr>"

lemma tcall_simps [simp]:
  "wc_log (tcall c w) = c # wc_log w"
  "wc_listen_fd (tcall c w) = wc_listen_fd w"
  "wc_direct (tcall c w) = wc_direct w"
  "wc_marker (tcall c w) = wc_marker w"
  "wc_free_head (tcall c w) = wc_free_head w"
  "wc_heap (tcall c w) = wc_heap w"
  by (simp_all add: tcall_def)

subsection \<open>Freelist\<close>

definition malloc_conn :: "treat_env \<Rightarrow> worker_ctx \<Rightarrow> ptr \<times> worker_ctx" where
  "malloc_conn env w =
     (let p = e_malloc env (wc_log w) SIZEOF_CONN; w' = tcall (C_malloc SIZEOF_CONN p) w in
      case p of
        None \<Rightarrow> (None, w')
      | Some a \<Rightarrow> (Some a, w'\<lparr>wc_heap := (wc_heap w)(a \<mapsto> e_uninit env (wc_log w))\<rparr>))"

definition conn_alloc :: "treat_env \<Rightarrow> worker_ctx \<Rightarrow> (ptr \<times> worker_ctx) option" where
  "conn_alloc env w =
     (case wc_free_head w of
        Some c \<Rightarrow> do {
          obj \<leftarrow> wc_heap w c;
          Some (Some c, w\<lparr>wc_free_head := cn_next obj\<rparr>)
        }
      | None \<Rightarrow> Some (malloc_conn env w))"

definition conn_free :: "addr \<Rightarrow> worker_ctx \<Rightarrow> worker_ctx option" where
  "conn_free c w = do {
     obj \<leftarrow> wc_heap w c;
     Some (w\<lparr>wc_heap := (wc_heap w)(c \<mapsto> obj\<lparr>cn_next := wc_free_head w\<rparr>), wc_free_head := Some c\<rparr>)
   }"

subsection \<open>Submission helpers\<close>

definition get_sqe :: "treat_env \<Rightarrow> worker_ctx \<Rightarrow> bool \<times> worker_ctx" where
  "get_sqe env w =
     (if e_get_sqe env (wc_log w) then (True, w)
      else let w' = tcall (C_submit TREAT_REPLY) w in (e_get_sqe env (wc_log w'), w'))"

definition arm_accept :: "treat_env \<Rightarrow> worker_ctx \<Rightarrow> worker_ctx" where
  "arm_accept env w =
     (let (ok, w) = get_sqe env w in
      if \<not> ok then w
      else
        let sqe = (if wc_direct w then prep_accept True True (wc_listen_fd w)
                   else prep_accept True False (wc_listen_fd w));
            w = w\<lparr>wc_marker := ST_ACCEPT\<rparr>
        in tcall (C_prep (sqe\<lparr>sqe_user_data := UMarker\<rparr>)) w)"

definition give_up :: "addr \<Rightarrow> conn \<Rightarrow> worker_ctx \<Rightarrow> worker_ctx option" where
  "give_up c obj w = conn_free c (if \<not> wc_direct w then tcall (C_close (cn_fd obj)) w else w)"

definition submit_recv :: "treat_env \<Rightarrow> addr \<Rightarrow> worker_ctx \<Rightarrow> worker_ctx option" where
  "submit_recv env c w = do {
     obj \<leftarrow> wc_heap w c;
     let (ok, w) = get_sqe env w;
     if \<not> ok then give_up c obj w
     else
       let w = w\<lparr>wc_heap := (wc_heap w)(c \<mapsto> obj\<lparr>cn_state := ST_RECV\<rparr>)\<rparr>;
           sqe = prep_recv (cn_fd obj) c READ_BUF_SZ;
           flags = (if wc_direct w then {IOSQE_FIXED_FILE} else {})
       in Some (tcall (C_prep (sqe\<lparr>sqe_flags := flags, sqe_user_data := UConn c\<rparr>)) w)
   }"

definition treat_close_sqe :: "worker_ctx \<Rightarrow> int \<Rightarrow> sqe" where
  "treat_close_sqe w fd =
     (if wc_direct w then prep_close True fd else prep_close False fd)
       \<lparr>sqe_flags := {IOSQE_CQE_SKIP_SUCCESS}, sqe_user_data := UNull\<rparr>"

definition treat_send_sqe :: "worker_ctx \<Rightarrow> int \<Rightarrow> sqe" where
  "treat_send_sqe w fd =
     (prep_send fd REPLY_LEN True)
       \<lparr>sqe_flags := (if wc_direct w then {IOSQE_FIXED_FILE, IOSQE_CQE_SKIP_SUCCESS}
                      else {IOSQE_CQE_SKIP_SUCCESS}),
        sqe_user_data := UNull\<rparr>"

text \<open>A send that names more bytes than the static array has is undefined.\<close>

definition submit_reply_and_close :: "treat_env \<Rightarrow> addr \<Rightarrow> worker_ctx \<Rightarrow> worker_ctx option" where
  "submit_reply_and_close env c w = do {
     obj \<leftarrow> wc_heap w c;
     let (ok, w) = get_sqe env w;
     if \<not> ok then give_up c obj w
     else if sizeof_reply < REPLY_LEN then None
     else
       let w = tcall (C_prep (treat_send_sqe w (cn_fd obj))) w;
           (ok, w) = get_sqe env w
       in if \<not> ok then give_up c obj w
          else conn_free c (tcall (C_prep (treat_close_sqe w (cn_fd obj))) w)
   }"

definition submit_close :: "treat_env \<Rightarrow> addr \<Rightarrow> worker_ctx \<Rightarrow> worker_ctx option" where
  "submit_close env c w = do {
     obj \<leftarrow> wc_heap w c;
     let (ok, w) = get_sqe env w;
     if \<not> ok then give_up c obj w
     else conn_free c (tcall (C_prep (treat_close_sqe w (cn_fd obj))) w)
   }"

subsection \<open>The worker\<close>

definition treat_on_accept :: "treat_env \<Rightarrow> cqe \<Rightarrow> worker_ctx \<Rightarrow> worker_ctx option" where
  "treat_on_accept env q w =
     (let w = (if \<not> cqe_more q then arm_accept env w else w) in
      if cqe_res q < 0 then Some w
      else do {
        (nc, w) \<leftarrow> conn_alloc env w;
        case nc of
          None \<Rightarrow> Some (if \<not> wc_direct w then tcall (C_close (cqe_res q)) w else w)
        | Some c \<Rightarrow> do {
            obj \<leftarrow> wc_heap w c;
            submit_recv env c
              (w\<lparr>wc_heap := (wc_heap w)(c \<mapsto> obj\<lparr>cn_fd := cqe_res q, cn_sent := 0\<rparr>)\<rparr>)
          }
      })"

text \<open>
  One iteration of the drain loop. The accept marker is no heap object: in the branches for
  other states it would end up on the freelist, which is undefined here.
\<close>

definition treat_handle :: "treat_env \<Rightarrow> cqe \<Rightarrow> worker_ctx \<Rightarrow> worker_ctx option" where
  "treat_handle env q w =
     (case cqe_user_data q of
        UNull \<Rightarrow> Some w
      | UMarker \<Rightarrow> (if wc_marker w = ST_ACCEPT then treat_on_accept env q w else None)
      | UConn c \<Rightarrow> do {
          obj \<leftarrow> wc_heap w c;
          case cn_state obj of
            ST_ACCEPT \<Rightarrow> treat_on_accept env q w
          | ST_RECV \<Rightarrow> (if cqe_res q \<le> 0 then submit_close env c w
                        else submit_reply_and_close env c w)
          | _ \<Rightarrow> conn_free c w
        })"

text \<open>
  The kernel has stored the received bytes in the buffers of the connections before it posts the
  completions. Bytes beyond the buffer or the allocated object are undefined behaviour.
\<close>

definition buf_fits :: "cqe \<Rightarrow> bool" where
  "buf_fits q = (case cqe_user_data q of
     UConn a \<Rightarrow> length (cqe_bytes q) \<le> READ_BUF_SZ \<and> OFFSETOF_BUF + length (cqe_bytes q) \<le> SIZEOF_CONN
   | _ \<Rightarrow> True)"

definition treat_store :: "cqe list \<Rightarrow> worker_ctx \<Rightarrow> worker_ctx" where
  "treat_store qs w = w\<lparr>wc_heap := \<lambda>a.
     map_option (\<lambda>c. c\<lparr>cn_buf := store_bytes (recv_bytes qs a) (cn_buf c)\<rparr>) (wc_heap w a)\<rparr>"

definition treat_deliver :: "cqe list \<Rightarrow> worker_ctx \<Rightarrow> worker_ctx option" where
  "treat_deliver qs w = (if list_all buf_fits qs then Some (treat_store qs w) else None)"

definition treat_body :: "treat_env \<Rightarrow> worker_ctx \<Rightarrow> worker_ctx loop_next option" where
  "treat_body env w =
     (let ret = e_wait env (wc_log w);
          w = tcall (C_wait TREAT_REPLY ret) w
      in if ret < 0 then
           (if ret = - EINTR then Some (Continue w)
            else Some (Break (tcall (C_stderr ''io_uring_submit_and_wait'') w)))
         else
           let qs = e_peek env (wc_log w) CQE_BATCH in
           if CQE_BATCH < length qs then None
           else do {
             w \<leftarrow> treat_deliver qs (tcall (C_peek qs) w);
             w \<leftarrow> for_each (treat_handle env) qs w;
             Some (Continue (tcall (C_advance (length qs)) w))
           })"

fun treat_warm :: "treat_env \<Rightarrow> nat \<Rightarrow> worker_ctx \<Rightarrow> worker_ctx option" where
  "treat_warm env 0 w = Some w"
| "treat_warm env (Suc n) w =
     (let (p, w) = malloc_conn env w in do {
        w \<leftarrow> (case p of None \<Rightarrow> Some w | Some c \<Rightarrow> conn_free c w);
        treat_warm env n w
      })"

definition treat_worker_main :: "treat_env \<Rightarrow> worker_ctx \<Rightarrow> worker_ctx loop_exit option" where
  "treat_worker_main env w =
     (case treat_warm env 128 w of
        None \<Rightarrow> Some Undefined
      | Some w \<Rightarrow> run_loop (\<lambda>w. False) (treat_body env) (arm_accept env w))"

text \<open>The thread entry: pinning, ring setup with its fallback, the direct descriptor table.\<close>

definition treat_ring_setup :: "treat_env \<Rightarrow> int \<Rightarrow> worker_ctx \<Rightarrow> bool \<times> worker_ctx" where
  "treat_ring_setup env cpu w =
     (let w = (if 0 \<le> cpu then tcall (C_affinity cpu) w else w);
          ret = e_queue_init env (wc_log w) True;
          w = tcall (C_queue_init True ret) w;
          (ret, w) = (if ret < 0
                      then let ret = e_queue_init env (wc_log w) False
                           in (ret, tcall (C_queue_init False ret) w)
                      else (ret, w))
      in if ret < 0 then (False, tcall (C_stderr ''io_uring_queue_init'') w)
         else
           let ret = e_register_files env (wc_log w) NFILES;
               w = tcall (C_register_files NFILES ret) w
           in (True, if ret = 0 then w\<lparr>wc_direct := True\<rparr>
                     else tcall (C_stderr ''register_files_sparse failed; using regular fds'') w))"

definition treat_thread_entry :: "treat_env \<Rightarrow> int \<Rightarrow> worker_ctx \<Rightarrow> worker_ctx loop_exit option" where
  "treat_thread_entry env cpu w =
     (let (ok, w) = treat_ring_setup env cpu w in
      if ok then treat_worker_main env w else Some (Exited w))"

subsection \<open>The main thread\<close>

definition make_listen_socket :: "os_env \<Rightarrow> int \<Rightarrow> os_history \<Rightarrow> int \<times> os_history" where
  "make_listen_socket env port h =
     (let fd = o_socket env h; h = S_socket fd # h in
      if fd < 0 then (-1, S_stderr ''socket'' # h)
      else
        let r = o_setsockopt env h SO_REUSEADDR; h = S_setsockopt fd SO_REUSEADDR r # h in
        if r < 0 then (-1, S_close fd # S_stderr ''SO_REUSEADDR'' # h)
        else
          let r = o_setsockopt env h SO_REUSEPORT; h = S_setsockopt fd SO_REUSEPORT r # h in
          if r < 0 then (-1, S_close fd # S_stderr ''SO_REUSEPORT'' # h)
          else
            let port = c_ushort port; r = o_bind env h port; h = S_bind fd port r # h in
            if r < 0 then (-1, S_close fd # S_stderr ''bind'' # h)
            else
              let r = o_listen env h; h = S_listen fd 4096 r # h in
              if r < 0 then (-1, S_close fd # S_stderr ''listen'' # h) else (fd, h))"

interpretation treat_listen: listener "make_listen_socket env port" "os_ready env"
  by unfold_locales (auto simp: make_listen_socket_def os_ready_def Let_def sockets_freshD
      split: if_splits prod.splits)

fun treat_parse :: "string list \<Rightarrow> int \<Rightarrow> int" where
  "treat_parse (a # b # rest) port =
     (if a = ''--port'' then treat_parse rest (atoi b) else treat_parse (b # rest) port)"
| "treat_parse _ port = port"

text \<open>The loop that opens a socket and starts a thread for each worker; \<open>None\<close>: main returns 1.\<close>

fun treat_launch :: "os_env \<Rightarrow> int \<Rightarrow> nat \<Rightarrow> int list \<Rightarrow> int list \<Rightarrow> os_history \<Rightarrow> int list option \<times> os_history" where
  "treat_launch env port i [] fds h = (Some fds, h)"
| "treat_launch env port i (cpu # cpus) fds h =
     (let (fd, h) = make_listen_socket env port h in
      if fd < 0 then (None, S_stderr ''failed to create listen socket'' # h)
      else
        let r = o_pthread_create env h i; h = S_pthread_create i r # h in
        if r \<noteq> 0 then (None, S_stderr ''pthread_create'' # h)
        else treat_launch env port (Suc i) cpus (fds @ [fd]) h)"

definition treat_new_worker :: "int \<Rightarrow> worker_ctx" where
  "treat_new_worker fd = \<lparr>wc_listen_fd = fd, wc_direct = False, wc_marker = ST_ACCEPT,
     wc_free_head = None, wc_heap = Map.empty, wc_log = []\<rparr>"

fun treat_join :: "(nat \<Rightarrow> treat_env) \<Rightarrow> nat \<Rightarrow> int list \<Rightarrow> int list \<Rightarrow> os_history \<Rightarrow> os_history loop_exit option" where
  "treat_join tenv i (cpu # cpus) (fd # fds) h =
     (case treat_thread_entry (tenv i) cpu (treat_new_worker fd) of
        None \<Rightarrow> None
      | Some Undefined \<Rightarrow> Some Undefined
      | Some (Exited w) \<Rightarrow> treat_join tenv (Suc i) cpus fds (S_pthread_join i # h))"
| "treat_join tenv i _ _ h = Some (Exited h)"

definition treat_cpus :: "(nat \<Rightarrow> bool) \<Rightarrow> int list" where
  "treat_cpus aff =
     (let nallowed = length (filter aff [0 ..< CPU_SETSIZE]);
          nallowed = (if nallowed < 1 then 1 else nallowed);
          out = collect_loop aff nallowed 0 []
      in out @ replicate (nallowed - length out) 0)"

definition treat_main :: "os_env \<Rightarrow> (nat \<Rightarrow> treat_env) \<Rightarrow> string list \<Rightarrow> os_history \<Rightarrow> (int \<times> os_history) loop_exit option" where
  "treat_main env tenv argv h =
     (let port = treat_parse (tl argv) 31;
          (r, aff) = o_affinity env h; h = S_getaffinity r # h
      in if r < 0 then Some (Exited (1, S_stderr ''sched_getaffinity'' # h))
      else
        let cpus = treat_cpus aff; n = length cpus;
            p = o_calloc env h n 4; h = S_calloc n 4 p # h
        in case p of
             None \<Rightarrow> Some (Exited (1, S_stderr ''out of memory'' # h))
           | Some ca \<Rightarrow>
               let pt = o_calloc env h n (o_sizeof_worker env); h = S_calloc n (o_sizeof_worker env) pt # h;
                   pp = o_calloc env h n 8; h = S_calloc n 8 pp # h
               in case (pt, pp) of
                    (Some ta, Some tha) \<Rightarrow>
                      (case treat_launch env port 0 cpus [] (S_stderr ''accept-treat'' # h) of
                         (None, h) \<Rightarrow> Some (Exited (1, h))
                       | (Some fds, h) \<Rightarrow>
                           (case treat_join tenv 0 cpus fds h of
                              None \<Rightarrow> None
                            | Some Undefined \<Rightarrow> Some Undefined
                            | Some (Exited h) \<Rightarrow>
                                Some (Exited (0, S_free tha # S_free ta # S_free ca # h))))
                  | _ \<Rightarrow> Some (Exited (1, S_stderr ''out of memory'' # h)))"

end
