(* ===== verification/Treat_Inv.thy ===== *)
theory Treat_Inv
  imports Treat Worker_Inv
begin

text \<open>
  The benchmark server's worker: its freelist is a connection pool, every operation keeps the
  ownership of the connections, so the loop is free of undefined behaviour; every send it
  prepares is the static reply.
\<close>

subsection \<open>Ownership\<close>

definition town :: "addr multiset \<Rightarrow> addr multiset \<Rightarrow> worker_ctx \<Rightarrow> bool" where
  "town T H w \<longleftrightarrow> owned cn_next (\<lambda>c. cn_state c = ST_RECV) (wc_heap w) (wc_free_head w)
     (inflight (wc_log w)) (live (wc_log w)) T H"

definition tfreelist :: "worker_ctx \<Rightarrow> addr list \<Rightarrow> bool" where
  "tfreelist w fl \<longleftrightarrow> cells (links cn_next (wc_heap w)) (wc_free_head w) fl"

lemma town_call [simp]:
  "inflight (c # wc_log w) = inflight (wc_log w) \<Longrightarrow> live (c # wc_log w) = live (wc_log w) \<Longrightarrow>
   town T H (tcall c w) = town T H w"
  by (simp add: town_def)

lemma town_marker [simp]: "town T H (w\<lparr>wc_marker := m\<rparr>) = town T H w"
  by (simp add: town_def)

lemma town_held: "town T H w \<Longrightarrow> a \<in># H \<Longrightarrow> \<exists>c. wc_heap w a = Some c"
  unfolding town_def by (rule owned_held)

lemma town_busy: "town T H w \<Longrightarrow> a \<in># inflight (wc_log w) + T \<Longrightarrow>
    \<exists>c. wc_heap w a = Some c \<and> cn_state c = ST_RECV"
  unfolding town_def by (rule owned_busy)

lemma town_take: "town (add_mset a T) H w \<Longrightarrow> town T (add_mset a H) w"
  unfolding town_def by (rule owned_take)

lemma town_upd: "town T H w \<Longrightarrow> a \<in># H \<Longrightarrow> town T H (w\<lparr>wc_heap := (wc_heap w)(a \<mapsto> c)\<rparr>)"
  unfolding town_def by (simp add: owned_upd)

lemma conn_free_town [own_intros]:
  "town T (add_mset a H) w \<Longrightarrow> \<exists>w'. conn_free a w = Some w' \<and> town T H w'"
  using town_held [of T "add_mset a H" w a]
  by (auto simp: conn_free_def town_def intro!: owned_push)

lemma malloc_conn_town:
  assumes "malloc_fresh env" and "town T H w" and "malloc_conn env w = (p, w')"
  shows "town T (case p of None \<Rightarrow> H | Some a \<Rightarrow> add_mset a H) w'"
  using assms malloc_freshD [OF assms(1)]
  by (auto simp: malloc_conn_def town_def Let_def owned_new split: option.splits)

lemma town_freelist: "town T H w \<Longrightarrow> \<exists>fl. tfreelist w fl"
  unfolding town_def owned_def tfreelist_def by blast

lemma town_partition:
  assumes "town T H w" and "tfreelist w fl"
  shows "mset fl + (inflight (wc_log w) + T + H) = mset_set (dom (wc_heap w))"
    and "finite (dom (wc_heap w))"
proof -
  from assms(1) obtain fl' where "finite (dom (wc_heap w))"
    "cells (links cn_next (wc_heap w)) (wc_free_head w) fl'"
    "mset fl' + (inflight (wc_log w) + T + H) = mset_set (dom (wc_heap w))"
    unfolding town_def by (rule owned_E) blast
  moreover from this(2) assms(2) have "fl' = fl"
    unfolding tfreelist_def by (rule cells_unique)
  ultimately show "mset fl + (inflight (wc_log w) + T + H) = mset_set (dom (wc_heap w))"
    and "finite (dom (wc_heap w))"
    by auto
qed

interpretation treat: conn_pool "conn_alloc env" conn_free
  "\<lambda>H w. malloc_fresh env \<and> town T H w" tfreelist
proof (unfold_locales, goal_cases)
  case (1 H w a fl)
  then have head: "wc_free_head w = Some a"
    by (simp add: tfreelist_def)
  with 1 obtain c where c: "wc_heap w a = Some c"
    and own: "town T (add_mset a H) (w\<lparr>wc_free_head := cn_next c\<rparr>)"
    unfolding town_def using owned_pop by fastforce
  have "tfreelist (w\<lparr>wc_free_head := cn_next c\<rparr>) fl"
    using 1 c by (auto simp: tfreelist_def links_def)
  with 1 head c own show ?case
    by (simp add: conn_alloc_def)
next
  case (2 H w)
  obtain p w' where m: "malloc_conn env w = (p, w')"
    by (cases "malloc_conn env w")
  moreover have "wc_free_head w' = None"
    using m 2 by (auto simp: malloc_conn_def tfreelist_def Let_def split: option.splits)
  ultimately show ?case
    using 2 malloc_conn_town [of env T H w p w']
    by (auto simp: conn_alloc_def tfreelist_def)
next
  case (3 a H w fl)
  then have own: "town T (add_mset a H) w" and fl: "tfreelist w fl"
    by auto
  have "a \<notin> set fl"
    using mset_set_unionD(3) [OF town_partition [OF own fl]] by auto
  with fl have "tfreelist w' (a # fl)" if "conn_free a w = Some w'" for w'
    using that by (auto simp: conn_free_def tfreelist_def split: bind_splits)
  with 3 conn_free_town [OF own] show ?case
    by blast
next
  case (4 H w)
  then show ?case using town_freelist by blast
next
  case (5 H w fl)
  then have eq: "mset fl + (inflight (wc_log w) + T + H) = mset_set (dom (wc_heap w))"
      "finite (dom (wc_heap w))"
    using town_partition by auto
  have "count H a \<le> count (mset fl + (inflight (wc_log w) + T + H)) a" for a
    by simp
  then have "count H a \<le> 1" for a
    unfolding eq(1) by (metis count_mset_set' le_trans zero_le le_refl)
  moreover have "set fl \<inter> set_mset H = {}"
    using mset_set_unionD(3) [OF eq] by auto
  ultimately show ?case
    using mset_set_distinct [OF eq(1)] by blast
qed

lemma get_sqe_cases:
  assumes "get_sqe env w = (ok, w')"
  shows "w' = w \<or> w' = tcall (C_submit TREAT_REPLY) w"
  using assms by (auto simp: get_sqe_def Let_def split: if_splits)

lemma get_sqe_town: "get_sqe env w = (ok, w') \<Longrightarrow> town T H w' = town T H w"
  using get_sqe_cases by fastforce

lemma get_sqe_heap: "get_sqe env w = (ok, w') \<Longrightarrow> wc_heap w' = wc_heap w \<and> wc_marker w' = wc_marker w"
  using get_sqe_cases by fastforce

lemma give_up_town [own_intros]:
  "town T (add_mset c H) w \<Longrightarrow> \<exists>w'. give_up c obj w = Some w' \<and> town T H w'"
  unfolding give_up_def by (rule conn_free_town) simp

lemma arm_accept_town [own_intros]: "town T H w \<Longrightarrow> town T H (arm_accept env w)"
  by (auto simp: arm_accept_def Let_def get_sqe_town split: prod.splits)

lemma submit_recv_town [own_intros]:
  assumes "town T (add_mset c H) w"
  shows "\<exists>w'. submit_recv env c w = Some w' \<and> town T H w'"
proof -
  from town_held [OF assms, of c] obtain obj where obj: "wc_heap w c = Some obj"
    by auto
  obtain ok w1 where acq: "get_sqe env w = (ok, w1)"
    by (cases "get_sqe env w")
  have own1: "town T (add_mset c H) w1"
    using assms get_sqe_town [OF acq] by simp
  have "town T (add_mset c H) (w1\<lparr>wc_heap := (wc_heap w1)(c \<mapsto> obj\<lparr>cn_state := ST_RECV\<rparr>)\<rparr>)"
    by (rule town_upd [OF own1]) simp
  with obj acq give_up_town [OF own1, of obj] show ?thesis
    by (cases ok) (simp_all add: submit_recv_def Let_def town_def owned_depart)
qed

lemma submit_close_town [own_intros]:
  assumes "town T (add_mset c H) w"
  shows "\<exists>w'. submit_close env c w = Some w' \<and> town T H w'"
proof -
  from town_held [OF assms, of c] obtain obj where obj: "wc_heap w c = Some obj"
    by auto
  obtain ok w1 where acq: "get_sqe env w = (ok, w1)"
    by (cases "get_sqe env w")
  have "town T (add_mset c H) w1"
    using assms get_sqe_town [OF acq] by simp
  then show ?thesis
    using obj acq by (auto simp: submit_close_def treat_close_sqe_def intro!: own_intros)
qed

lemma submit_reply_and_close_town [own_intros]:
  assumes "town T (add_mset c H) w"
  shows "\<exists>w'. submit_reply_and_close env c w = Some w' \<and> town T H w'"
proof -
  from town_held [OF assms, of c] obtain obj where obj: "wc_heap w c = Some obj"
    by auto
  obtain ok w1 where acq: "get_sqe env w = (ok, w1)"
    by (cases "get_sqe env w")
  let ?w2 = "tcall (C_prep (treat_send_sqe w1 (cn_fd obj))) w1"
  obtain ok' w3 where acq': "get_sqe env ?w2 = (ok', w3)"
    by (cases "get_sqe env ?w2")
  have own1: "town T (add_mset c H) w1"
    using assms get_sqe_town [OF acq] by simp
  then have "town T (add_mset c H) w3"
    using get_sqe_town [OF acq'] by (simp add: treat_send_sqe_def)
  then show ?thesis
    using own1 obj acq acq'
    by (auto simp: submit_reply_and_close_def treat_close_sqe_def Let_def intro!: own_intros)
qed

subsection \<open>Discipline\<close>

text \<open>
  The entries of the benchmark server obey the same discipline as those of the library, for a
  library configured like it (multishot, 256-byte requests, a 19-byte reply); and a send always
  has the full length of the reply.
\<close>

definition treat_srv :: fa_server where
  "treat_srv = \<lparr>srv_cfg = \<lparr>cfg_port = 31, cfg_workers = 0, cfg_backlog = 4096,
       cfg_recv_buf = int READ_BUF_SZ, cfg_reply_cap = int REPLY_LEN, cfg_multishot = 1,
       cfg_direct_files = 1\<rparr>,
     srv_conn_size = int SIZEOF_CONN, srv_nworkers = 0, srv_workers = [], srv_stop = False\<rparr>"

definition treat_call :: "bool \<Rightarrow> int \<Rightarrow> call \<Rightarrow> bool" where
  "treat_call direct fd c = (case c of
     C_prep q \<Rightarrow> sqe_ok treat_srv direct fd q \<and> (sqe_op q = OP_SEND \<longrightarrow> sqe_len q = REPLY_LEN)
   | C_submit b \<Rightarrow> b = TREAT_REPLY
   | C_wait b r \<Rightarrow> b = TREAT_REPLY
   | _ \<Rightarrow> True)"

definition disciplined :: "worker_ctx \<Rightarrow> bool" where
  "disciplined w \<longleftrightarrow> wc_marker w = ST_ACCEPT \<and>
     list_all (treat_call (wc_direct w) (wc_listen_fd w)) (wc_log w)"

text \<open>Every step keeps mode, socket and discipline, and the history only grows.\<close>

definition keeps :: "worker_ctx \<Rightarrow> worker_ctx \<Rightarrow> bool" where
  "keeps w w' \<longleftrightarrow> wc_direct w' = wc_direct w \<and> wc_listen_fd w' = wc_listen_fd w \<and>
     (disciplined w \<longrightarrow> disciplined w') \<and> length (wc_log w) \<le> length (wc_log w')"

lemma keeps_refl [simp]: "keeps w w"
  by (simp add: keeps_def)

lemma keeps_trans: "keeps w w' \<Longrightarrow> keeps w' w'' \<Longrightarrow> keeps w w''"
  by (auto simp: keeps_def)

lemma keeps_call: "treat_call (wc_direct w) (wc_listen_fd w) c \<Longrightarrow> keeps w (tcall c w)"
  by (simp add: keeps_def disciplined_def)

lemma keeps_fields [simp]:
  "keeps w (w1\<lparr>wc_heap := hp\<rparr>) = keeps w w1"
  "keeps w (w1\<lparr>wc_free_head := p\<rparr>) = keeps w w1"
  "keeps w w1 \<Longrightarrow> keeps w (w1\<lparr>wc_marker := ST_ACCEPT\<rparr>)"
  by (auto simp: keeps_def disciplined_def)

lemma treat_call_other [simp]:
  "(\<And>q. c \<noteq> C_prep q) \<Longrightarrow> (\<And>b. c \<noteq> C_submit b) \<Longrightarrow> (\<And>b r. c \<noteq> C_wait b r) \<Longrightarrow> treat_call d l c"
  by (cases c) (auto simp: treat_call_def)

lemma keeps_other [simp]:
  "(\<And>q. c \<noteq> C_prep q) \<Longrightarrow> (\<And>b. c \<noteq> C_submit b) \<Longrightarrow> (\<And>b r. c \<noteq> C_wait b r) \<Longrightarrow>
   keeps w w1 \<Longrightarrow> keeps w (tcall c w1)"
  by (metis keeps_call keeps_trans treat_call_other)

lemma keeps_get: "get_sqe env w = (ok, w') \<Longrightarrow> keeps w w'"
  using get_sqe_cases [of env w ok w'] keeps_call [of w "C_submit TREAT_REPLY"]
  by (auto simp: treat_call_def)

lemma keeps_free: "conn_free c w1 = Some w' \<Longrightarrow> keeps w w1 \<Longrightarrow> keeps w w'"
  by (auto simp: conn_free_def split: bind_splits)

lemma keeps_give_up: "give_up c obj w1 = Some w' \<Longrightarrow> keeps w w1 \<Longrightarrow> keeps w w'"
  by (auto simp: give_up_def split: if_splits intro: keeps_free)

lemma keeps_alloc: "conn_alloc env w = Some (p, w') \<Longrightarrow> keeps w w'"
  by (auto simp: conn_alloc_def malloc_conn_def Let_def split: option.splits bind_splits)

lemma keeps_arm: "keeps w (arm_accept env w)"
proof -
  obtain ok w1 where acq: "get_sqe env w = (ok, w1)"
    by (cases "get_sqe env w")
  let ?q = "(prep_accept True (wc_direct w1) (wc_listen_fd w1))\<lparr>sqe_user_data := UMarker\<rparr>"
  have "treat_call (wc_direct w1) (wc_listen_fd w1) (C_prep ?q)"
    by (simp add: treat_call_def sqe_ok_def prep_accept_def treat_srv_def)
  then have "keeps (w1\<lparr>wc_marker := ST_ACCEPT\<rparr>) (tcall (C_prep ?q) (w1\<lparr>wc_marker := ST_ACCEPT\<rparr>))"
    by (intro keeps_call) simp
  with keeps_get [OF acq] acq show ?thesis
    by (auto simp: arm_accept_def Let_def intro: keeps_trans keeps_fields(3))
qed

lemma keeps_close_and_free:
  assumes "conn_free c (tcall (C_prep (treat_close_sqe w1 fd)) w1) = Some w'" and "keeps w w1"
  shows "keeps w w'"
proof -
  have "keeps w1 (tcall (C_prep (treat_close_sqe w1 fd)) w1)"
    by (rule keeps_call) (simp add: treat_call_def treat_close_sqe_def sqe_ok_def prep_close_def)
  with assms show ?thesis
    by (blast intro: keeps_free keeps_trans)
qed

lemma keeps_recv: "submit_recv env c w = Some w' \<Longrightarrow> keeps w w'"
proof -
  assume r: "submit_recv env c w = Some w'"
  then obtain obj where obj: "wc_heap w c = Some obj"
    by (auto simp: submit_recv_def split: bind_splits)
  obtain ok w1 where acq: "get_sqe env w = (ok, w1)"
    by (cases "get_sqe env w")
  note k = keeps_get [OF acq]
  let ?w2 = "w1\<lparr>wc_heap := (wc_heap w1)(c \<mapsto> obj\<lparr>cn_state := ST_RECV\<rparr>)\<rparr>"
  let ?q = "(prep_recv (cn_fd obj) c READ_BUF_SZ)\<lparr>sqe_flags := if wc_direct w1 then {IOSQE_FIXED_FILE} else {},
    sqe_user_data := UConn c\<rparr>"
  have "keeps ?w2 (tcall (C_prep ?q) ?w2)"
    by (rule keeps_call) (simp add: treat_call_def sqe_ok_def prep_recv_def treat_srv_def READ_BUF_SZ_def)
  then have "keeps w (tcall (C_prep ?q) ?w2)"
    using k keeps_fields(1) keeps_trans by blast
  with r obj acq k show ?thesis
    by (auto simp: submit_recv_def Let_def split: if_splits intro: keeps_give_up)
qed

lemma keeps_close: "submit_close env c w = Some w' \<Longrightarrow> keeps w w'"
proof -
  assume r: "submit_close env c w = Some w'"
  obtain ok w1 where acq: "get_sqe env w = (ok, w1)"
    by (cases "get_sqe env w")
  with r keeps_get [OF acq] show ?thesis
    by (auto simp: submit_close_def split: if_splits bind_splits intro: keeps_give_up keeps_close_and_free)
qed

lemma keeps_reply: "submit_reply_and_close env c w = Some w' \<Longrightarrow> keeps w w'"
proof -
  assume r: "submit_reply_and_close env c w = Some w'"
  then obtain obj where obj: "wc_heap w c = Some obj"
    by (auto simp: submit_reply_and_close_def split: bind_splits)
  obtain ok w1 where acq: "get_sqe env w = (ok, w1)"
    by (cases "get_sqe env w")
  let ?w2 = "tcall (C_prep (treat_send_sqe w1 (cn_fd obj))) w1"
  obtain ok' w3 where acq': "get_sqe env ?w2 = (ok', w3)"
    by (cases "get_sqe env ?w2")
  have k1: "keeps w w1"
    by (rule keeps_get [OF acq])
  have "keeps w1 ?w2"
    by (rule keeps_call)
      (simp add: treat_call_def treat_send_sqe_def sqe_ok_def prep_send_def treat_srv_def REPLY_LEN_def)
  then have "keeps w w3"
    using k1 keeps_get [OF acq'] keeps_trans by blast
  with k1 show ?thesis
    using r obj acq acq'
    by (auto simp: submit_reply_and_close_def Let_def split: if_splits
        intro: keeps_give_up keeps_close_and_free)
qed

lemma keeps_on_accept:
  assumes "treat_on_accept env q w = Some w'"
  shows "keeps w w'"
proof -
  define w1 where "w1 = (if \<not> cqe_more q then arm_accept env w else w)"
  have k1: "keeps w w1"
    by (simp add: w1_def keeps_arm)
  show ?thesis
  proof (cases "cqe_res q < 0")
    case True
    with assms k1 show ?thesis
      by (simp add: treat_on_accept_def w1_def [symmetric])
  next
    case False
    with assms obtain p w2 where alloc: "conn_alloc env w1 = Some (p, w2)"
      by (auto simp: treat_on_accept_def w1_def [symmetric] split: bind_splits)
    with k1 have k2: "keeps w w2"
      by (blast intro: keeps_alloc keeps_trans)
    show ?thesis
    proof (cases p)
      case None
      with assms False alloc k2 show ?thesis
        by (auto simp: treat_on_accept_def w1_def [symmetric])
    next
      case (Some c)
      with assms False alloc obtain hp where "submit_recv env c (w2\<lparr>wc_heap := hp\<rparr>) = Some w'"
        by (auto simp: treat_on_accept_def w1_def [symmetric] split: bind_splits)
      with k2 show ?thesis
        by (metis keeps_recv keeps_trans keeps_fields(1))
    qed
  qed
qed

lemma keeps_handle: "treat_handle env q w = Some w' \<Longrightarrow> keeps w w'"
  by (auto simp: treat_handle_def split: uref.splits if_splits bind_splits conn_state.splits
      intro: keeps_on_accept keeps_close keeps_reply keeps_free)

lemma keeps_drain: "for_each (treat_handle env) qs w = Some w' \<Longrightarrow> keeps w w'"
  by (induction qs arbitrary: w) (auto split: bind_splits intro: keeps_handle keeps_trans)

lemma keeps_warm: "treat_warm env n w = Some w' \<Longrightarrow> keeps w w'"
proof (induction n arbitrary: w)
  case (Suc n)
  obtain p w1 where m: "malloc_conn env w = (p, w1)"
    by (cases "malloc_conn env w")
  then have "keeps w w1"
    by (auto simp: malloc_conn_def Let_def split: option.splits)
  with Suc m show ?case
    by (auto split: option.splits bind_splits intro: keeps_free keeps_trans)
qed simp

subsection \<open>The loop\<close>

definition treat_inv :: "cqe list \<Rightarrow> worker_ctx \<Rightarrow> bool" where
  "treat_inv qs w \<longleftrightarrow> town (mset (conns_of qs)) {#} w \<and> disciplined w"

lemma treat_on_accept_town:
  assumes "malloc_fresh env" and "town T {#} w"
  shows "\<exists>w'. treat_on_accept env q w = Some w' \<and> town T {#} w'"
proof -
  define w1 where "w1 = (if \<not> cqe_more q then arm_accept env w else w)"
  have own1: "town T {#} w1"
    using assms(2) by (simp add: w1_def arm_accept_town)
  obtain p w2 where alloc: "conn_alloc env w1 = Some (p, w2)"
      "town T (case p of None \<Rightarrow> {#} | Some a \<Rightarrow> {#a#}) w2"
    using treat.alloc_total [of env T "{#}" w1] own1 assms(1) by auto
  show ?thesis
  proof (cases p)
    case None
    with alloc own1 show ?thesis
      by (simp add: treat_on_accept_def w1_def [symmetric])
  next
    case (Some c)
    with alloc(2) obtain obj where obj: "wc_heap w2 c = Some obj"
      using town_held [of T "{#c#}" w2 c] by auto
    let ?w3 = "w2\<lparr>wc_heap := (wc_heap w2)(c \<mapsto> obj\<lparr>cn_fd := cqe_res q, cn_sent := 0\<rparr>)\<rparr>"
    have "town T {#c#} ?w3"
      using alloc(2) Some by (intro town_upd) simp_all
    with submit_recv_town [of T c "{#}" ?w3 env] Some alloc obj own1 show ?thesis
      by (simp add: treat_on_accept_def w1_def [symmetric])
  qed
qed

lemma treat_handle_inv:
  assumes "malloc_fresh env" and "treat_inv (q # qs) w"
  shows "\<exists>w'. treat_handle env q w = Some w' \<and> treat_inv qs w'"
proof -
  let ?T = "mset (conns_of qs)"
  have "\<exists>w'. treat_handle env q w = Some w' \<and> town ?T {#} w'"
  proof (cases "cqe_user_data q")
    case (UConn c)
    then have own: "town (add_mset c ?T) {#} w"
      using assms(2) by (simp add: treat_inv_def)
    then obtain obj where obj: "wc_heap w c = Some obj" "cn_state obj = ST_RECV"
      using town_busy [OF own, of c] by auto
    with UConn submit_close_town [OF town_take [OF own], of env]
      submit_reply_and_close_town [OF town_take [OF own], of env] show ?thesis
      by (auto simp: treat_handle_def)
  next
    case UMarker
    then show ?thesis
      using assms treat_on_accept_town [of env ?T w q]
      by (simp add: treat_handle_def treat_inv_def disciplined_def)
  next
    case UNull
    then show ?thesis
      using assms(2) by (simp add: treat_handle_def treat_inv_def)
  qed
  with assms(2) show ?thesis
    using keeps_handle [of env q w] by (auto simp: treat_inv_def keeps_def)
qed

interpretation treat_batch: completion_handler "treat_handle env"
  "\<lambda>qs w. malloc_fresh env \<and> treat_inv qs w"
  by unfold_locales (use treat_handle_inv in blast)

lemma treat_inv_call:
  assumes "treat_inv qs w" and "inflight (c # wc_log w) = inflight (wc_log w)"
    and "live (c # wc_log w) = live (wc_log w)" and "treat_call (wc_direct w) (wc_listen_fd w) c"
  shows "treat_inv qs (tcall c w)"
  using assms keeps_call [of w c] by (auto simp: treat_inv_def keeps_def)

lemma treat_store_inv:
  assumes "treat_inv qs w"
  shows "treat_inv qs (treat_store bs w)"
proof -
  have "town (mset (conns_of qs)) {#} (treat_store bs w)"
    using assms unfolding treat_inv_def town_def treat_store_def by (auto intro!: owned_map_heap)
  with assms show ?thesis
    by (simp add: treat_inv_def disciplined_def treat_store_def)
qed

lemma treat_peek_inv:
  assumes "treat_inv [] w" and "cqes_justified (wc_log w) qs"
  shows "treat_inv qs (tcall (C_peek qs) w)"
proof -
  have sub: "mset (conns_of qs) \<subseteq># inflight (wc_log w)"
    using assms(2) by (simp add: cqes_justified_def)
  have "owned cn_next (\<lambda>c. cn_state c = ST_RECV) (wc_heap w) (wc_free_head w)
      (inflight (wc_log w)) (live (wc_log w)) {#} {#}"
    using assms(1) by (simp add: treat_inv_def town_def)
  from owned_deliver [OF this sub] have "town (mset (conns_of qs)) {#} (tcall (C_peek qs) w)"
    by (simp add: town_def)
  with assms(1) show ?thesis
    using keeps_call [of w "C_peek qs"] by (auto simp: treat_inv_def keeps_def)
qed

text \<open>No receive asks for more than the buffer holds, and the buffer lies within the object.\<close>

lemma buffer_in_object: "n \<le> READ_BUF_SZ \<Longrightarrow> OFFSETOF_BUF + n \<le> SIZEOF_CONN"
  by (simp add: READ_BUF_SZ_def OFFSETOF_BUF_def SIZEOF_CONN_def)

lemma treat_recv_len:
  assumes "list_all (sqe_ok s d l) (prepared h)" and "cfg_recv_buf (srv_cfg s) = 256"
  shows "recv_len h a \<le> READ_BUF_SZ"
  using recv_len_bound [OF assms(1), of a] assms(2) by (simp add: READ_BUF_SZ_def c_size_t_def)

lemma justified_fits:
  assumes "cqes_justified h qs" and "\<And>a. recv_len h a \<le> READ_BUF_SZ"
  shows "list_all buf_fits qs"
  using assms buffer_in_object
  by (auto simp: cqes_justified_def list_all_iff buf_fits_def split: uref.splits) (metis order_trans)+

lemma disciplined_shape: "list_all (treat_call d l) h \<Longrightarrow> list_all (sqe_ok treat_srv d l) (prepared h)"
  by (induction h rule: prepared.induct) (auto simp: treat_call_def)

lemma treat_body_inv:
  assumes "malloc_fresh env" and "kernel_ok env" and inv: "treat_inv [] w"
  shows "\<exists>r. treat_body env w = Some r \<and> (case r of
      Continue w' \<Rightarrow> treat_inv [] w' \<and> length (wc_log w) < length (wc_log w')
    | Break w' \<Rightarrow> treat_inv [] w')"
proof -
  define ret where "ret = e_wait env (wc_log w)"
  define w1 where "w1 = tcall (C_wait TREAT_REPLY ret) w"
  have inv1: "treat_inv [] w1"
    unfolding w1_def by (rule treat_inv_call [OF inv]) (simp_all add: treat_call_def)
  show ?thesis
  proof (cases "ret < 0")
    case True
    have "treat_inv [] (tcall (C_stderr e) w1)" for e
      by (rule treat_inv_call [OF inv1]) simp_all
    moreover have "length (wc_log w) < length (wc_log w1)"
      by (simp add: w1_def)
    ultimately show ?thesis
      unfolding treat_body_def Let_def ret_def [symmetric] w1_def [symmetric] using True inv1 by simp
  next
    case False
    define qs where "qs = e_peek env (wc_log w1) CQE_BATCH"
    have qs: "length qs \<le> CQE_BATCH" "cqes_justified (wc_log w1) qs"
      using kernel_okD [OF assms(2)] by (auto simp: qs_def)
    have "list_all (sqe_ok treat_srv (wc_direct w1) (wc_listen_fd w1)) (prepared (wc_log w1))"
      using inv1 by (simp add: treat_inv_def disciplined_def disciplined_shape)
    from justified_fits [OF qs(2) treat_recv_len [OF this]]
    have fits: "list_all buf_fits qs"
      by (simp add: treat_srv_def READ_BUF_SZ_def)
    let ?v = "treat_store qs (tcall (C_peek qs) w1)"
    have "treat_inv qs ?v"
      by (rule treat_store_inv [OF treat_peek_inv [OF inv1 qs(2)]])
    with assms(1) obtain w2 where w2: "for_each (treat_handle env) qs ?v = Some w2" "treat_inv [] w2"
      using treat_batch.drains_all [of env qs ?v] by blast
    have "length (wc_log ?v) \<le> length (wc_log w2)"
      using keeps_drain [OF w2(1)] by (simp add: keeps_def)
    then have "length (wc_log w) < length (wc_log (tcall (C_advance (length qs)) w2))"
      by (simp add: treat_store_def w1_def)
    moreover have "treat_inv [] (tcall (C_advance (length qs)) w2)"
      by (rule treat_inv_call [OF w2(2)]) simp_all
    ultimately show ?thesis
      using False qs(1) w2
      by (simp add: treat_body_def ret_def [symmetric] w1_def [symmetric] qs_def [symmetric] Let_def
          treat_deliver_def fits)
  qed
qed

interpretation treat_loop: event_loop "\<lambda>w. False" "treat_body env"
  "\<lambda>w. malloc_fresh env \<and> kernel_ok env \<and> treat_inv [] w" "\<lambda>w. length (wc_log w)"
  by unfold_locales (use treat_body_inv in fastforce)+

subsection \<open>Starting\<close>

text \<open>A worker before its loop, as the thread entry hands it over.\<close>

definition treat_idle :: "worker_ctx \<Rightarrow> bool" where
  "treat_idle w \<longleftrightarrow> wc_marker w = ST_ACCEPT \<and> wc_free_head w = None \<and> wc_heap w = Map.empty \<and>
     inflight (wc_log w) = {#} \<and> live (wc_log w) = {} \<and> prepared (wc_log w) = [] \<and>
     list_all (treat_call (wc_direct w) (wc_listen_fd w)) (wc_log w)"

lemma treat_idle_inv: "treat_idle w \<Longrightarrow> treat_inv [] w"
  by (simp add: treat_idle_def treat_inv_def town_def owned_def disciplined_def)

lemma treat_warm_inv:
  assumes "malloc_fresh env" and "treat_inv [] w"
  shows "\<exists>w'. treat_warm env n w = Some w' \<and> treat_inv [] w'"
proof -
  have "\<exists>w'. treat_warm env n w = Some w' \<and> town {#} {#} w'" if "town {#} {#} w" for w
    using that
  proof (induction n arbitrary: w)
    case (Suc n)
    obtain p w1 where m: "malloc_conn env w = (p, w1)"
      by (cases "malloc_conn env w")
    have "town {#} (case p of None \<Rightarrow> {#} | Some a \<Rightarrow> {#a#}) w1"
      using malloc_conn_town [OF assms(1) Suc.prems m] by simp
    then obtain w2 where "(case p of None \<Rightarrow> Some w1 | Some c \<Rightarrow> conn_free c w1) = Some w2" "town {#} {#} w2"
      using conn_free_town [of "{#}" _ "{#}" w1] by (cases p) auto
    with Suc.IH m show ?case by simp
  qed simp
  from this [of w] assms(2) obtain w' where "treat_warm env n w = Some w'" "town {#} {#} w'"
    by (auto simp: treat_inv_def)
  with assms(2) keeps_warm show ?thesis
    by (fastforce simp: treat_inv_def keeps_def)
qed

definition treat_heads :: "treat_env \<Rightarrow> worker_ctx \<Rightarrow> worker_ctx \<Rightarrow> bool" where
  "treat_heads env w v \<longleftrightarrow> (\<exists>w1. treat_warm env 128 w = Some w1 \<and>
     loop_head (\<lambda>w. False) (treat_body env) (arm_accept env w1) v)"

lemma treat_entry:
  assumes "malloc_fresh env" and "treat_idle w"
  obtains w1 where "treat_warm env 128 w = Some w1" and "treat_inv [] (arm_accept env w1)"
proof -
  from treat_warm_inv [OF assms(1) treat_idle_inv [OF assms(2)]] obtain w1 where
    w1: "treat_warm env 128 w = Some w1" "treat_inv [] w1"
    by blast
  have "treat_inv [] (arm_accept env w1)"
    using w1(2) arm_accept_town keeps_arm [of w1 env] by (auto simp: treat_inv_def keeps_def)
  with w1(1) show thesis by (rule that)
qed

lemma treat_heads_inv:
  assumes "malloc_fresh env" and "kernel_ok env" and "treat_idle w" and "treat_heads env w v"
  shows "treat_inv [] v"
proof -
  from treat_entry [OF assms(1,3)] obtain w1 where
    "treat_warm env 128 w = Some w1" "treat_inv [] (arm_accept env w1)" .
  with assms treat_loop.head_inv [of env "arm_accept env w1" v] show ?thesis
    by (auto simp: treat_heads_def)
qed

lemma treat_body_keeps: "treat_body env w = Some (Continue w') \<Longrightarrow> keeps w w'"
proof -
  assume b: "treat_body env w = Some (Continue w')"
  have k: "keeps w (tcall (C_wait TREAT_REPLY r) w)" for r
    by (rule keeps_call) (simp add: treat_call_def)
  have "keeps w (tcall (C_advance n) w2)"
    if "for_each (treat_handle env) qs (treat_store qs (tcall (C_peek qs) (tcall (C_wait TREAT_REPLY r) w))) = Some w2"
    for qs r n w2
  proof -
    have "keeps w (treat_store qs (tcall (C_peek qs) (tcall (C_wait TREAT_REPLY r) w)))"
      using k by (simp add: treat_store_def)
    with keeps_drain [OF that] show ?thesis
      by (blast intro: keeps_trans keeps_other)
  qed
  with b k show ?thesis
    by (auto simp: treat_body_def treat_deliver_def Let_def split: if_splits bind_splits)
qed

lemma treat_heads_keeps: "treat_heads env w v \<Longrightarrow> keeps w v"
proof -
  assume "treat_heads env w v"
  then obtain w1 where w1: "treat_warm env 128 w = Some w1"
      "loop_head (\<lambda>w. False) (treat_body env) (arm_accept env w1) v"
    by (auto simp: treat_heads_def)
  from w1(2) have "keeps (arm_accept env w1) v"
    by (induction rule: loop_head.induct) (auto intro: keeps_trans treat_body_keeps)
  with keeps_warm [OF w1(1)] keeps_arm show ?thesis
    by (blast intro: keeps_trans)
qed

text \<open>A disciplined history transmits nothing but the reply.\<close>

lemma disciplined_unsent:
  "list_all (treat_call d l) h \<Longrightarrow> q \<in> set (unsent h) \<Longrightarrow> sqe_op q = OP_SEND \<Longrightarrow> sqe_len q = REPLY_LEN"
  by (induction h rule: unsent.induct) (auto simp: treat_call_def)

lemma payloads_exact:
  "(\<And>q. q \<in> set qs \<Longrightarrow> sqe_op q = OP_SEND \<Longrightarrow> sqe_len q = REPLY_LEN) \<Longrightarrow>
   p \<in> set (payloads TREAT_REPLY qs) \<Longrightarrow> snd p = TREAT_REPLY"
  by (induction qs) (auto simp: REPLY_LEN_def TREAT_REPLY_def split: if_splits)

lemma disciplined_flush:
  "list_all (treat_call d l) h \<Longrightarrow> p \<in> set (payloads TREAT_REPLY (unsent h)) \<Longrightarrow> snd p = TREAT_REPLY"
  by (rule payloads_exact [rotated]) (auto dest: disciplined_unsent)

lemma disciplined_transmitted:
  "list_all (treat_call d l) h \<Longrightarrow> p \<in> set (transmitted h) \<Longrightarrow> snd p = TREAT_REPLY"
  by (induction h rule: transmitted.induct) (auto simp: treat_call_def dest: disciplined_flush)

lemma disciplined_prepared:
  "list_all (treat_call d l) h \<Longrightarrow> q \<in> set (prepared h) \<Longrightarrow> sqe_ok treat_srv d l q"
  by (induction h rule: prepared.induct) (auto simp: treat_call_def)

end
