(* ===== verification/Treat_Props.thy ===== *)
theory Treat_Props
  imports Treat_Inv Echo
begin

text \<open>
  The properties of the benchmark server, with a run in which one client connects on descriptor 5
  and is served.
\<close>

subsection \<open>A run\<close>

definition treat_demo :: treat_env where
  "treat_demo =
     \<lparr>e_get_sqe = e_get_sqe demo_env, e_wait = e_wait demo_env, e_peek = e_peek demo_env,
      e_malloc = e_malloc demo_env,
      e_uninit = \<lambda>h. \<lparr>cn_next = None, cn_state = ST_CLOSE, cn_fd = 0, cn_sent = 0, cn_buf = []\<rparr>,
      e_stop = e_stop demo_env, e_handler = e_handler demo_env,
      e_queue_init = e_queue_init demo_env, e_register_files = e_register_files demo_env\<rparr>"

lemma treat_demo_contracts: "malloc_fresh treat_demo" "kernel_ok treat_demo"
  using demo_contracts [of one_client]
  by (simp_all add: contracts_def malloc_fresh_def kernel_ok_def treat_demo_def)

fun treat_iterate :: "nat \<Rightarrow> treat_env \<Rightarrow> worker_ctx \<Rightarrow> worker_ctx option" where
  "treat_iterate 0 env w = Some w"
| "treat_iterate (Suc n) env w =
     (case treat_body env w of Some (Continue w') \<Rightarrow> treat_iterate n env w' | _ \<Rightarrow> None)"

lemma treat_iterate_head:
  "treat_iterate n env w = Some v \<Longrightarrow> loop_head (\<lambda>w. False) (treat_body env) w v"
proof (induction n arbitrary: w)
  case 0
  then show ?case by (simp add: loop_head.enter)
next
  case (Suc n)
  then obtain w' where "treat_body env w = Some (Continue w')" "treat_iterate n env w' = Some v"
    by (auto split: option.splits loop_next.splits)
  with Suc.IH [of w'] show ?case
    by (auto intro: loop_head_step)
qed

lemma treat_warm_no_memory:
  assumes "wc_log w = [] \<or> (\<exists>n p h. wc_log w = C_malloc n p # h)"
  shows "treat_warm treat_demo n w =
    Some (w\<lparr>wc_log := replicate n (C_malloc SIZEOF_CONN None) @ wc_log w\<rparr>)"
  using assms
proof (induction n arbitrary: w)
  case (Suc n)
  then have m: "malloc_conn treat_demo w = (None, tcall (C_malloc SIZEOF_CONN None) w)"
    by (auto simp: malloc_conn_def treat_demo_def lazy_env_def Let_def)
  with Suc.IH [of "tcall (C_malloc SIZEOF_CONN None) w"] show ?case
    by (simp add: tcall_def replicate_app_Cons_same)
qed simp

definition treat_start :: worker_ctx where
  "treat_start = arm_accept treat_demo ((treat_new_worker 3)\<lparr>wc_log := replicate 128 (C_malloc 280 None)\<rparr>)"

lemma treat_run:
  "map_option (\<lambda>v. inflight (wc_log v)) (treat_iterate 1 treat_demo treat_start) = Some {#0#} \<and>
   map_option (\<lambda>v. transmitted (wc_log v)) (treat_iterate 3 treat_demo treat_start) = Some [(5, TREAT_REPLY)]"
  by code_simp

lemma treat_start_heads:
  "treat_iterate n treat_demo treat_start = Some v \<Longrightarrow> treat_heads treat_demo (treat_new_worker 3) v"
  by (auto simp: treat_heads_def treat_warm_no_memory treat_start_def treat_new_worker_def SIZEOF_CONN_def
      intro: treat_iterate_head)

lemma treat_waiting:
  obtains v where "treat_heads treat_demo (treat_new_worker 3) v" "inflight (wc_log v) = {#0#}"
  using treat_run by (auto simp del: treat_iterate.simps dest: treat_start_heads)

lemma treat_served:
  obtains v where "treat_heads treat_demo (treat_new_worker 3) v" "transmitted (wc_log v) = [(5, TREAT_REPLY)]"
  using treat_run by (auto simp del: treat_iterate.simps dest: treat_start_heads)

lemma treat_new_idle: "treat_idle (treat_new_worker fd)"
  by (simp add: treat_idle_def treat_new_worker_def)

subsection \<open>Properties\<close>

text \<open>
  C30. A thread of the benchmark server has no undefined behaviour, from its entry on and however
  long it runs, with or without the ring flags and the direct descriptor table: under the
  contracts of kernel and allocator it never touches an object that does not exist, no received
  byte lands outside the buffer of its connection or outside the allocated object, no send reads
  beyond the static reply, and no batch exceeds the array it is copied to.
\<close>

theorem treat_thread_safe:
  assumes "malloc_fresh env" and "kernel_ok env"
  shows "treat_thread_entry env cpu (treat_new_worker fd) \<noteq> Some Undefined"
proof -
  have main: "treat_worker_main env w \<noteq> Some Undefined" if "treat_idle w" for w
  proof -
    from treat_entry [OF assms(1) that] obtain w1 where
      w1: "treat_warm env 128 w = Some w1" "treat_inv [] (arm_accept env w1)" .
    then show ?thesis
      using treat_loop.exit_inv [of env "arm_accept env w1"] assms
      by (auto simp: treat_worker_main_def)
  qed
  have "treat_idle w" if "wc_marker w = ST_ACCEPT" "wc_free_head w = None" "wc_heap w = Map.empty"
      "inflight (wc_log w) = {#}" "live (wc_log w) = {}" "prepared (wc_log w) = []"
      "list_all (treat_call (wc_direct w) (wc_listen_fd w)) (wc_log w)" for w
    using that by (simp add: treat_idle_def)
  with main show ?thesis
    by (auto simp: treat_thread_entry_def treat_ring_setup_def treat_new_worker_def Let_def)
qed

theorem treat_thread_safe_witness: "treat_thread_entry treat_demo 0 (treat_new_worker 3) \<noteq> Some Undefined"
  using treat_thread_safe [OF treat_demo_contracts] .

text \<open>
  C31. The benchmark server keeps its connections apart, too: whenever a worker waits, every object
  is either on the freelist, once, or has one receive in flight, and then it is in state ST_RECV.
  So the branch for the states ST_SEND and ST_CLOSE is indeed unreachable.
\<close>

theorem treat_connections_partitioned:
  assumes "malloc_fresh env" and "kernel_ok env" and "treat_idle w" and "treat_heads env w v"
  shows "\<exists>fl. tfreelist v fl \<and> mset fl + inflight (wc_log v) = mset_set (dom (wc_heap v)) \<and>
    (\<forall>a. a \<in># inflight (wc_log v) \<longrightarrow> (\<exists>c. wc_heap v a = Some c \<and> cn_state c = ST_RECV))"
proof -
  have own: "town {#} {#} v"
    using treat_heads_inv [OF assms] by (simp add: treat_inv_def)
  then obtain fl where fl: "tfreelist v fl"
    using town_freelist by blast
  from town_partition(1) [OF own fl] town_busy [OF own] fl show ?thesis
    by auto
qed

theorem treat_connections_partitioned_witness:
  "\<exists>v c. treat_heads treat_demo (treat_new_worker 3) v \<and> inflight (wc_log v) = {#0#} \<and>
     wc_heap v 0 = Some c \<and> cn_state c = ST_RECV"
proof -
  obtain v where v: "treat_heads treat_demo (treat_new_worker 3) v" "inflight (wc_log v) = {#0#}"
    by (rule treat_waiting)
  with treat_connections_partitioned [OF treat_demo_contracts treat_new_idle v(1)] show ?thesis
    by auto
qed

text \<open>
  Every payload the benchmark server sends is exactly the 19-byte reply, whatever the kernel
  and the allocator do: the reply is static, so the overwriting of the library's scratch cannot
  happen here.
\<close>

lemma treat_payload:
  assumes "treat_idle w" and "treat_heads env w v" and "p \<in> set (transmitted (wc_log v))"
  shows "snd p = TREAT_REPLY"
proof -
  have "disciplined v"
    using assms(1) treat_heads_keeps [OF assms(2)] by (auto simp: treat_idle_def disciplined_def keeps_def)
  then show ?thesis
    unfolding disciplined_def using disciplined_transmitted assms(3) by blast
qed

text \<open>
  The library keeps the wire protocol of the benchmark server it was made from: every entry
  the benchmark server submits has the shape that the library's entries have in the same
  configuration (multishot accept, 256-byte receives, the 19-byte reply).
\<close>

lemma treat_entries_like_library:
  assumes "treat_idle w" and "treat_heads env w v" and "q \<in> set (prepared (wc_log v))"
  shows "sqe_ok treat_srv (wc_direct w) (wc_listen_fd w) q"
proof -
  have "disciplined v" "wc_direct v = wc_direct w" "wc_listen_fd v = wc_listen_fd w"
    using assms(1) treat_heads_keeps [OF assms(2)] by (auto simp: treat_idle_def disciplined_def keeps_def)
  then show ?thesis
    using disciplined_prepared [of "wc_direct v" "wc_listen_fd v" "wc_log v" q] assms(3)
    by (simp add: disciplined_def)
qed

text \<open>
  The two routines that make a listening socket agree: the benchmark server's gives the same
  descriptor as the library's with a backlog of 4096, fails in the same cases, and makes the same
  system calls when it succeeds.
\<close>

lemma make_listen_socket_equiv:
  "fst (make_listen_socket env port h) = fst (fa_make_listen_socket env port 4096 h) \<and>
    (snd (make_listen_socket env port h) = snd (fa_make_listen_socket env port 4096 h) \<or>
     fst (make_listen_socket env port h) = -1)"
  by (simp add: make_listen_socket_def fa_make_listen_socket_def Let_def)

text \<open>
  The benchmark server starts one worker per allowed CPU, pinned to it; with an empty affinity
  mask it starts one worker and pins it to CPU 0, which the mask does not contain.
\<close>

lemma treat_one_worker_per_cpu:
  "treat_cpus aff = (if \<exists>cpu < CPU_SETSIZE. aff cpu then map int (filter aff [0 ..< CPU_SETSIZE]) else [0])"
proof -
  have "filter aff [0 ..< CPU_SETSIZE] = [] \<longleftrightarrow> \<not> (\<exists>cpu < CPU_SETSIZE. aff cpu)"
    by (auto simp: filter_empty_conv)
  then show ?thesis
    by (auto simp: treat_cpus_def collect_loop_filter Let_def Suc_le_eq)
qed

end
