(* ===== verification/Extracted.thy ===== *)
theory Extracted
  imports Treat_Props Lifecycle_Props
begin

text \<open>
  The library was extracted from the benchmark server. This theory proves that the extraction
  kept the behaviour: a library worker with a constant reply makes, call for call, the calls of a
  worker of \<open>research/treatment/accept-treat.c\<close>, and the other way round. What the library's
  worker does beyond them is invisible to the kernel: it calls the handler, and its waits time
  out now and then so that it can look at the stop flag.
\<close>

subsection \<open>The benchmark server's view of a library history\<close>

text \<open>
  Handler calls and waits that timed out disappear; the reply buffer, the size of a connection
  and the diagnostics are the benchmark server's.
\<close>

fun bench_call :: "call \<Rightarrow> history" where
  "bench_call (C_submit b) = [C_submit TREAT_REPLY]"
| "bench_call (C_wait b r) = (if r = - ETIME then [] else [C_wait TREAT_REPLY r])"
| "bench_call (C_malloc n p) = [C_malloc SIZEOF_CONN p]"
| "bench_call (C_handler req cap r) = []"
| "bench_call (C_stderr e) =
     [C_stderr (if e = ''flashaccept: submit_and_wait'' then ''io_uring_submit_and_wait'' else ''io_uring_queue_init'')]"
| "bench_call (C_register_files n r) =
     (if r = 0 then [C_register_files n r]
      else [C_stderr ''register_files_sparse failed; using regular fds'', C_register_files n r])"
| "bench_call c = [c]"

definition view :: "history \<Rightarrow> history" where
  "view h = concat (map bench_call h)"

lemma view_simps [simp]: "view [] = []" "view (c # h) = bench_call c @ view h"
  by (simp_all add: view_def)

lemma view_reading:
  assumes "\<And>c h h'. f h' = f h \<Longrightarrow> f (bench_call c @ h') = f (c # h)"
  shows "f (view h) = f h"
  by (induction h) (simp_all add: assms)

lemma view_readings [simp]:
  "inflight (view h) = inflight h" "live (view h) = live h" "accepted (view h) = accepted h"
  "closed (view h) = closed h" "recv_fd (view h) = recv_fd h" "answers (view h) = answers h"
  "recv_len (view h) = recv_len h"
  by (rule view_reading; case_tac c; auto intro: ext)+

subsection \<open>Corresponding states and environments\<close>

text \<open>
  Connections: the same descriptor and link, and the same answer to the question whether a
  receive is outstanding. The library dropped the field \<open>sent\<close> and the states no code enters.
\<close>

definition same_conn :: "fa_conn \<Rightarrow> conn \<Rightarrow> bool" where
  "same_conn c d \<longleftrightarrow> fc_next c = cn_next d \<and> fc_fd c = cn_fd d \<and>
     (fc_state c = FA_ST_RECV \<longleftrightarrow> cn_state d = ST_RECV)"

lemma same_conn_buf [simp]: "same_conn (c\<lparr>fc_buf := b\<rparr>) (d\<lparr>cn_buf := b'\<rparr>) = same_conn c d"
  by (simp add: same_conn_def)

definition corr :: "fa_worker \<Rightarrow> worker_ctx \<Rightarrow> bool" where
  "corr w t \<longleftrightarrow> wc_listen_fd t = w_listen_fd w \<and> wc_direct t = w_direct w \<and>
     (wc_marker t = ST_ACCEPT \<longleftrightarrow> w_marker w = FA_ST_ACCEPT) \<and> wc_free_head t = w_free_head w \<and>
     (\<forall>a. rel_option same_conn (w_heap w a) (wc_heap t a)) \<and> wc_log t = view (w_log w)"

text \<open>The last wait timed out and nothing happened since: the worker is about to wait again.\<close>

fun timed_out :: "history \<Rightarrow> bool" where
  "timed_out (C_wait b r # h) = (r = - ETIME)"
| "timed_out _ = False"

text \<open>
  Two environments that answer alike. The library's may let a wait time out where the benchmark
  server's keeps waiting; until the next wait the worker asks nothing.
\<close>

definition alike :: "fa_env \<Rightarrow> treat_env \<Rightarrow> bool" where
  "alike env tenv \<longleftrightarrow> (\<forall>h. e_wait env h = - ETIME \<or> e_wait env h = e_wait tenv (view h)) \<and>
     (\<forall>h. \<not> timed_out h \<longrightarrow>
        e_get_sqe env h = e_get_sqe tenv (view h) \<and>
        (\<forall>n. e_peek env h n = e_peek tenv (view h) n) \<and>
        (\<forall>n. e_malloc env h n = e_malloc tenv (view h) SIZEOF_CONN) \<and>
        same_conn (e_uninit env h) (e_uninit tenv (view h)) \<and>
        (\<forall>b. e_queue_init env h b = e_queue_init tenv (view h) b) \<and>
        (\<forall>n. e_register_files env h n = e_register_files tenv (view h) n))"

lemma alikeD:
  assumes "alike env tenv" and "\<not> timed_out h"
  shows "e_get_sqe tenv (view h) = e_get_sqe env h" "e_peek tenv (view h) n = e_peek env h n"
    "e_malloc tenv (view h) SIZEOF_CONN = e_malloc env h n"
    "same_conn (e_uninit env h) (e_uninit tenv (view h))"
    "e_queue_init tenv (view h) b = e_queue_init env h b"
    "e_register_files tenv (view h) n = e_register_files env h n"
  using assms by (auto simp: alike_def)

text \<open>During a batch.\<close>

definition follows :: "fa_worker \<Rightarrow> worker_ctx \<Rightarrow> bool" where
  "follows w t \<longleftrightarrow> corr w t \<and> \<not> timed_out (w_log w)"

lemma corr_heap: "corr w t \<Longrightarrow> rel_option same_conn (w_heap w a) (wc_heap t a)"
  by (simp add: corr_def)

lemma followsD:
  assumes "follows w t"
  shows "wc_listen_fd t = w_listen_fd w" "wc_direct t = w_direct w"
    "wc_marker t = ST_ACCEPT \<longleftrightarrow> w_marker w = FA_ST_ACCEPT" "wc_free_head t = w_free_head w"
    "wc_log t = view (w_log w)" "\<not> timed_out (w_log w)" "rel_option same_conn (w_heap w a) (wc_heap t a)"
  using assms by (auto simp: follows_def corr_def)

lemma follows_call:
  "follows w t \<Longrightarrow> bench_call c = [d] \<Longrightarrow> \<not> timed_out [c] \<Longrightarrow> follows (call c w) (tcall d t)"
  by (cases c) (auto simp: follows_def corr_def)

lemma follows_quiet: "follows w t \<Longrightarrow> bench_call c = [] \<Longrightarrow> \<not> timed_out [c] \<Longrightarrow> follows (call c w) t"
  by (cases c) (auto simp: follows_def corr_def)

lemma follows_upd:
  "follows w t \<Longrightarrow> same_conn c d \<Longrightarrow>
   follows (w\<lparr>w_heap := (w_heap w)(a \<mapsto> c)\<rparr>) (t\<lparr>wc_heap := (wc_heap t)(a \<mapsto> d)\<rparr>)"
  by (simp add: follows_def corr_def)

lemma follows_fields [simp]:
  "follows w t \<Longrightarrow> follows (w\<lparr>w_free_head := p\<rparr>) (t\<lparr>wc_free_head := p\<rparr>)"
  "follows w t \<Longrightarrow> follows (w\<lparr>w_marker := FA_ST_ACCEPT\<rparr>) (t\<lparr>wc_marker := ST_ACCEPT\<rparr>)"
  "follows w t \<Longrightarrow> follows (w\<lparr>w_reply := r\<rparr>) t"
  by (simp_all add: follows_def corr_def)

subsection \<open>The helpers\<close>

lemma conn_free_follows: "follows w t \<Longrightarrow> rel_option follows (fa_conn_free c w) (conn_free c t)"
  using followsD(7) [of w t c]
  by (cases rule: option.rel_cases)
    (auto simp: fa_conn_free_def conn_free_def followsD(4) same_conn_def intro!: follows_fields(1) follows_upd)

lemma get_sqe_follows:
  assumes "alike env tenv" and "follows w t" and "acquire_sqe env w = (ok, w1)"
  obtains t1 where "get_sqe tenv t = (ok, t1)" and "follows w1 t1"
proof -
  have sub: "follows (call (C_submit (w_reply w)) w) (tcall (C_submit TREAT_REPLY) t)"
    by (rule follows_call [OF assms(2)]) simp_all
  note ans = alikeD(1) [OF assms(1) followsD(6) [OF assms(2)]] alikeD(1) [OF assms(1) followsD(6) [OF sub]]
  with assms(2,3) sub that show thesis
    by (auto simp: acquire_sqe_def get_sqe_def followsD(5) split: if_splits)
qed

lemma malloc_follows:
  assumes "alike env tenv" and "follows w t" and "conn_malloc env s w = (p, w1)"
  obtains t1 where "malloc_conn tenv t = (p, t1)" and "follows w1 t1"
proof -
  let ?n = "c_size_t (srv_conn_size s)"
  have m: "follows (call (C_malloc ?n p) w) (tcall (C_malloc SIZEOF_CONN p) t)"
    by (rule follows_call [OF assms(2)]) simp_all
  note ans = alikeD [OF assms(1) followsD(6) [OF assms(2)]]
  show thesis
  proof (cases p)
    case None
    with assms(3) ans(3) [of ?n] m that show thesis
      by (auto simp: conn_malloc_def malloc_conn_def followsD(5) [OF assms(2)] Let_def split: option.splits)
  next
    case (Some a)
    have "same_conn ((e_uninit env (w_log w))\<lparr>fc_room := ?n\<rparr>) (e_uninit tenv (view (w_log w)))"
      using ans(4) by (simp add: same_conn_def)
    from follows_upd [OF m this, of a] Some assms(3) ans(3) [of ?n] that show thesis
      by (auto simp: conn_malloc_def malloc_conn_def followsD(5) [OF assms(2)] Let_def split: option.splits)
  qed
qed

lemma conn_alloc_follows:
  assumes "alike env tenv" and "follows w t"
  shows "rel_option (rel_prod (=) follows) (fa_conn_alloc env s w) (conn_alloc tenv t)"
proof (cases "w_free_head w")
  case None
  obtain p w1 where m: "conn_malloc env s w = (p, w1)"
    by (cases "conn_malloc env s w")
  obtain t1 where "malloc_conn tenv t = (p, t1)" "follows w1 t1"
    by (rule malloc_follows [OF assms m])
  with m None show ?thesis
    by (simp add: fa_conn_alloc_def conn_alloc_def followsD(4) [OF assms(2)])
next
  case (Some c)
  from followsD(7) [OF assms(2), of c] Some assms(2) show ?thesis
    by (cases rule: option.rel_cases)
      (auto simp: fa_conn_alloc_def conn_alloc_def followsD(4) [OF assms(2)] same_conn_def)
qed

lemma arm_accept_follows:
  assumes "alike env tenv" and "follows w t" and "cfg_multishot (srv_cfg s) \<noteq> 0"
  shows "follows (fa_arm_accept env s w) (arm_accept tenv t)"
proof -
  obtain ok w1 where acq: "acquire_sqe env w = (ok, w1)"
    by (cases "acquire_sqe env w")
  obtain t1 where t1: "get_sqe tenv t = (ok, t1)" "follows w1 t1"
    by (rule get_sqe_follows [OF assms(1,2) acq])
  have "follows (call (C_prep q) (w1\<lparr>w_marker := FA_ST_ACCEPT\<rparr>)) (tcall (C_prep q) (t1\<lparr>wc_marker := ST_ACCEPT\<rparr>))"
    for q
    by (rule follows_call) (use t1(2) in simp_all)
  with acq t1 assms(3) show ?thesis
    by (simp add: fa_arm_accept_def arm_accept_def Let_def followsD(1,2))
qed

lemma give_up_follows:
  assumes "follows w t" and "same_conn obj d"
  shows "rel_option follows (drop_conn c obj w) (give_up c d t)"
proof -
  have "follows (call (C_close (fc_fd obj)) w) (tcall (C_close (cn_fd d)) t)"
    by (rule follows_call [OF assms(1)]) (use assms(2) in \<open>simp_all add: same_conn_def\<close>)
  with assms(1) show ?thesis
    by (simp add: drop_conn_def give_up_def followsD(2) conn_free_follows)
qed

lemma close_free_follows:
  assumes "follows w t"
  shows "rel_option follows (fa_conn_free c (call (C_prep (close_sqe w fd)) w))
    (conn_free c (tcall (C_prep (treat_close_sqe t fd)) t))"
proof -
  have "treat_close_sqe t fd = close_sqe w fd"
    by (simp add: treat_close_sqe_def close_sqe_def followsD(2) [OF assms])
  with assms show ?thesis
    by (intro conn_free_follows follows_call) simp_all
qed

lemma submit_recv_follows:
  assumes "alike env tenv" and "follows w t" and "cfg_recv_buf (srv_cfg s) = 256"
  shows "rel_option follows (fa_submit_recv env s c w) (submit_recv tenv c t)"
  using followsD(7) [OF assms(2), of c]
proof (cases rule: option.rel_cases)
  case None
  then show ?thesis by (simp add: fa_submit_recv_def submit_recv_def)
next
  case (Some obj d)
  obtain ok w1 where acq: "acquire_sqe env w = (ok, w1)"
    by (cases "acquire_sqe env w")
  obtain t1 where t1: "get_sqe tenv t = (ok, t1)" "follows w1 t1"
    by (rule get_sqe_follows [OF assms(1,2) acq])
  let ?q = "(prep_recv (fc_fd obj) c READ_BUF_SZ)\<lparr>sqe_flags := if w_direct w1 then {IOSQE_FIXED_FILE} else {},
    sqe_user_data := UConn c\<rparr>"
  have "follows (call (C_prep ?q) (w1\<lparr>w_heap := (w_heap w1)(c \<mapsto> obj\<lparr>fc_state := FA_ST_RECV\<rparr>)\<rparr>))
      (tcall (C_prep ?q) (t1\<lparr>wc_heap := (wc_heap t1)(c \<mapsto> d\<lparr>cn_state := ST_RECV\<rparr>)\<rparr>))"
    using t1(2) Some(3)
    by (intro follows_call follows_upd) (simp_all add: same_conn_def)
  with Some acq t1 give_up_follows [OF t1(2) Some(3), of c] show ?thesis
    by (simp add: fa_submit_recv_def submit_recv_def Let_def followsD(2) same_conn_def
        assms(3) READ_BUF_SZ_def c_size_t_def)
qed

lemma submit_close_follows:
  assumes "alike env tenv" and "follows w t"
  shows "rel_option follows (fa_submit_close env c w) (submit_close tenv c t)"
  using followsD(7) [OF assms(2), of c]
proof (cases rule: option.rel_cases)
  case None
  then show ?thesis by (simp add: fa_submit_close_def submit_close_def)
next
  case (Some obj d)
  obtain ok w1 where acq: "acquire_sqe env w = (ok, w1)"
    by (cases "acquire_sqe env w")
  obtain t1 where t1: "get_sqe tenv t = (ok, t1)" "follows w1 t1"
    by (rule get_sqe_follows [OF assms acq])
  have "cn_fd d = fc_fd obj"
    using Some(3) by (simp add: same_conn_def)
  with Some acq t1 give_up_follows [OF t1(2) Some(3), of c] close_free_follows [OF t1(2), of c "fc_fd obj"]
  show ?thesis
    by (simp add: fa_submit_close_def submit_close_def)
qed

lemma submit_reply_follows:
  assumes "alike env tenv" and "follows w t"
  shows "rel_option follows (fa_submit_reply_and_close env c 19 w) (submit_reply_and_close tenv c t)"
  using followsD(7) [OF assms(2), of c]
proof (cases rule: option.rel_cases)
  case None
  then show ?thesis by (simp add: fa_submit_reply_and_close_def submit_reply_and_close_def)
next
  case (Some obj d)
  then have fd: "cn_fd d = fc_fd obj"
    by (simp add: same_conn_def)
  obtain ok w1 where acq: "acquire_sqe env w = (ok, w1)"
    by (cases "acquire_sqe env w")
  obtain t1 where t1: "get_sqe tenv t = (ok, t1)" "follows w1 t1"
    by (rule get_sqe_follows [OF assms acq])
  let ?w2 = "call (C_prep (send_sqe w1 (fc_fd obj) 19)) w1"
  let ?t2 = "tcall (C_prep (treat_send_sqe t1 (fc_fd obj))) t1"
  have "follows ?w2 ?t2"
    by (rule follows_call [OF t1(2)])
      (simp_all add: send_sqe_def treat_send_sqe_def prep_send_def REPLY_LEN_def followsD(2) [OF t1(2)])
  moreover obtain ok' w3 where acq': "acquire_sqe env ?w2 = (ok', w3)"
    by (cases "acquire_sqe env ?w2")
  ultimately obtain t3 where t3: "get_sqe tenv ?t2 = (ok', t3)" "follows w3 t3"
    using get_sqe_follows [OF assms(1)] by blast
  from Some fd acq acq' t1 t3 give_up_follows [OF t1(2) Some(3), of c] give_up_follows [OF t3(2) Some(3), of c]
    close_free_follows [OF t3(2), of c "fc_fd obj"]
  show ?thesis
    by (simp add: fa_submit_reply_and_close_def submit_reply_and_close_def Let_def)
qed

subsection \<open>The drain loop\<close>

lemma on_accept_follows:
  assumes "alike env tenv" and "follows w t" and "cfg_multishot (srv_cfg s) \<noteq> 0"
    and "cfg_recv_buf (srv_cfg s) = 256"
  shows "rel_option follows (fa_on_accept env s q w) (treat_on_accept tenv q t)"
proof -
  define w1 where "w1 = (if \<not> cqe_more q then fa_arm_accept env s w else w)"
  define t1 where "t1 = (if \<not> cqe_more q then arm_accept tenv t else t)"
  have f1: "follows w1 t1"
    using assms by (simp add: w1_def t1_def arm_accept_follows)
  show ?thesis
  proof (cases "cqe_res q < 0")
    case True
    with f1 show ?thesis
      by (simp add: fa_on_accept_def treat_on_accept_def w1_def t1_def)
  next
    case False
    have close: "follows (call (C_close (cqe_res q)) w2) (tcall (C_close (cqe_res q)) t2)" if "follows w2 t2" for w2 t2
      by (rule follows_call [OF that]) simp_all
    have recv: "rel_option follows
        (do { obj \<leftarrow> w_heap w2 c; fa_submit_recv env s c (w2\<lparr>w_heap := (w_heap w2)(c \<mapsto> obj\<lparr>fc_fd := cqe_res q\<rparr>)\<rparr>) })
        (do { obj \<leftarrow> wc_heap t2 c; submit_recv tenv c (t2\<lparr>wc_heap := (wc_heap t2)(c \<mapsto> obj\<lparr>cn_fd := cqe_res q, cn_sent := 0\<rparr>)\<rparr>) })"
      if "follows w2 t2" for w2 t2 c
      using followsD(7) [OF that, of c]
      by (cases rule: option.rel_cases)
        (auto simp: same_conn_def intro!: submit_recv_follows [OF assms(1) _ assms(4)] follows_upd [OF that])
    from conn_alloc_follows [OF assms(1) f1, of s] show ?thesis
      using False close recv followsD(2)
      by (cases rule: option.rel_cases)
        (auto simp: fa_on_accept_def treat_on_accept_def Let_def w1_def [symmetric] t1_def [symmetric] split: option.splits)
  qed
qed

text \<open>A library server set up like the benchmark server, in a like environment.\<close>

definition twins :: "fa_env \<Rightarrow> fa_server \<Rightarrow> treat_env \<Rightarrow> bool" where
  "twins env s tenv \<longleftrightarrow> alike env tenv \<and> const_server env s TREAT_REPLY \<and>
     cfg_multishot (srv_cfg s) \<noteq> 0 \<and> cfg_recv_buf (srv_cfg s) = 256"

definition paired :: "fa_env \<Rightarrow> fa_server \<Rightarrow> treat_env \<Rightarrow> cqe list \<Rightarrow> fa_worker \<Rightarrow> worker_ctx \<Rightarrow> bool" where
  "paired env s tenv qs w t \<longleftrightarrow> twins env s tenv \<and> worker_inv env s qs w \<and> follows w t"

lemma twins_contracts: "twins env s tenv \<Longrightarrow> alike env tenv \<and> contracts env s \<and> srv_ok s"
  by (simp add: twins_def const_server_def)

lemma on_recv_follows:
  assumes "twins env s tenv" and "follows w t" and "fa_on_recv env s c q w \<noteq> None"
  shows "rel_option follows (fa_on_recv env s c q w)
    (if cqe_res q \<le> 0 then submit_close tenv c t else submit_reply_and_close tenv c t)"
proof (cases "cqe_res q \<le> 0")
  case True
  with assms show ?thesis
    by (simp add: fa_on_recv_def twins_def submit_close_follows)
next
  case False
  have const: "e_handler env h req (cfg_reply_cap (srv_cfg s)) = (TREAT_REPLY, 19)"
      "19 \<le> cfg_reply_cap (srv_cfg s)" for h req
    using assms(1) by (simp_all add: twins_def const_server_def const_handler_def TREAT_REPLY_def)
  obtain obj where obj: "w_heap w c = Some obj"
    using False assms(3) by (auto simp: fa_on_recv_def split: bind_splits)
  let ?w1 = "call (C_handler (take (nat (cqe_res q)) (fc_buf obj)) (cfg_reply_cap (srv_cfg s)) 19)
    (w\<lparr>w_reply := store_bytes TREAT_REPLY (w_reply w)\<rparr>)"
  have h: "fa_on_recv env s c q w = fa_submit_reply_and_close env c 19 ?w1"
    using False assms(3) const obj by (auto simp: fa_on_recv_def call_handler_def Let_def split: if_splits)
  have "follows ?w1 t"
    using assms(2) by (intro follows_quiet) simp_all
  with False h assms(1) show ?thesis
    by (simp add: twins_def submit_reply_follows)
qed

lemma handle_follows:
  assumes "paired env s tenv (q # qs) w t"
  shows "rel_option follows (fa_handle_cqe env s q w) (treat_handle tenv q t)"
proof -
  have tw: "twins env s tenv" "alike env tenv" "cfg_multishot (srv_cfg s) \<noteq> 0"
      "cfg_recv_buf (srv_cfg s) = 256" and inv: "worker_inv env s (q # qs) w"
    and f: "follows w t" and m: "w_marker w = FA_ST_ACCEPT"
    using assms by (simp_all add: paired_def twins_def worker_inv_def tidy_def)
  have ok: "fa_handle_cqe env s q w \<noteq> None"
    using fa_handle_cqe_inv [OF _ _ inv] twins_contracts [OF tw(1)] by force
  show ?thesis
  proof (cases "cqe_user_data q")
    case UNull
    with f show ?thesis by (simp add: fa_handle_cqe_def treat_handle_def)
  next
    case UMarker
    with m f on_accept_follows [OF tw(2) f tw(3,4)] show ?thesis
      by (simp add: fa_handle_cqe_def treat_handle_def followsD(3) [OF f])
  next
    case (UConn c)
    then obtain obj where obj: "w_heap w c = Some obj" "fc_state obj = FA_ST_RECV"
      using inv own_busy [of "mset (conns_of (q # qs))" "{#}" w c] by (auto simp: worker_inv_def)
    then obtain d where d: "wc_heap t c = Some d" "cn_state d = ST_RECV"
      using followsD(7) [OF f, of c] by (auto simp: same_conn_def option_rel_Some1)
    from obj UConn have "fa_handle_cqe env s q w = fa_on_recv env s c q w"
      by (simp add: fa_handle_cqe_def)
    with d UConn ok on_recv_follows [OF tw(1) f, of c q] show ?thesis
      by (simp add: treat_handle_def)
  qed
qed

interpretation extracted_batch: batch_simulation "fa_handle_cqe env s" "treat_handle tenv" "paired env s tenv"
proof (unfold_locales, goal_cases)
  case (1 q qs w t)
  then have tw: "twins env s tenv" "worker_inv env s (q # qs) w"
    by (simp_all add: paired_def)
  from handle_follows [OF 1] show ?case
  proof (cases rule: option.rel_cases)
    case (Some w' t')
    with fa_handle_cqe_inv [OF _ _ tw(2)] twins_contracts [OF tw(1)] tw(1) show ?thesis
      by (auto simp: paired_def)
  qed simp
qed

subsection \<open>The event loop\<close>

lemma timeout_follows:
  assumes "e_wait env (w_log w) = - ETIME" and "corr w t"
  shows "\<exists>w'. fa_loop_body env s w = Some (Continue w') \<and> corr w' t"
  using assms by (simp add: fa_loop_body_def Let_def corr_def ETIME_def)

lemma deliver_follows: "follows w t \<Longrightarrow> follows (deliver qs w) (treat_store qs t)"
  by (simp add: follows_def corr_def deliver_def treat_store_def option.rel_map)

lemma body_follows:
  assumes "twins env s tenv" and inv: "worker_inv env s [] w" and "corr w t"
    and "e_wait env (w_log w) \<noteq> - ETIME"
  shows "rel_option (rel_loop_next corr) (fa_loop_body env s w) (treat_body tenv t)"
proof -
  define ret where "ret = e_wait env (w_log w)"
  define w1 where "w1 = call (C_wait (w_reply w) ret) w"
  define t1 where "t1 = tcall (C_wait TREAT_REPLY ret) t"
  have al: "alike env tenv" and c: "contracts env s" "srv_ok s"
    using twins_contracts [OF assms(1)] by simp_all
  have ret: "e_wait tenv (wc_log t) = ret" "ret \<noteq> - ETIME"
    using al assms(3,4) by (auto simp: alike_def corr_def ret_def)
  have f1: "follows w1 t1"
    using assms(3) ret(2) by (simp add: w1_def t1_def follows_def corr_def)
  note defs = fa_loop_body_def treat_body_def Let_def ret(1) ret_def [symmetric] w1_def [symmetric] t1_def [symmetric]
  show ?thesis
  proof (cases "ret < 0")
    case True
    have "corr (call (C_stderr ''flashaccept: submit_and_wait'') w1) (tcall (C_stderr ''io_uring_submit_and_wait'') t1)"
      using f1 by (simp add: follows_def corr_def)
    moreover have "corr w1 t1"
      using f1 by (simp add: follows_def)
    ultimately show ?thesis
      unfolding defs using True ret(2) by simp
  next
    case False
    define qs where "qs = e_peek env (w_log w1) FA_CQE_BATCH"
    have qs: "e_peek tenv (wc_log t1) FA_CQE_BATCH = qs" "CQE_BATCH = FA_CQE_BATCH"
      using alikeD(2) [OF al followsD(6) [OF f1]] followsD(5) [OF f1]
      by (simp_all add: qs_def CQE_BATCH_def FA_CQE_BATCH_def)
    let ?v = "deliver qs (call (C_peek qs) w1)" and ?u = "treat_store qs (tcall (C_peek qs) t1)"
    have "follows (call (C_peek qs) w1) (tcall (C_peek qs) t1)"
      by (rule follows_call [OF f1]) simp_all
    then have "follows ?v ?u"
      by (rule deliver_follows)
    moreover have inv1: "worker_inv env s [] w1"
      unfolding w1_def by (rule worker_inv_call [OF inv]) simp_all
    have just: "cqes_justified (w_log w1) qs"
      using kernel_okD(2) [of env "w_log w1" FA_CQE_BATCH] c(1) by (simp add: contracts_def qs_def)
    have "list_all (sqe_ok s (w_direct w1) (w_listen_fd w1)) (prepared (w_log w1))"
      using inv1 by (simp add: worker_inv_def tidy_def shaped_def)
    from justified_fits [OF just treat_recv_len [OF this]] have fits: "list_all buf_fits qs"
      using assms(1) by (simp add: twins_def)
    from inv1 just have "worker_inv env s qs ?v"
      by (intro deliver_inv peek_inv)
    ultimately have "rel_option (paired env s tenv []) (for_each (fa_handle_cqe env s) qs ?v) (for_each (treat_handle tenv) qs ?u)"
      using assms(1) by (intro extracted_batch.drained_alike) (simp add: paired_def)
    moreover have "corr (call (C_advance n) w2) (tcall (C_advance n) t2)" if "paired env s tenv [] w2 t2" for n w2 t2
      using that by (simp add: paired_def follows_def corr_def)
    ultimately show ?thesis
      using False by (cases rule: option.rel_cases) (auto simp: defs qs_def [symmetric] qs treat_deliver_def fits)
  qed
qed

text \<open>At the loop heads.\<close>

definition twin_heads :: "fa_env \<Rightarrow> fa_server \<Rightarrow> treat_env \<Rightarrow> fa_worker \<Rightarrow> worker_ctx \<Rightarrow> bool" where
  "twin_heads env s tenv w t \<longleftrightarrow> twins env s tenv \<and> worker_inv env s [] w \<and> corr w t"

lemma twin_heads_continue:
  assumes "twin_heads env s tenv w t" and "fa_loop_body env s w = Some (Continue w')" and "corr w' t'"
  shows "twin_heads env s tenv w' t'"
  using assms fa_loop_body_inv [of env s w] twins_contracts [of env s tenv]
  by (auto simp: twin_heads_def)

interpretation library_follows: loop_simulation "fa_stopped env" "fa_loop_body env s"
  "\<lambda>t. False" "treat_body tenv" "twin_heads env s tenv"
proof (unfold_locales, goal_cases)
  case (1 w t w')
  then have tw: "twins env s tenv" "worker_inv env s [] w" "corr w t"
    by (simp_all add: twin_heads_def)
  show ?case
  proof (cases "e_wait env (w_log w) = - ETIME")
    case True
    with 1 timeout_follows [OF True tw(3), of s] show ?thesis
      by (auto intro: twin_heads_continue)
  next
    case False
    from body_follows [OF tw False] 1 show ?thesis
      by (auto simp: option_rel_Some1 intro: twin_heads_continue elim!: loop_next.rel_cases)
  qed
qed

text \<open>Without timeouts of its own and a stop, the library's loop is followed as well.\<close>

definition unhurried :: "fa_env \<Rightarrow> treat_env \<Rightarrow> bool" where
  "unhurried env tenv \<longleftrightarrow> (\<forall>h. \<not> e_stop env h \<and> e_wait env h = e_wait tenv (view h))"

interpretation benchmark_follows: loop_simulation "\<lambda>t. False" "treat_body tenv"
  "fa_stopped env" "fa_loop_body env s" "\<lambda>t w. unhurried env tenv \<and> twin_heads env s tenv w t"
proof (unfold_locales, goal_cases)
  case (1 t w t')
  then have tw: "twins env s tenv" "worker_inv env s [] w" "corr w t" and u: "unhurried env tenv"
    by (simp_all add: twin_heads_def)
  have "e_wait tenv (wc_log t) \<noteq> - ETIME"
    using 1 by (auto simp: treat_body_def Let_def ETIME_def EINTR_def split: if_splits)
  then have run: "\<not> fa_stopped env w" "e_wait env (w_log w) \<noteq> - ETIME"
    using u tw(3) by (simp_all add: unhurried_def fa_stopped_def corr_def)
  from body_follows [OF tw run(2)] 1 obtain w' where "fa_loop_body env s w = Some (Continue w')" "corr w' t'"
    by (auto simp: option_rel_Some2 elim!: loop_next.rel_cases)
  with 1 u run(1) show ?case
    by (auto intro: twin_heads_continue)
qed

subsection \<open>The thread entry\<close>

lemma warm_follows:
  "alike env tenv \<Longrightarrow> follows w t \<Longrightarrow> rel_option follows (fa_warm env s n w) (treat_warm tenv n t)"
proof (induction n arbitrary: w t)
  case (Suc n)
  obtain p w1 where m: "conn_malloc env s w = (p, w1)"
    by (cases "conn_malloc env s w")
  obtain t1 where t1: "malloc_conn tenv t = (p, t1)" "follows w1 t1"
    by (rule malloc_follows [OF Suc.prems m])
  have "rel_option follows (case p of None \<Rightarrow> Some w1 | Some c \<Rightarrow> fa_conn_free c w1)
      (case p of None \<Rightarrow> Some t1 | Some c \<Rightarrow> conn_free c t1)"
    using t1(2) conn_free_follows by (cases p) auto
  then show ?case
    using m t1(1) Suc.IH [OF Suc.prems(1)] by (cases rule: option.rel_cases) auto
qed simp

lemma queue_init_follows:
  assumes "alike env tenv" and "follows w t" and "r = e_queue_init env (w_log w) b"
  shows "e_queue_init tenv (wc_log t) b = r" and "follows (call (C_queue_init b r) w) (tcall (C_queue_init b r) t)"
  using alikeD(5) [OF assms(1) followsD(6) [OF assms(2)]] followsD(5) [OF assms(2)] assms(3)
  by (auto intro!: follows_call [OF assms(2)])

lemma register_files_follows:
  assumes "alike env tenv" and "follows w t" and "r = e_register_files env (w_log w) n"
  shows "e_register_files tenv (wc_log t) n = r"
    and "r = 0 \<Longrightarrow> follows ((call (C_register_files n r) w)\<lparr>w_direct := True\<rparr>) ((tcall (C_register_files n r) t)\<lparr>wc_direct := True\<rparr>)"
    and "r \<noteq> 0 \<Longrightarrow> follows (call (C_register_files n r) w)
      (tcall (C_stderr ''register_files_sparse failed; using regular fds'') (tcall (C_register_files n r) t))"
  using alikeD(6) [OF assms(1) followsD(6) [OF assms(2)]] followsD(5) [OF assms(2)] assms(2,3)
  by (auto simp: follows_def corr_def)

lemma ring_setup_follows:
  assumes "alike env tenv" and "follows w t" and "cfg_direct_files (srv_cfg s) \<noteq> 0"
    and "fa_ring_setup env s w = (ok, w1)"
  obtains t1 where "treat_ring_setup tenv (w_cpu w) t = (ok, t1)" and "ok \<Longrightarrow> follows w1 t1"
proof -
  define wa where "wa = (if 0 \<le> w_cpu w then call (C_affinity (w_cpu w)) w else w)"
  define ta where "ta = (if 0 \<le> w_cpu w then tcall (C_affinity (w_cpu w)) t else t)"
  have "follows wa ta"
    using assms(2) by (auto simp: wa_def ta_def intro: follows_call)
  define r1 where "r1 = e_queue_init env (w_log wa) True"
  note q1 = queue_init_follows [OF assms(1) \<open>follows wa ta\<close> r1_def]
  let ?w2 = "call (C_queue_init True r1) wa" and ?t2 = "tcall (C_queue_init True r1) ta"
  define r2 where "r2 = e_queue_init env (w_log ?w2) False"
  note q2 = queue_init_follows [OF assms(1) q1(2) r2_def]
  define wb where "wb = (if r1 < 0 then call (C_queue_init False r2) ?w2 else ?w2)\<lparr>w_ring_ready := True\<rparr>"
  define tb where "tb = (if r1 < 0 then tcall (C_queue_init False r2) ?t2 else ?t2)"
  have fb: "follows wb tb"
    using q1(2) q2(2) by (auto simp: wb_def tb_def follows_def corr_def)
  define r3 where "r3 = e_register_files env (w_log wb) FA_NFILES"
  note q3 = register_files_follows [OF assms(1) fb r3_def]
  have lib: "fa_ring_setup env s w = (if (if r1 < 0 then r2 else r1) < 0 then (False, snd (fa_ring_setup env s w))
      else (True, if r3 = 0 then (call (C_register_files FA_NFILES r3) wb)\<lparr>w_direct := True\<rparr>
                  else call (C_register_files FA_NFILES r3) wb))"
    unfolding fa_ring_setup_def Let_def wa_def [symmetric] r1_def [symmetric] r2_def [symmetric]
    using assms(3) by (simp add: wb_def r3_def)
  have ben: "treat_ring_setup tenv (w_cpu w) t = (if (if r1 < 0 then r2 else r1) < 0 then (False, snd (treat_ring_setup tenv (w_cpu w) t))
      else (True, if r3 = 0 then (tcall (C_register_files FA_NFILES r3) tb)\<lparr>wc_direct := True\<rparr>
                  else tcall (C_stderr ''register_files_sparse failed; using regular fds'') (tcall (C_register_files FA_NFILES r3) tb)))"
    unfolding treat_ring_setup_def Let_def ta_def [symmetric] q1(1) q2(1)
    using q3(1) by (cases "r1 < 0") (simp_all add: tb_def NFILES_def FA_NFILES_def)
  have ok: "ok \<longleftrightarrow> \<not> (if r1 < 0 then r2 else r1) < 0"
    using arg_cong [OF lib, of fst] assms(4) by (simp split: if_splits)
  show thesis
  proof (rule that)
    show "treat_ring_setup tenv (w_cpu w) t = (ok, snd (treat_ring_setup tenv (w_cpu w) t))"
      using arg_cong [OF ben, of fst] ok by (simp add: prod_eq_iff split: if_splits)
    show "follows w1 (snd (treat_ring_setup tenv (w_cpu w) t))" if ok
      using that ok assms(4) lib ben q3(2,3) by auto
  qed
qed

lemma act_of_view [simp]: "act_of (view h) c = act_of h c"
  by (cases c) (simp_all add: act_of_def)

lemma bench_silent: "act_of h c = Silent \<Longrightarrow> d \<in> set (bench_call c) \<Longrightarrow> act_of h' d = Silent"
  by (cases c) (auto simp: act_of_def split: sqe_opcode.splits if_splits)

lemma bench_visible: "act_of h c \<noteq> Silent \<Longrightarrow> bench_call c = [c]"
  by (cases c) (auto simp: act_of_def)

lemma lifecycle_quiet: "lifecycle h p \<Longrightarrow> (\<And>d h'. d \<in> set cs \<Longrightarrow> act_of h' d = Silent) \<Longrightarrow> lifecycle (cs @ h) p"
  by (induction cs) (auto intro: lifecycle_silent)

lemma lifecycle_view: "lifecycle h p \<Longrightarrow> lifecycle (view h) p"
proof (induction rule: lifecycle.induct)
  case start
  then show ?case by (simp add: lifecycle.start)
next
  case (act h p c p')
  show ?case
  proof (cases "act_of h c = Silent")
    case True
    with act.hyps(2) have "p' = p"
      by (auto elim: SilentE)
    with True act.IH bench_silent show ?thesis
      by (auto intro: lifecycle_quiet)
  next
    case False
    with act.IH act.hyps(2) show ?thesis
      by (auto simp: bench_visible intro: lifecycle.act)
  qed
qed

subsection \<open>Runs\<close>

lemma entry_twins:
  assumes "twins env s tenv" and "idle s w" and "follows w t"
  obtains w1 t1 where "fa_warm env s FA_FREELIST_WARM w = Some w1" and "treat_warm tenv 128 t = Some t1"
    and "twin_heads env s tenv (fa_arm_accept env s w1) (arm_accept tenv t1)"
proof -
  have al: "alike env tenv" "cfg_multishot (srv_cfg s) \<noteq> 0" and c: "contracts env s"
    using assms(1) by (simp_all add: twins_def const_server_def)
  obtain w1 where w1: "fa_warm env s FA_FREELIST_WARM w = Some w1" "worker_inv env s [] (fa_arm_accept env s w1)"
    by (rule loop_entry [OF contracts_malloc [OF c] assms(2)])
  then obtain t1 where t1: "treat_warm tenv 128 t = Some t1" "follows w1 t1"
    using warm_follows [OF al(1) assms(3), of s FA_FREELIST_WARM]
    by (auto simp: FA_FREELIST_WARM_def option_rel_Some1)
  from arm_accept_follows [OF al(1) t1(2) al(2)] have "corr (fa_arm_accept env s w1) (arm_accept tenv t1)"
    by (simp add: follows_def)
  with w1 t1 assms(1) that show thesis
    by (simp add: twin_heads_def)
qed

lemma library_heads:
  assumes "twins env s tenv" and "idle s w" and "follows w t" and "fa_heads env s w v"
  shows "\<exists>u. treat_heads tenv t u \<and> corr v u"
proof -
  obtain w1 t1 where e: "fa_warm env s FA_FREELIST_WARM w = Some w1" "treat_warm tenv 128 t = Some t1"
      "twin_heads env s tenv (fa_arm_accept env s w1) (arm_accept tenv t1)"
    by (rule entry_twins [OF assms(1-3)])
  with assms(4) library_follows.heads_followed [OF _ e(3)] show ?thesis
    by (auto simp: fa_heads_def treat_heads_def twin_heads_def)
qed

lemma benchmark_heads:
  assumes "twins env s tenv" and "unhurried env tenv" and "idle s w" and "follows w t" and "treat_heads tenv t u"
  shows "\<exists>v. fa_heads env s w v \<and> corr v u"
proof -
  obtain w1 t1 where e: "fa_warm env s FA_FREELIST_WARM w = Some w1" "treat_warm tenv 128 t = Some t1"
      "twin_heads env s tenv (fa_arm_accept env s w1) (arm_accept tenv t1)"
    by (rule entry_twins [OF assms(1,3,4)])
  with assms(5) have "loop_head (\<lambda>t. False) (treat_body tenv) (arm_accept tenv t1) u"
    by (simp add: treat_heads_def)
  from benchmark_follows.heads_followed [OF this, of env s "fa_arm_accept env s w1"] assms(2) e(3)
  obtain v where "loop_head (fa_stopped env) (fa_loop_body env s) (fa_arm_accept env s w1) v" "corr v u"
    by (auto simp: twin_heads_def)
  with e(1) show ?thesis
    by (auto simp: fa_heads_def)
qed

subsection \<open>A library worker for every run of the benchmark server\<close>

definition lib_conn :: "conn \<Rightarrow> fa_conn" where
  "lib_conn d = \<lparr>fc_next = cn_next d, fc_state = (if cn_state d = ST_RECV then FA_ST_RECV else FA_ST_ACCEPT),
     fc_fd = cn_fd d, fc_buf = cn_buf d, fc_room = 0\<rparr>"

definition lib_env :: "treat_env \<Rightarrow> fa_env" where
  "lib_env tenv =
     \<lparr>e_get_sqe = \<lambda>h. e_get_sqe tenv (view h), e_wait = \<lambda>h. e_wait tenv (view h),
      e_peek = \<lambda>h. e_peek tenv (view h), e_malloc = \<lambda>h n. e_malloc tenv (view h) SIZEOF_CONN,
      e_uninit = \<lambda>h. lib_conn (e_uninit tenv (view h)), e_stop = \<lambda>h. False,
      e_handler = \<lambda>h req cap. (TREAT_REPLY, 19),
      e_queue_init = \<lambda>h. e_queue_init tenv (view h), e_register_files = \<lambda>h. e_register_files tenv (view h)\<rparr>"

definition lib_srv :: fa_server where
  "lib_srv = treat_srv\<lparr>srv_conn_size := 272\<rparr>"

definition lib_worker :: "int \<Rightarrow> int \<Rightarrow> fa_worker" where
  "lib_worker cpu fd = \<lparr>w_listen_fd = fd, w_direct = False, w_cpu = cpu, w_ring_ready = False,
     w_marker = FA_ST_ACCEPT, w_free_head = None, w_reply = replicate 19 CHR 0x00,
     w_heap = Map.empty, w_log = []\<rparr>"

lemma lib_unhurried: "unhurried (lib_env tenv) tenv"
  by (simp add: unhurried_def lib_env_def)

lemma lib_contracts:
  assumes "malloc_fresh tenv" and "kernel_ok tenv"
  shows "contracts (lib_env tenv) lib_srv"
proof -
  have "malloc_fresh (lib_env tenv)"
    using malloc_freshD [OF assms(1), of "view _"] by (auto simp: malloc_fresh_def lib_env_def)
  moreover have "cqes_justified (view h) qs = cqes_justified h qs" for h qs
    unfolding cqes_justified_def view_readings ..
  then have "kernel_ok (lib_env tenv)"
    using kernel_okD [OF assms(2)] by (fastforce simp: kernel_ok_def lib_env_def)
  ultimately show ?thesis
    by (simp add: contracts_def handler_ok_def lib_env_def lib_srv_def treat_srv_def TREAT_REPLY_def REPLY_LEN_def)
qed

lemma lib_twins:
  assumes "malloc_fresh tenv" and "kernel_ok tenv"
  shows "twins (lib_env tenv) lib_srv tenv"
proof -
  have "srv_ok lib_srv"
    by (simp add: srv_ok_def lib_srv_def treat_srv_def READ_BUF_SZ_def REPLY_LEN_def INT_MAX_def
        SIZEOF_FA_CONN_def is_c_int_def)
  moreover have "alike (lib_env tenv) tenv"
    by (simp add: alike_def lib_env_def same_conn_def lib_conn_def)
  moreover have "const_handler (lib_env tenv) cap TREAT_REPLY" for cap
    by (simp add: const_handler_def lib_env_def TREAT_REPLY_def)
  ultimately show ?thesis
    using lib_contracts [OF assms]
    by (simp add: twins_def const_server_def)
      (simp add: lib_srv_def treat_srv_def READ_BUF_SZ_def REPLY_LEN_def TREAT_REPLY_def)
qed

lemma fresh_follows:
  assumes "idle s w" and "w_log w = []" and "\<not> w_direct w"
  shows "follows w (treat_new_worker (w_listen_fd w))"
  using assms by (simp add: follows_def corr_def idle_def treat_new_worker_def)

lemma lib_worker_idle: "idle lib_srv (lib_worker cpu fd)"
  by (simp add: idle_def lib_worker_def lib_srv_def treat_srv_def REPLY_LEN_def)

lemma ring_setup_lifecycle:
  assumes "fa_ring_setup env s w = (ok, w')" and "lifecycle (w_log w) p"
  shows "lifecycle (w_log w') p"
  using assms by (auto simp: fa_ring_setup_def Let_def act_of_def intro!: lifecycle_silent split: if_splits prod.splits)

text \<open>The descriptor a connection of the benchmark server holds.\<close>

definition cn_fd_of :: "worker_ctx \<Rightarrow> addr \<Rightarrow> int" where
  "cn_fd_of t a = (case wc_heap t a of Some d \<Rightarrow> cn_fd d | None \<Rightarrow> 0)"

lemma corr_fd: "corr w t \<Longrightarrow> cn_fd_of t = conn_fd w"
proof (rule ext)
  fix a
  assume "corr w t"
  from corr_heap [OF this, of a] show "cn_fd_of t a = conn_fd w a"
    by (cases rule: option.rel_cases) (auto simp: cn_fd_of_def conn_fd_def same_conn_def)
qed

lemma lib_lossless: "lossless tenv d \<Longrightarrow> lossless (lib_env tenv) d"
  by (auto simp: lossless_def sq_drained_def lib_env_def)

text \<open>Every run of the benchmark server, from its thread entry on, is the view of a library run.\<close>

lemma benchmark_run_lifted:
  assumes "malloc_fresh tenv" and "kernel_ok tenv"
    and "treat_ring_setup tenv cpu (treat_new_worker fd) = (True, t)" and "treat_heads tenv t u"
  obtains w v where "fa_heads (lib_env tenv) lib_srv w v" and "corr v u" and "idle lib_srv w"
    and "lifecycle (w_log w) nothing_open"
proof -
  note tw = lib_twins [OF assms(1,2)]
  let ?w0 = "lib_worker cpu fd"
  obtain ok w where rs: "fa_ring_setup (lib_env tenv) lib_srv ?w0 = (ok, w)"
    by (cases "fa_ring_setup (lib_env tenv) lib_srv ?w0")
  have f0: "follows ?w0 (treat_new_worker fd)"
    using fresh_follows [OF lib_worker_idle, of cpu fd] by (simp add: lib_worker_def)
  obtain t1 where "treat_ring_setup tenv (w_cpu ?w0) (treat_new_worker fd) = (ok, t1)" "ok \<Longrightarrow> follows w t1"
    by (rule ring_setup_follows [OF _ f0 _ rs]) (use tw in \<open>auto simp: twins_def lib_srv_def treat_srv_def\<close>)
  with assms(3) have "follows w t"
    by (simp add: lib_worker_def)
  moreover have idle: "idle lib_srv w"
    by (rule fa_ring_setup_idle [OF rs lib_worker_idle])
  moreover have "lifecycle (w_log w) nothing_open"
    by (rule ring_setup_lifecycle [OF rs]) (simp add: lib_worker_def lifecycle.start)
  ultimately show thesis
    using benchmark_heads [OF tw lib_unhurried _ _ assms(4)] that by blast
qed

end
