(* ===== verification/Extracted_Props.thy ===== *)
theory Extracted_Props
  imports Extracted
begin

text \<open>
  The library against the benchmark server it was extracted from, and what the benchmark server
  inherits from the library: the life cycle of connections.
\<close>

lemma treat_heads_exist: "malloc_fresh env \<Longrightarrow> treat_idle t \<Longrightarrow> \<exists>u. treat_heads env t u"
  using treat_entry [of env t] by (metis loop_head.enter treat_heads_def)

lemma demo_setup:
  obtains w t where "fa_ring_setup (lib_env treat_demo) lib_srv (lib_worker 0 3) = (True, w)"
    and "treat_ring_setup treat_demo 0 (treat_new_worker 3) = (True, t)" and "treat_idle t"
  by (simp add: fa_ring_setup_def treat_ring_setup_def Let_def lib_env_def treat_demo_def lazy_env_def
      ref_env_def lib_srv_def treat_srv_def lib_worker_def treat_new_worker_def treat_idle_def)

text \<open>
  C15. The extraction kept the behaviour. Take a library server with the benchmark server's
  settings (multishot accepts, direct descriptors, 256-byte requests, a handler that always gives
  the 19-byte reply) in an environment that answers alike. Then a fresh library worker and a fresh
  benchmark worker set up their rings alike, and every state the library's loop reaches corresponds
  to one the benchmark server's loop reaches: same descriptors, same freelist, same connections, and
  the library's calls are the benchmark server's once handler calls and timed-out waits are left
  out. If the library's waits do not time out and it is not stopped, the converse holds too.
\<close>

theorem library_runs_as_benchmark:
  assumes "twins env s tenv" and "cfg_direct_files (srv_cfg s) \<noteq> 0"
    and "idle s w" and "w_log w = []" and "\<not> w_direct w"
    and "fa_ring_setup env s w = (True, w1)"
  shows "\<exists>t1. treat_ring_setup tenv (w_cpu w) (treat_new_worker (w_listen_fd w)) = (True, t1) \<and>
     (\<forall>v. fa_heads env s w1 v \<longrightarrow> (\<exists>u. treat_heads tenv t1 u \<and> corr v u)) \<and>
     (unhurried env tenv \<longrightarrow> (\<forall>u. treat_heads tenv t1 u \<longrightarrow> (\<exists>v. fa_heads env s w1 v \<and> corr v u)))"
proof -
  have "alike env tenv"
    using assms(1) by (simp add: twins_def)
  from ring_setup_follows [OF this fresh_follows [OF assms(3-5)] assms(2,6)]
  obtain t1 where t1: "treat_ring_setup tenv (w_cpu w) (treat_new_worker (w_listen_fd w)) = (True, t1)" "follows w1 t1"
    by blast
  have "idle s w1"
    by (rule fa_ring_setup_idle [OF assms(6,3)])
  with t1 library_heads [OF assms(1) this t1(2)] benchmark_heads [OF assms(1) _ this t1(2)] show ?thesis
    by blast
qed

theorem library_runs_as_benchmark_witness:
  "\<exists>w1 t1 v u. fa_ring_setup (lib_env treat_demo) lib_srv (lib_worker 0 3) = (True, w1) \<and>
     treat_heads treat_demo t1 u \<and> fa_heads (lib_env treat_demo) lib_srv w1 v \<and> corr v u"
proof -
  obtain w1 t1 where d: "fa_ring_setup (lib_env treat_demo) lib_srv (lib_worker 0 3) = (True, w1)"
      "treat_ring_setup treat_demo 0 (treat_new_worker 3) = (True, t1)" "treat_idle t1"
    by (rule demo_setup)
  from treat_heads_exist [OF treat_demo_contracts(1) d(3)] obtain u where "treat_heads treat_demo t1 u"
    by blast
  with library_runs_as_benchmark [OF lib_twins [OF treat_demo_contracts] _ lib_worker_idle _ _ d(1)] d lib_unhurried
  show ?thesis
    by (fastforce simp: lib_worker_def lib_srv_def treat_srv_def)
qed

text \<open>
  C35. The benchmark server refines the life cycle specification, too: since each of its runs is
  the benchmark view of a library run, its calls are a run of the specification, the descriptors
  waiting for a request are those of the connections in flight, and no descriptor is left in any
  other phase unless entries or memory run out. So no client is answered twice: answers and
  waiting connections never outnumber the accepted descriptors.
\<close>

theorem benchmark_refines_lifecycle:
  assumes "malloc_fresh env" and "kernel_ok env"
    and "treat_ring_setup env cpu (treat_new_worker fd) = (True, t)" and "treat_heads env t u"
  shows "\<exists>p. lifecycle (wc_log u) p \<and> p Waiting = image_mset (cn_fd_of u) (inflight (wc_log u)) \<and>
     (lossless env (wc_direct u) \<longrightarrow> (\<forall>k. k \<noteq> Waiting \<longrightarrow> p k = {#})) \<and>
     answers (wc_log u) + p Waiting \<subseteq># accepted (wc_log u)"
proof -
  obtain w v where v: "fa_heads (lib_env env) lib_srv w v" "corr v u" "idle lib_srv w"
      "lifecycle (w_log w) nothing_open"
    by (rule benchmark_run_lifted [OF assms])
  have "contracts (lib_env env) lib_srv" "srv_ok lib_srv"
    using twins_contracts [OF lib_twins [OF assms(1,2)]] by simp_all
  from heads_tracked [OF this v(3,4,1)] obtain p where p: "lifecycle (w_log v) p"
      "p Waiting = image_mset (conn_fd v) (inflight (w_log v))"
      "\<forall>k. k \<noteq> Waiting \<longrightarrow> lossless (lib_env env) (w_direct v) \<longrightarrow> p k = {#}"
    by (rule tracked_phases)
  have u: "wc_log u = view (w_log v)" "wc_direct u = w_direct v"
    using v(2) by (simp_all add: corr_def)
  have "answers (w_log v) + p Waiting \<subseteq># accepted (w_log v)"
    using lifecycle_waiting [OF p(1)] .
  with p lifecycle_view [OF p(1)] u corr_fd [OF v(2)] lib_lossless show ?thesis
    by (intro exI [of _ p]) auto
qed

theorem benchmark_refines_lifecycle_witness:
  "\<exists>t u p. treat_heads treat_demo t u \<and> lifecycle (wc_log u) p \<and>
     answers (wc_log u) + p Waiting \<subseteq># accepted (wc_log u)"
proof -
  obtain w1 t1 where d: "fa_ring_setup (lib_env treat_demo) lib_srv (lib_worker 0 3) = (True, w1)"
      "treat_ring_setup treat_demo 0 (treat_new_worker 3) = (True, t1)" "treat_idle t1"
    by (rule demo_setup)
  from treat_heads_exist [OF treat_demo_contracts(1) d(3)] obtain u where "treat_heads treat_demo t1 u"
    by blast
  with benchmark_refines_lifecycle [OF treat_demo_contracts d(2)] show ?thesis
    by blast
qed

end
