(* ===== verification/Loadgen.thy ===== *)
theory Loadgen
  imports Complex_Main Event_Loop C_Args "HOL-Library.Signed_Division"
begin

text \<open>
  The load generator \<open>research/loadgen/loadgen.c\<close>: what a thread does with its connections. The
  kernel and the C library are parameters in the same style as for the servers: every external
  call of a thread is recorded in its history, and every answer is a function of the history.

  Doubles are their rational values; the rounding of an arithmetic result is a parameter
  \<open>g_rnd\<close>, so the theorems hold for every rounding mode (infinities and NaNs, which only a
  command line could bring in, are not values of the model). The counters are 64-bit words, so
  the equations between them hold with wrap-around. A result \<open>None\<close> is undefined behaviour.
\<close>

unbundle bit_operations_syntax

subsection \<open>Constants\<close>

definition REPLY :: bytes where
  "REPLY = ''HTTP/1.1 200 OK'' @ [CHR 0x0D, CHR 0x0A, CHR 0x0D, CHR 0x0A]"
definition REPLY_LEN :: int where "REPLY_LEN = 19"

definition REQUEST :: bytes where
  "REQUEST = ''GET / HTTP/1.1'' @ [CHR 0x0D, CHR 0x0A, CHR 0x0D, CHR 0x0A]"
definition REQ_LEN :: int where "REQ_LEN = 18"

datatype fail_reason = F_CONNECT | F_RESET | F_TIMEOUT | F_TRUNC | F_WRONGBYTES | F_OTHER

text \<open>The values of the enumeration order the reasons; \<open>F_REASONS\<close> runs through all of them.\<close>

fun f_value :: "fail_reason \<Rightarrow> nat" where
  "f_value F_CONNECT = 0"
| "f_value F_RESET = 1"
| "f_value F_TIMEOUT = 2"
| "f_value F_TRUNC = 3"
| "f_value F_WRONGBYTES = 4"
| "f_value F_OTHER = 5"

instantiation fail_reason :: linorder
begin

definition less_eq_fail_reason :: "fail_reason \<Rightarrow> fail_reason \<Rightarrow> bool" where
  "less_eq_fail_reason r s \<longleftrightarrow> f_value r \<le> f_value s"

definition less_fail_reason :: "fail_reason \<Rightarrow> fail_reason \<Rightarrow> bool" where
  "less_fail_reason r s \<longleftrightarrow> f_value r < f_value s"

instance
proof
  fix r s :: fail_reason
  show "r \<le> s \<Longrightarrow> s \<le> r \<Longrightarrow> r = s"
    by (cases r; cases s) (simp_all add: less_eq_fail_reason_def)
qed (auto simp: less_eq_fail_reason_def less_fail_reason_def)

end

definition F_REASONS :: "fail_reason list" where
  "F_REASONS = [F_CONNECT, F_RESET, F_TIMEOUT, F_TRUNC, F_WRONGBYTES, F_OTHER]"

lemma F_REASONS_all: "set F_REASONS = UNIV" "sorted F_REASONS" "distinct F_REASONS"
proof -
  have "r \<in> set F_REASONS" for r
    by (cases r) (simp_all add: F_REASONS_def)
  then show "set F_REASONS = UNIV" by blast
  show "sorted F_REASONS" "distinct F_REASONS"
    by (simp_all add: F_REASONS_def less_eq_fail_reason_def)
qed

definition HBUCKETS :: int where "HBUCKETS = 1024"
definition HUS_PER :: int where "HUS_PER = 50"
definition MAX_INFLIGHT :: int where "MAX_INFLIGHT = 60000"
definition SIZEOF_RBUF :: nat where "SIZEOF_RBUF = 64"

definition EAGAIN :: int where "EAGAIN = 11" \<comment> \<open>EWOULDBLOCK is the same number\<close>
definition ECONNRESET :: int where "ECONNRESET = 104"
definition EINPROGRESS :: int where "EINPROGRESS = 115"

definition EPOLLIN :: "32 word" where "EPOLLIN = 1"
definition EPOLLOUT :: "32 word" where "EPOLLOUT = 4"
definition EPOLLERR :: "32 word" where "EPOLLERR = 8"
definition EPOLLHUP :: "32 word" where "EPOLLHUP = 16"

lemma REPLY_length [simp]: "length REPLY = 19"
  by (simp add: REPLY_def)

lemma REQUEST_length [simp]: "length REQUEST = 18"
  by (simp add: REQUEST_def)

subsection \<open>Connections and threads\<close>

type_synonym timespec = "int \<times> int"
type_synonym in_addr = "32 word" \<comment> \<open>in host byte order\<close>

record conn_t =
  c_fd :: int
  c_state :: int \<comment> \<open>0 connecting, 1 writing, 2 reading\<close>
  c_got :: int
  c_sent :: int
  c_sampled :: bool
  c_rbuf :: bytes
  c_t0 :: timespec

record worker_t =
  lw_id :: int
  lw_nthreads :: int
  lw_port :: int
  lw_rate :: rat
  lw_conns :: int
  lw_duration :: rat
  lw_sample_pct :: int
  lw_offered :: "64 word"
  lw_completed :: "64 word"
  lw_failed :: "fail_reason \<Rightarrow> 64 word"
  lw_sampled_total :: "64 word"
  lw_sampled_bad :: "64 word"
  lw_hist :: "64 word list"

subsection \<open>External calls\<close>

datatype epoll_op = EPOLL_CTL_ADD | EPOLL_CTL_MOD | EPOLL_CTL_DEL

type_synonym epoll_event = "addr \<times> 32 word" \<comment> \<open>data.ptr, events\<close>

datatype lcall =
    L_socket int \<comment> \<open>and the descriptor it gave\<close>
  | L_setsockopt int string
  | L_fetch_srci "32 word" \<comment> \<open>atomic_fetch_add(\&g_srci, 1)\<close>
  | L_bind int in_addr
  | L_calloc ptr
  | L_clock timespec \<comment> \<open>clock_gettime\<close>
  | L_connect int int \<comment> \<open>0, or errno after a failure\<close>
  | L_epoll_create int
  | L_epoll_ctl epoll_op int "32 word" ptr
  | L_epoll_wait "epoll_event list"
  | L_so_error int int \<comment> \<open>getsockopt SO_ERROR\<close>
  | L_write int bytes int
  | L_read int nat bytes int
  | L_close int
  | L_free addr

type_synonym lhistory = "lcall list"

record loadgen_env =
  g_socket :: "lhistory \<Rightarrow> int"
  g_fetch_srci :: "lhistory \<Rightarrow> 32 word" \<comment> \<open>the counter is shared by all threads\<close>
  g_calloc :: "lhistory \<Rightarrow> ptr"
  g_clock :: "lhistory \<Rightarrow> timespec"
  g_connect :: "lhistory \<Rightarrow> int"
  g_epoll_create :: "lhistory \<Rightarrow> int"
  g_epoll_wait :: "lhistory \<Rightarrow> nat \<Rightarrow> epoll_event list" \<comment> \<open>empty also when it fails\<close>
  g_so_error :: "lhistory \<Rightarrow> int"
  g_write :: "lhistory \<Rightarrow> bytes \<Rightarrow> int"
  g_read :: "lhistory \<Rightarrow> nat \<Rightarrow> bytes \<times> int" \<comment> \<open>bytes stored, result\<close>
  g_errno :: "lhistory \<Rightarrow> int"
  g_rnd :: "rat \<Rightarrow> rat"

text \<open>The state of a thread: its counters, its connection objects, the locals of its loop.\<close>

record lg_thread =
  t_w :: worker_t
  t_heap :: "addr \<rightharpoonup> conn_t"
  t_inflight :: int
  t_next_start :: rat
  t_log :: lhistory

definition lcall :: "lcall \<Rightarrow> lg_thread \<Rightarrow> lg_thread" where
  "lcall c st = st\<lparr>t_log := c # t_log st\<rparr>"

lemma lcall_simps [simp]:
  "t_w (lcall c st) = t_w st" "t_heap (lcall c st) = t_heap st"
  "t_inflight (lcall c st) = t_inflight st" "t_next_start (lcall c st) = t_next_start st"
  "t_log (lcall c st) = c # t_log st"
  by (simp_all add: lcall_def)

subsection \<open>Time\<close>

definition seconds :: "(rat \<Rightarrow> rat) \<Rightarrow> timespec \<Rightarrow> rat" where
  "seconds rnd t = rnd (rnd (of_int (fst t)) + rnd (rnd (of_int (snd t)) / 1000000000))"

definition now_s :: "loadgen_env \<Rightarrow> lg_thread \<Rightarrow> rat \<times> lg_thread" where
  "now_s env st = (let t = g_clock env (t_log st) in (seconds (g_rnd env) t, lcall (L_clock t) st))"

definition us_since :: "loadgen_env \<Rightarrow> timespec \<Rightarrow> lg_thread \<Rightarrow> int \<times> lg_thread" where
  "us_since env a st =
     (let b = g_clock env (t_log st)
      in ((fst b - fst a) * 1000000 + (snd b - snd a) sdiv 1000, lcall (L_clock b) st))"

subsection \<open>Counting\<close>

definition hist_add :: "int \<Rightarrow> worker_t \<Rightarrow> worker_t option" where
  "hist_add us w =
     (let b = us sdiv HUS_PER;
          b = (if b < 0 then 0 else b);
          b = (if HBUCKETS < b then HBUCKETS else b)
      in if nat b < length (lw_hist w)
         then Some (w\<lparr>lw_hist := (lw_hist w)[nat b := lw_hist w ! nat b + 1]\<rparr>)
         else None)"

definition count_fail :: "fail_reason \<Rightarrow> 64 word \<Rightarrow> worker_t \<Rightarrow> worker_t" where
  "count_fail r n w = w\<lparr>lw_failed := (lw_failed w)(r := lw_failed w r + n)\<rparr>"

text \<open>\<open>epoll_ctl(ep, EPOLL_CTL_DEL, c->fd, NULL); close(c->fd); c->fd = -1;\<close>\<close>

definition conn_shut :: "addr \<Rightarrow> conn_t \<Rightarrow> lg_thread \<Rightarrow> lg_thread" where
  "conn_shut a c st =
     (lcall (L_close (c_fd c)) (lcall (L_epoll_ctl EPOLL_CTL_DEL (c_fd c) 0 None) st))
       \<lparr>t_heap := (t_heap st)(a \<mapsto> c\<lparr>c_fd := -1\<rparr>)\<rparr>"

definition conn_fail :: "fail_reason \<Rightarrow> addr \<Rightarrow> lg_thread \<Rightarrow> lg_thread option" where
  "conn_fail reason a st = do {
     c \<leftarrow> t_heap st a;
     let st = (if 0 \<le> c_fd c then conn_shut a c st else st);
     Some (st\<lparr>t_w := count_fail reason 1 (t_w st)\<rparr>)
   }"

definition conn_done :: "loadgen_env \<Rightarrow> addr \<Rightarrow> lg_thread \<Rightarrow> lg_thread option" where
  "conn_done env a st = do {
     c \<leftarrow> t_heap st a;
     let (us, st) = us_since env (c_t0 c) st;
     w \<leftarrow> hist_add us (t_w st);
     Some (conn_shut a c (st\<lparr>t_w := w\<lparr>lw_completed := lw_completed w + 1\<rparr>\<rparr>))
   }"

definition free_conn :: "addr \<Rightarrow> lg_thread \<Rightarrow> lg_thread option" where
  "free_conn a st = do {
     _ \<leftarrow> t_heap st a;
     Some (lcall (L_free a) (st\<lparr>t_heap := (t_heap st)(a := None)\<rparr>))
   }"

subsection \<open>Starting a connection\<close>

text \<open>Options, and the round-robin bind to an address of the pool.\<close>

definition bind_source :: "loadgen_env \<Rightarrow> in_addr list \<Rightarrow> int \<Rightarrow> lg_thread \<Rightarrow> lg_thread" where
  "bind_source env g_src fd st =
     (let st = lcall (L_setsockopt fd ''TCP_NODELAY'') st in
      if 0 < length g_src then
        let st = lcall (L_setsockopt fd ''SO_REUSEADDR'') st;
            i = g_fetch_srci env (t_log st);
            st = lcall (L_fetch_srci i) st
        in lcall (L_bind fd (g_src ! (unat i mod length g_src))) st
      else st)"

definition conn_start :: "loadgen_env \<Rightarrow> in_addr list \<Rightarrow> lg_thread \<Rightarrow> (int \<times> lg_thread) option" where
  "conn_start env g_src st =
     (let fd = g_socket env (t_log st);
          st = lcall (L_socket fd) st
      in if fd < 0 then Some (-1, st\<lparr>t_w := count_fail F_OTHER 1 (t_w st)\<rparr>)
         else
           let st = bind_source env g_src fd st;
               p = g_calloc env (t_log st);
               st = lcall (L_calloc p) st
           in case p of
                None \<Rightarrow> None
              | Some a \<Rightarrow>
                  let w = t_w st;
                      t0 = g_clock env (t_log st);
                      c = \<lparr>c_fd = fd, c_state = 0, c_got = 0, c_sent = 0,
                           c_sampled = (0 < lw_sample_pct w \<and>
                             lw_offered w mod 100 < of_int (lw_sample_pct w)),
                           c_rbuf = replicate SIZEOF_RBUF (CHR 0x00), c_t0 = t0\<rparr>;
                      st = (lcall (L_clock t0) st)\<lparr>t_heap := (t_heap st)(a \<mapsto> c)\<rparr>;
                      err = g_connect env (t_log st);
                      st = lcall (L_connect fd err) st
                  in if err \<noteq> 0 \<and> err \<noteq> EINPROGRESS then do {
                       st \<leftarrow> free_conn a (lcall (L_close fd) st);
                       Some (-1, st\<lparr>t_w := count_fail F_CONNECT 1 (t_w st)\<rparr>)
                     }
                     else
                       let st = lcall (L_epoll_ctl EPOLL_CTL_ADD fd EPOLLOUT (Some a)) st
                       in Some (0, st\<lparr>t_w := (t_w st)\<lparr>lw_offered := lw_offered (t_w st) + 1\<rparr>\<rparr>))"

subsection \<open>Handling an event\<close>

text \<open>
  The stages of \<open>handle\<close>. Their result is \<open>Some r\<close> when the function returns \<open>r\<close> there, and
  \<open>None\<close> when it goes on to the next stage.
\<close>

type_synonym stage = "(int option \<times> lg_thread) option"

definition resolve_fail :: "fail_reason \<Rightarrow> addr \<Rightarrow> lg_thread \<Rightarrow> stage" where
  "resolve_fail reason a st = do {
     st \<leftarrow> conn_fail reason a st;
     st \<leftarrow> free_conn a st;
     Some (Some 1, st)
   }"

definition upd_conn :: "addr \<Rightarrow> conn_t \<Rightarrow> lg_thread \<Rightarrow> lg_thread" where
  "upd_conn a c st = st\<lparr>t_heap := (t_heap st)(a \<mapsto> c)\<rparr>"

lemma upd_conn_simps [simp]:
  "t_w (upd_conn a c st) = t_w st" "t_heap (upd_conn a c st) = (t_heap st)(a \<mapsto> c)"
  "t_inflight (upd_conn a c st) = t_inflight st" "t_next_start (upd_conn a c st) = t_next_start st"
  "t_log (upd_conn a c st) = t_log st"
  by (simp_all add: upd_conn_def)

definition handle_error :: "loadgen_env \<Rightarrow> addr \<Rightarrow> lg_thread \<Rightarrow> stage" where
  "handle_error env a st = do {
     c \<leftarrow> t_heap st a;
     let err = g_so_error env (t_log st);
     let reason = (if c_state c = 0 then F_CONNECT
                   else if err = ECONNRESET then F_RESET
                   else if c_state c = 2 then F_TRUNC else F_OTHER);
     resolve_fail reason a (lcall (L_so_error (c_fd c) err) st)
   }"

definition handle_connecting :: "loadgen_env \<Rightarrow> addr \<Rightarrow> lg_thread \<Rightarrow> stage" where
  "handle_connecting env a st = do {
     c \<leftarrow> t_heap st a;
     if c_state c \<noteq> 0 then Some (None, st)
     else
       let err = g_so_error env (t_log st);
           st = lcall (L_so_error (c_fd c) err) st
       in if err \<noteq> 0 then resolve_fail F_CONNECT a st
          else Some (None, upd_conn a (c\<lparr>c_state := 1\<rparr>) st)
   }"

function write_loop :: "loadgen_env \<Rightarrow> addr \<Rightarrow> lg_thread \<Rightarrow> stage" where
  "write_loop env a st = do {
     c \<leftarrow> t_heap st a;
     if c_sent c < REQ_LEN then
       let buf = take (nat (REQ_LEN - c_sent c)) (drop (nat (c_sent c)) REQUEST);
           n = g_write env (t_log st) buf;
           st = lcall (L_write (c_fd c) buf n) st
       in if 0 < n then write_loop env a (upd_conn a (c\<lparr>c_sent := c_sent c + n\<rparr>) st)
          else if n < 0 \<and> g_errno env (t_log st) = EAGAIN then
            Some (Some 0, lcall (L_epoll_ctl EPOLL_CTL_MOD (c_fd c) EPOLLOUT (Some a)) st)
          else resolve_fail (if g_errno env (t_log st) = ECONNRESET then F_RESET else F_OTHER) a st
     else Some (None, lcall (L_epoll_ctl EPOLL_CTL_MOD (c_fd c) EPOLLIN (Some a))
                        (upd_conn a (c\<lparr>c_state := 2\<rparr>) st))
   }"
  by pat_completeness auto
termination
  by (relation "measure (\<lambda>(env, a, st). case t_heap st a of
        None \<Rightarrow> 0 | Some c \<Rightarrow> nat (REQ_LEN - c_sent c))") (auto split: option.splits)

definition handle_writing :: "loadgen_env \<Rightarrow> addr \<Rightarrow> lg_thread \<Rightarrow> stage" where
  "handle_writing env a st = do {
     c \<leftarrow> t_heap st a;
     if c_state c \<noteq> 1 then Some (None, st) else write_loop env a st
   }"

definition store_at :: "nat \<Rightarrow> bytes \<Rightarrow> bytes \<Rightarrow> bytes" where
  "store_at i bs b = take i b @ bs @ drop (i + length bs) b"

text \<open>Validation of a complete reply (in full when the connection is sampled), and its accounting.\<close>

definition reply_bad :: "conn_t \<Rightarrow> bool" where
  "reply_bad c =
     (if c_sampled c then take (nat REPLY_LEN) (c_rbuf c) \<noteq> REPLY
      else c_rbuf c ! 0 \<noteq> CHR ''H'' \<or> c_rbuf c ! nat (REPLY_LEN - 1) \<noteq> CHR 0x0A)"

definition count_sample :: "conn_t \<Rightarrow> worker_t \<Rightarrow> worker_t" where
  "count_sample c w =
     (if c_sampled c then
        let w = w\<lparr>lw_sampled_total := lw_sampled_total w + 1\<rparr>
        in if reply_bad c then w\<lparr>lw_sampled_bad := lw_sampled_bad w + 1\<rparr> else w
      else w)"

definition validate :: "loadgen_env \<Rightarrow> addr \<Rightarrow> conn_t \<Rightarrow> lg_thread \<Rightarrow> stage" where
  "validate env a c st =
     (let st = st\<lparr>t_w := count_sample c (t_w st)\<rparr>
      in if reply_bad c then resolve_fail F_WRONGBYTES a st
         else do {
           st \<leftarrow> conn_done env a st;
           st \<leftarrow> free_conn a st;
           Some (Some 1, st)
         })"

function read_loop :: "loadgen_env \<Rightarrow> addr \<Rightarrow> lg_thread \<Rightarrow> stage" where
  "read_loop env a st = do {
     c \<leftarrow> t_heap st a;
     if c_got c < REPLY_LEN then
       let len = nat (REPLY_LEN - c_got c);
           (bs, n) = g_read env (t_log st) len;
           st = lcall (L_read (c_fd c) len bs n) st
       in if length (c_rbuf c) < nat (c_got c) + length bs then None
          else let c = c\<lparr>c_rbuf := store_at (nat (c_got c)) bs (c_rbuf c)\<rparr> in
          if 0 < n then read_loop env a (upd_conn a (c\<lparr>c_got := c_got c + n\<rparr>) st)
          else let st = upd_conn a c st in
          if n = 0 then resolve_fail F_TRUNC a st
          else if g_errno env (t_log st) = EAGAIN then Some (Some 0, st)
          else resolve_fail (if g_errno env (t_log st) = ECONNRESET then F_RESET else F_OTHER) a st
     else validate env a c st
   }"
  by pat_completeness auto
termination
  by (relation "measure (\<lambda>(env, a, st). case t_heap st a of
        None \<Rightarrow> 0 | Some c \<Rightarrow> nat (REPLY_LEN - c_got c))") (auto split: option.splits)

definition handle_reading :: "loadgen_env \<Rightarrow> addr \<Rightarrow> lg_thread \<Rightarrow> stage" where
  "handle_reading env a st = do {
     c \<leftarrow> t_heap st a;
     if c_state c \<noteq> 2 then Some (Some 0, st) else read_loop env a st
   }"

definition and_then :: "stage \<Rightarrow> (lg_thread \<Rightarrow> stage) \<Rightarrow> stage" where
  "and_then s f = do {
     (r, st) \<leftarrow> s;
     case r of Some i \<Rightarrow> Some (Some i, st) | None \<Rightarrow> f st
   }"

definition handle :: "loadgen_env \<Rightarrow> addr \<Rightarrow> 32 word \<Rightarrow> lg_thread \<Rightarrow> stage" where
  "handle env a events st =
     (if events AND (EPOLLERR OR EPOLLHUP) \<noteq> 0 then handle_error env a st
      else and_then (handle_connecting env a st)
             (\<lambda>st. and_then (handle_writing env a st) (handle_reading env a)))"

declare write_loop.simps [simp del] read_loop.simps [simp del]

end
