(* ===== verification/Loadgen_Run.thy ===== *)
theory Loadgen_Run
  imports Loadgen
begin

text \<open>
  The load generator's thread (\<open>worker_main\<close>) and program (\<open>fill_src\<close>, \<open>main\<close>): starting
  connections in closed-loop or open-loop mode, waiting for events, draining; the command line,
  the split over threads, the aggregation and the percentiles.
\<close>

subsection \<open>A thread\<close>

text \<open>The locals of \<open>worker_main\<close> that do not change in its loop.\<close>

record lg_plan =
  pl_tend :: rat
  pl_interval :: rat
  pl_drain_deadline :: rat
  pl_target :: int
  pl_cap :: int

definition start_one :: "loadgen_env \<Rightarrow> in_addr list \<Rightarrow> lg_thread \<Rightarrow> (bool \<times> lg_thread) option" where
  "start_one env g_src st = do {
     (r, st) \<leftarrow> conn_start env g_src st;
     Some (if r = 0 then (True, st\<lparr>t_inflight := t_inflight st + 1\<rparr>) else (False, st))
   }"

lemma conn_start_inflight: "conn_start env g_src st = Some (r, st') \<Longrightarrow> t_inflight st' = t_inflight st"
  by (auto simp: conn_start_def bind_source_def free_conn_def Let_def split: if_splits option.splits bind_splits)

text \<open>Closed loop: keep \<open>cap\<close> connections in flight, give up on the first failure.\<close>

function start_closed ::
  "loadgen_env \<Rightarrow> in_addr list \<Rightarrow> lg_plan \<Rightarrow> rat \<Rightarrow> lg_thread \<Rightarrow> lg_thread option" where
  "start_closed env g_src pl t st =
     (if t < pl_tend pl \<and> t_inflight st < pl_cap pl then do {
        (ok, st) \<leftarrow> start_one env g_src st;
        if ok then start_closed env g_src pl t st else Some st
      }
      else Some st)"
  by pat_completeness auto
termination
  by (relation "measure (\<lambda>(env, g_src, pl, t, st). nat (pl_cap pl - t_inflight st))")
    (auto simp: start_one_def conn_start_inflight split: bind_splits if_splits)

text \<open>Open loop: start at the paced rate. The loop need not end, see \<open>Loadgen_Props\<close>.\<close>

partial_function (option) start_open ::
  "loadgen_env \<Rightarrow> in_addr list \<Rightarrow> lg_plan \<Rightarrow> rat \<Rightarrow> lg_thread \<Rightarrow> lg_thread option" where
  "start_open env g_src pl t st =
     (if t < pl_tend pl \<and> t_next_start st \<le> t \<and> t_inflight st < pl_cap pl then
        Option.bind (start_one env g_src st) (\<lambda>(ok, st).
          let next_start = g_rnd env (t_next_start st + pl_interval pl);
              next_start = (if next_start < t then t else next_start)
          in start_open env g_src pl t (st\<lparr>t_next_start := next_start\<rparr>))
      else Some st)"

definition handle_event :: "loadgen_env \<Rightarrow> epoll_event \<Rightarrow> lg_thread \<Rightarrow> lg_thread option" where
  "handle_event env ev st = do {
     (r, st) \<leftarrow> handle env (fst ev) (snd ev) st;
     Some (st\<lparr>t_inflight := t_inflight st - (case r of Some i \<Rightarrow> i | None \<Rightarrow> 0)\<rparr>)
   }"

definition lg_loop_body ::
  "loadgen_env \<Rightarrow> in_addr list \<Rightarrow> lg_plan \<Rightarrow> lg_thread \<Rightarrow> lg_thread loop_next option" where
  "lg_loop_body env g_src pl st =
     (let (t, st) = now_s env st in
      if pl_tend pl \<le> t \<and> t_inflight st = 0 then Some (Break st)
      else if pl_drain_deadline pl \<le> t then
        Some (Break (st\<lparr>t_w := count_fail F_TIMEOUT (of_int (t_inflight st)) (t_w st)\<rparr>))
      else do {
        st \<leftarrow> (if 0 < pl_target pl then start_closed env g_src pl t st
               else start_open env g_src pl t st);
        let evs = g_epoll_wait env (t_log st) 1024;
        if 1024 < length evs then None
        else do {
          st \<leftarrow> for_each (handle_event env) evs (lcall (L_epoll_wait evs) st);
          Some (Continue st)
        }
      })"

definition lg_plan_of :: "loadgen_env \<Rightarrow> worker_t \<Rightarrow> rat \<Rightarrow> lg_plan" where
  "lg_plan_of env w start =
     (let tend = g_rnd env (start + lw_duration w)
      in \<lparr>pl_tend = tend,
          pl_interval = (if 0 < lw_rate w then g_rnd env (1 / lw_rate w) else 1000000000),
          pl_drain_deadline = g_rnd env (tend + 5),
          pl_target = lw_conns w,
          pl_cap = (if 0 < lw_conns w then lw_conns w else MAX_INFLIGHT)\<rparr>)"

text \<open>The thread as it enters its loop.\<close>

definition lg_enter :: "loadgen_env \<Rightarrow> worker_t \<Rightarrow> lg_plan \<times> lg_thread" where
  "lg_enter env w =
     (let st = \<lparr>t_w = w, t_heap = Map.empty, t_inflight = 0, t_next_start = 0, t_log = []\<rparr>;
          st = lcall (L_epoll_create (g_epoll_create env [])) st;
          (start, st) = now_s env st
      in (lg_plan_of env w start, st\<lparr>t_next_start := start\<rparr>))"

definition worker_main :: "loadgen_env \<Rightarrow> in_addr list \<Rightarrow> worker_t \<Rightarrow> lg_thread loop_exit option" where
  "worker_main env g_src w =
     (let (pl, st) = lg_enter env w
      in case run_loop (\<lambda>_. False) (lg_loop_body env g_src pl) st of
           Some (Exited st) \<Rightarrow> Some (Exited (lcall (L_close (g_epoll_create env [])) st))
         | r \<Rightarrow> r)"

subsection \<open>The source address pool\<close>

text \<open>
  \<open>strtok\<close> with the separator comma: the non-empty fields. The list is cut to the 4095
  characters the buffer holds.
\<close>

fun fields :: "string \<Rightarrow> string \<Rightarrow> string list" where
  "fields acc [] = (if acc = [] then [] else [rev acc])"
| "fields acc (c # cs) =
     (if c = CHR '','' then (if acc = [] then fields [] cs else rev acc # fields [] cs)
      else fields (c # acc) cs)"

text \<open>
  \<open>inet_pton\<close> and \<open>getifaddrs\<close> are parameters; an interface entry is \<open>None\<close> when it has no
  IPv4 address.
\<close>

fun add_ifaddrs :: "in_addr option list \<Rightarrow> in_addr list \<Rightarrow> in_addr list" where
  "add_ifaddrs [] g_src = g_src"
| "add_ifaddrs (p # ps) g_src =
     (if 256 \<le> length g_src then g_src
      else case p of
             None \<Rightarrow> add_ifaddrs ps g_src
           | Some a \<Rightarrow> if drop_bit 24 a = 127 then add_ifaddrs ps g_src
                     else add_ifaddrs ps (g_src @ [a]))"

fun add_listed :: "(string \<Rightarrow> in_addr option) \<Rightarrow> string list \<Rightarrow> in_addr list \<Rightarrow> in_addr list" where
  "add_listed pton [] g_src = g_src"
| "add_listed pton (t # ts) g_src =
     (if 256 \<le> length g_src then g_src
      else case pton t of None \<Rightarrow> add_listed pton ts g_src
             | Some a \<Rightarrow> add_listed pton ts (g_src @ [a]))"

definition fill_src ::
  "(string \<Rightarrow> in_addr option) \<Rightarrow> in_addr option list option \<Rightarrow> string \<Rightarrow> in_addr list \<Rightarrow> in_addr list" where
  "fill_src pton ifaddrs spec g_src =
     (if spec = ''auto'' then (case ifaddrs of Some ps \<Rightarrow> add_ifaddrs ps g_src | None \<Rightarrow> g_src)
      else add_listed pton (fields [] (take 4095 spec)) g_src)"

subsection \<open>The command line\<close>

record lg_opts =
  lo_host :: string
  lo_port :: int
  lo_rate :: rat
  lo_dur :: rat
  lo_threads :: int
  lo_sample :: int
  lo_conns :: int
  lo_src :: "in_addr list"

definition lg_defaults :: lg_opts where
  "lg_defaults = \<lparr>lo_host = ''127.0.0.1'', lo_port = 31, lo_rate = 1000, lo_dur = 5, lo_threads = 4,
     lo_sample = 5, lo_conns = 0, lo_src = []\<rparr>"

text \<open>What the program gets from the system besides its threads.\<close>

record lg_system =
  m_atof :: "string \<Rightarrow> rat"
  m_inet_pton :: "string \<Rightarrow> in_addr option"
  m_getifaddrs :: "in_addr option list option"
  m_calloc :: "nat \<Rightarrow> bool" \<comment> \<open>do the two arrays (0: workers, 1: thread handles) get memory\<close>
  m_pthread_create :: "nat \<Rightarrow> bool" \<comment> \<open>does the creation of thread i succeed\<close>
  m_thread :: "nat \<Rightarrow> loadgen_env"
  m_wall :: "timespec \<times> timespec" \<comment> \<open>the clock before and after the run\<close>
  m_rusage :: "(timespec \<times> timespec) \<times> (timespec \<times> timespec)" \<comment> \<open>(utime, stime) before and after\<close>
  m_ncpu :: int
  m_rnd :: "rat \<Rightarrow> rat"

fun lg_parse :: "lg_system \<Rightarrow> string list \<Rightarrow> lg_opts \<Rightarrow> lg_opts" where
  "lg_parse m (a # b # rest) opts =
     (if a = ''--host'' then lg_parse m rest (opts\<lparr>lo_host := b\<rparr>)
      else if a = ''--port'' then lg_parse m rest (opts\<lparr>lo_port := atoi b\<rparr>)
      else if a = ''--rate'' then lg_parse m rest (opts\<lparr>lo_rate := m_atof m b\<rparr>)
      else if a = ''--conns'' then lg_parse m rest (opts\<lparr>lo_conns := atoi b\<rparr>)
      else if a = ''--duration'' then lg_parse m rest (opts\<lparr>lo_dur := m_atof m b\<rparr>)
      else if a = ''--threads'' then lg_parse m rest (opts\<lparr>lo_threads := atoi b\<rparr>)
      else if a = ''--sample-pct'' then lg_parse m rest (opts\<lparr>lo_sample := atoi b\<rparr>)
      else if a = ''--source-ips'' then
        lg_parse m rest (opts\<lparr>lo_src := fill_src (m_inet_pton m) (m_getifaddrs m) b (lo_src opts)\<rparr>)
      else lg_parse m (b # rest) opts)"
| "lg_parse m _ opts = opts"

definition lg_threads :: "lg_opts \<Rightarrow> int" where
  "lg_threads opts =
     (let threads = (if lo_threads opts < 1 then 1 else lo_threads opts)
      in if 0 < lo_conns opts \<and> lo_conns opts < threads then lo_conns opts else threads)"

text \<open>The slice of the work thread \<open>i\<close> gets; \<open>calloc\<close> has cleared its counters.\<close>

definition lg_worker :: "lg_system \<Rightarrow> lg_opts \<Rightarrow> int \<Rightarrow> int \<Rightarrow> worker_t" where
  "lg_worker m opts threads i =
     \<lparr>lw_id = i, lw_nthreads = threads, lw_port = lo_port opts,
      lw_rate = m_rnd m (lo_rate opts / m_rnd m (of_int threads)),
      lw_conns = (if 0 < lo_conns opts
                  then lo_conns opts sdiv threads + (if i < lo_conns opts smod threads then 1 else 0)
                  else 0),
      lw_duration = lo_dur opts, lw_sample_pct = lo_sample opts,
      lw_offered = 0, lw_completed = 0, lw_failed = (\<lambda>r. 0), lw_sampled_total = 0, lw_sampled_bad = 0,
      lw_hist = replicate (nat (HBUCKETS + 1)) 0\<rparr>"

subsection \<open>Aggregation\<close>

record lg_totals =
  a_offered :: "64 word"
  a_completed :: "64 word"
  a_failed_total :: "64 word"
  a_failed :: "fail_reason \<Rightarrow> 64 word"
  a_stot :: "64 word"
  a_sbad :: "64 word"
  a_hist :: "64 word list"

definition lg_zero :: lg_totals where
  "lg_zero = \<lparr>a_offered = 0, a_completed = 0, a_failed_total = 0, a_failed = (\<lambda>r. 0), a_stot = 0,
     a_sbad = 0, a_hist = replicate (nat (HBUCKETS + 1)) 0\<rparr>"

definition add_failed :: "worker_t \<Rightarrow> fail_reason \<Rightarrow> lg_totals \<Rightarrow> lg_totals" where
  "add_failed w r a = a\<lparr>a_failed := (a_failed a)(r := a_failed a r + lw_failed w r),
     a_failed_total := a_failed_total a + lw_failed w r\<rparr>"

definition add_worker :: "worker_t \<Rightarrow> lg_totals \<Rightarrow> lg_totals" where
  "add_worker w a =
     (fold (add_failed w) F_REASONS
        (a\<lparr>a_offered := a_offered a + lw_offered w, a_completed := a_completed a + lw_completed w,
           a_stot := a_stot a + lw_sampled_total w, a_sbad := a_sbad a + lw_sampled_bad w\<rparr>))
       \<lparr>a_hist := map2 (+) (a_hist a) (lw_hist w)\<rparr>"

definition aggregate :: "worker_t list \<Rightarrow> lg_totals" where
  "aggregate ws = fold add_worker ws lg_zero"

subsection \<open>Percentiles\<close>

text \<open>The flags \<open>p50set\<close> and so on say whether the option is a value.\<close>

record lg_pct =
  q_c :: "64 word"
  q_p50 :: "int option"
  q_p99 :: "int option"
  q_p999 :: "int option"

text \<open>\<open>c >= tot * q\<close> in doubles.\<close>

definition reaches :: "(rat \<Rightarrow> rat) \<Rightarrow> 64 word \<Rightarrow> rat \<Rightarrow> 64 word \<Rightarrow> bool" where
  "reaches rnd tot q c \<longleftrightarrow> rnd (rnd (of_nat (unat tot)) * rnd q) \<le> rnd (of_nat (unat c))"

fun pct_loop :: "(rat \<Rightarrow> rat) \<Rightarrow> 64 word \<Rightarrow> int \<Rightarrow> 64 word list \<Rightarrow> lg_pct \<Rightarrow> lg_pct" where
  "pct_loop rnd tot b [] p = p"
| "pct_loop rnd tot b (x # xs) p =
     (let c = q_c p + x;
          p = p\<lparr>q_c := c\<rparr>;
          p = (if q_p50 p = None \<and> reaches rnd tot (1 / 2) c then p\<lparr>q_p50 := Some (b * HUS_PER)\<rparr> else p);
          p = (if q_p99 p = None \<and> reaches rnd tot (99 / 100) c then p\<lparr>q_p99 := Some (b * HUS_PER)\<rparr> else p)
      in if q_p999 p = None \<and> reaches rnd tot (999 / 1000) c then p\<lparr>q_p999 := Some (b * HUS_PER)\<rparr>
         else pct_loop rnd tot (b + 1) xs p)"

fun max_loop :: "int \<Rightarrow> 64 word list \<Rightarrow> int \<Rightarrow> int" where
  "max_loop b [] maxus = maxus"
| "max_loop b (x # xs) maxus = max_loop (b + 1) xs (if 0 < x then b * HUS_PER else maxus)"

definition us_or_0 :: "int option \<Rightarrow> int" where
  "us_or_0 p = (case p of Some us \<Rightarrow> us | None \<Rightarrow> 0)"

text \<open>\<open>(p50us, p99us, p999us, maxus)\<close>\<close>

definition percentiles :: "(rat \<Rightarrow> rat) \<Rightarrow> 64 word \<Rightarrow> 64 word list \<Rightarrow> int \<times> int \<times> int \<times> int" where
  "percentiles rnd tot hist =
     (if 0 < tot then
        let p = pct_loop rnd tot 0 hist \<lparr>q_c = 0, q_p50 = None, q_p99 = None, q_p999 = None\<rparr>
        in (us_or_0 (q_p50 p), us_or_0 (q_p99 p), us_or_0 (q_p999 p), max_loop 0 hist 0)
      else (0, 0, 0, 0))"

subsection \<open>The report and the program\<close>

record lg_report =
  r_totals :: lg_totals
  r_off_cps :: rat
  r_comp_cps :: rat
  r_fail_cps :: rat
  r_drop :: rat
  r_reply_ok :: bool
  r_p50us :: int
  r_p99us :: int
  r_p999us :: int
  r_maxus :: int
  r_cpu_frac :: rat
  r_cores :: int
  r_source_ips :: nat
  r_threads :: int

definition fp_div :: "(rat \<Rightarrow> rat) \<Rightarrow> 64 word \<Rightarrow> rat \<Rightarrow> rat" where
  "fp_div rnd n x = rnd (rnd (of_nat (unat n)) / x)"

definition lg_drop :: "(rat \<Rightarrow> rat) \<Rightarrow> 64 word \<Rightarrow> 64 word \<Rightarrow> rat" where
  "lg_drop rnd failed_total offered =
     (if offered \<noteq> 0 then fp_div rnd failed_total (rnd (of_nat (unat offered))) else 0)"

text \<open>\<open>(b.tv_sec - a.tv_sec) + (b.tv_usec - a.tv_usec) / 1e6\<close>, and the share of the machine.\<close>

definition lg_cpu :: "lg_system \<Rightarrow> rat" where
  "lg_cpu m =
     (let rnd = m_rnd m;
          ((u0, s0), (u1, s1)) = m_rusage m;
          sec = (\<lambda>a b. rnd (of_int (fst b - fst a)));
          usec = (\<lambda>a b. rnd (rnd (of_int (snd b - snd a)) / 1000000));
          cpu_s = rnd (rnd (rnd (sec u0 u1 + usec u0 u1) + sec s0 s1) + usec s0 s1);
          wall0 = seconds rnd (fst (m_wall m));
          wall1 = seconds rnd (snd (m_wall m));
          ncpu = (if m_ncpu m < 1 then 1 else m_ncpu m)
      in if wall0 < wall1
         then rnd (cpu_s / rnd (rnd (wall1 - wall0) * rnd (of_int ncpu)))
         else 0)"

definition lg_summary :: "lg_system \<Rightarrow> lg_opts \<Rightarrow> int \<Rightarrow> worker_t list \<Rightarrow> lg_report" where
  "lg_summary m opts threads ws =
     (let rnd = m_rnd m; a = aggregate ws; dur = lo_dur opts;
          (p50us, p99us, p999us, maxus) = percentiles rnd (a_completed a) (a_hist a);
          cps = (\<lambda>n. if 0 < dur then fp_div rnd n dur else 0)
      in \<lparr>r_totals = a, r_off_cps = cps (a_offered a), r_comp_cps = cps (a_completed a),
          r_fail_cps = cps (a_failed_total a), r_drop = lg_drop rnd (a_failed_total a) (a_offered a),
          r_reply_ok = (a_sbad a = 0), r_p50us = p50us, r_p99us = p99us, r_p999us = p999us,
          r_maxus = maxus, r_cpu_frac = lg_cpu m, r_cores = (if m_ncpu m < 1 then 1 else m_ncpu m),
          r_source_ips = length (lo_src opts), r_threads = threads\<rparr>)"

text \<open>
  Joining the threads, in order. A thread that was not created leaves an invalid handle, and
  joining it is undefined; so is a thread with undefined behaviour. A thread that never ends is
  waited for forever.
\<close>

fun lg_join :: "lg_system \<Rightarrow> lg_opts \<Rightarrow> int \<Rightarrow> nat list \<Rightarrow> worker_t list loop_exit option" where
  "lg_join m opts threads [] = Some (Exited [])"
| "lg_join m opts threads (i # is) =
     (if \<not> m_pthread_create m i then Some Undefined
      else case worker_main (m_thread m i) (lo_src opts) (lg_worker m opts threads (int i)) of
             None \<Rightarrow> None
           | Some Undefined \<Rightarrow> Some Undefined
           | Some (Exited st) \<Rightarrow>
               (case lg_join m opts threads is of
                  None \<Rightarrow> None
                | Some Undefined \<Rightarrow> Some Undefined
                | Some (Exited ws) \<Rightarrow> Some (Exited (t_w st # ws))))"

definition lg_main :: "lg_system \<Rightarrow> string list \<Rightarrow> (int \<times> lg_report option) loop_exit option" where
  "lg_main m argv =
     (let opts = lg_parse m (tl argv) lg_defaults;
          threads = lg_threads opts
      in if m_inet_pton m (lo_host opts) = None then Some (Exited (2, None))
         else if \<not> m_calloc m 0 \<or> \<not> m_calloc m 1 then Some Undefined
         else case lg_join m opts threads [0..<nat threads] of
                None \<Rightarrow> None
              | Some Undefined \<Rightarrow> Some Undefined
              | Some (Exited ws) \<Rightarrow> Some (Exited (0, Some (lg_summary m opts threads ws))))"

end
