(* ===== verification/Loadgen_Inv.thy ===== *)
theory Loadgen_Inv
  imports Loadgen_Run
begin

text \<open>
  The load generator's bookkeeping. The invariant \<open>lg_inv\<close> relates the connection objects to the
  history (every object holds an open, watched descriptor; what was written on it is a prefix of
  the request; what was read from it is in its buffer) and the counters to each other. Each stage
  of \<open>handle\<close> either keeps the connection (\<open>progress\<close>) or resolves it (\<open>resolved\<close>).
\<close>

subsection \<open>Readings of a history\<close>

fun watched :: "lhistory \<Rightarrow> int \<Rightarrow> ptr" where
  "watched [] = (\<lambda>fd. None)"
| "watched (L_epoll_ctl oper fd ev p # h) =
     (watched h)(fd := (if oper = EPOLL_CTL_DEL then None else p))"
| "watched (L_close fd # h) = (watched h)(fd := None)"
| "watched (_ # h) = watched h"

fun lg_open :: "lhistory \<Rightarrow> int set" where
  "lg_open [] = {}"
| "lg_open (L_socket fd # h) = (if 0 \<le> fd then insert fd (lg_open h) else lg_open h)"
| "lg_open (L_close fd # h) = lg_open h - {fd}"
| "lg_open (_ # h) = lg_open h"

fun lg_live :: "lhistory \<Rightarrow> addr set" where
  "lg_live [] = {}"
| "lg_live (L_calloc p # h) = set_option p \<union> lg_live h"
| "lg_live (L_free a # h) = lg_live h - {a}"
| "lg_live (_ # h) = lg_live h"

text \<open>Starts that failed: no socket, or a connect that was refused at once.\<close>

fun refused :: "lhistory \<Rightarrow> nat" where
  "refused [] = 0"
| "refused (L_socket fd # h) = (if fd < 0 then Suc (refused h) else refused h)"
| "refused (L_connect fd err # h) =
     (if err \<noteq> 0 \<and> err \<noteq> EINPROGRESS then Suc (refused h) else refused h)"
| "refused (_ # h) = refused h"

text \<open>What was written and read on a descriptor since its socket was created.\<close>

fun wrote :: "lhistory \<Rightarrow> int \<Rightarrow> bytes" where
  "wrote [] fd = []"
| "wrote (L_socket k # h) fd = (if k = fd then [] else wrote h fd)"
| "wrote (L_write k b n # h) fd = (if k = fd \<and> 0 < n then wrote h fd @ take (nat n) b else wrote h fd)"
| "wrote (_ # h) fd = wrote h fd"

fun heard :: "lhistory \<Rightarrow> int \<Rightarrow> bytes" where
  "heard [] fd = []"
| "heard (L_socket k # h) fd = (if k = fd then [] else heard h fd)"
| "heard (L_read k len b n # h) fd = (if k = fd then heard h fd @ b else heard h fd)"
| "heard (_ # h) fd = heard h fd"

text \<open>Calls without influence on these readings.\<close>

definition neutral :: "lcall \<Rightarrow> bool" where
  "neutral c = (case c of L_setsockopt _ _ \<Rightarrow> True | L_fetch_srci _ \<Rightarrow> True | L_bind _ _ \<Rightarrow> True
     | L_clock _ \<Rightarrow> True | L_connect _ err \<Rightarrow> err = 0 \<or> err = EINPROGRESS | L_epoll_create _ \<Rightarrow> True
     | L_epoll_wait _ \<Rightarrow> True | L_so_error _ _ \<Rightarrow> True | L_write _ _ n \<Rightarrow> n \<le> 0
     | L_read _ _ b _ \<Rightarrow> b = [] | _ \<Rightarrow> False)"

lemma neutral_readings:
  assumes "neutral c"
  shows "watched (c # h) = watched h" "lg_open (c # h) = lg_open h" "lg_live (c # h) = lg_live h"
    "refused (c # h) = refused h" "wrote (c # h) fd = wrote h fd" "heard (c # h) fd = heard h fd"
  using assms by (cases c; auto simp: neutral_def)+

lemma neutral_simps [simp]:
  "neutral (L_setsockopt fd opt)" "neutral (L_fetch_srci i)" "neutral (L_bind fd ad)" "neutral (L_clock t)"
  "neutral (L_epoll_create e)" "neutral (L_epoll_wait es)" "neutral (L_so_error fd e)"
  "neutral (L_connect fd e) \<longleftrightarrow> e = 0 \<or> e = EINPROGRESS"
  "neutral (L_write fd bs n) \<longleftrightarrow> n \<le> 0" "neutral (L_read fd l bs n) \<longleftrightarrow> bs = []"
  by (simp_all add: neutral_def)

subsection \<open>The contract of the kernel and the C library\<close>

text \<open>
  A new socket has a number that is not open; calloc gives an object that is not allocated;
  epoll reports at most the number of events asked for, each watched object once; write and read
  transfer no more than asked, and read stores exactly what it reports.
\<close>

definition lg_contract :: "loadgen_env \<Rightarrow> bool" where
  "lg_contract env \<longleftrightarrow>
     (\<forall>h. g_socket env h \<notin> lg_open h) \<and>
     (\<forall>h. \<exists>a. g_calloc env h = Some a \<and> a \<notin> lg_live h) \<and>
     (\<forall>h n. length (g_epoll_wait env h n) \<le> n \<and> distinct (map fst (g_epoll_wait env h n)) \<and>
        (\<forall>a \<in> set (map fst (g_epoll_wait env h n)). Some a \<in> range (watched h))) \<and>
     (\<forall>h b. g_write env h b \<le> int (length b)) \<and>
     (\<forall>h n. case g_read env h n of (bs, r) \<Rightarrow>
        if 0 < r then r = int (length bs) \<and> length bs \<le> n else bs = [])"

lemma lg_contractD:
  assumes "lg_contract env"
  shows "g_socket env h \<notin> lg_open h" and "\<exists>a. g_calloc env h = Some a \<and> a \<notin> lg_live h"
    and "length (g_epoll_wait env h n) \<le> n" and "distinct (map fst (g_epoll_wait env h n))"
    and "a \<in> set (map fst (g_epoll_wait env h n)) \<Longrightarrow> \<exists>fd. watched h fd = Some a"
    and "g_write env h b \<le> int (length b)"
    and "g_read env h n = (bs, r) \<Longrightarrow>
      (0 < r \<longrightarrow> r = int (length bs) \<and> length bs \<le> n) \<and> (r \<le> 0 \<longrightarrow> bs = [])"
proof -
  note c = assms [unfolded lg_contract_def]
  show "g_socket env h \<notin> lg_open h" and "\<exists>a. g_calloc env h = Some a \<and> a \<notin> lg_live h"
    and "length (g_epoll_wait env h n) \<le> n" and "distinct (map fst (g_epoll_wait env h n))"
    and "g_write env h b \<le> int (length b)"
    using c by blast+
  show "\<exists>fd. watched h fd = Some a" if "a \<in> set (map fst (g_epoll_wait env h n))"
  proof -
    from c that have "Some a \<in> range (watched h)" by blast
    then show ?thesis by (auto simp: image_iff intro: sym)
  qed
  have "case g_read env h n of (bs, r) \<Rightarrow>
      if 0 < r then r = int (length bs) \<and> length bs \<le> n else bs = []"
    by (rule c [THEN conjunct2, THEN conjunct2, THEN conjunct2, THEN conjunct2, THEN spec, THEN spec])
  then show "(0 < r \<longrightarrow> r = int (length bs) \<and> length bs \<le> n) \<and> (r \<le> 0 \<longrightarrow> bs = [])"
    if "g_read env h n = (bs, r)"
    using that by (auto split: if_splits)
qed

subsection \<open>The invariant\<close>

definition conn_ok :: "lhistory \<Rightarrow> addr \<Rightarrow> conn_t \<Rightarrow> bool" where
  "conn_ok h a c \<longleftrightarrow> 0 \<le> c_fd c \<and> c_fd c \<in> lg_open h \<and> watched h (c_fd c) = Some a \<and>
     c_state c \<in> {0, 1, 2} \<and> 0 \<le> c_sent c \<and> c_sent c \<le> REQ_LEN \<and> 0 \<le> c_got c \<and> c_got c \<le> REPLY_LEN \<and>
     (c_state c = 2 \<longrightarrow> c_sent c = REQ_LEN) \<and> (c_state c \<noteq> 2 \<longrightarrow> c_got c = 0) \<and>
     length (c_rbuf c) = SIZEOF_RBUF \<and>
     wrote h (c_fd c) = take (nat (c_sent c)) REQUEST \<and> heard h (c_fd c) = take (nat (c_got c)) (c_rbuf c)"

definition failures :: "worker_t \<Rightarrow> 64 word" where
  "failures w = sum_list (map (lw_failed w) F_REASONS)"

lemma failures_all: "failures w = (\<Sum>r \<in> UNIV. lw_failed w r)"
  using F_REASONS_all by (simp add: failures_def sum_list_distinct_conv_sum_set)

definition counted :: "worker_t \<Rightarrow> nat \<Rightarrow> nat \<Rightarrow> bool" where
  "counted w nrefused nopen \<longleftrightarrow>
     lw_offered w + of_nat nrefused = lw_completed w + failures w + of_nat nopen \<and>
     length (lw_hist w) = nat (HBUCKETS + 1) \<and> sum_list (lw_hist w) = lw_completed w"

definition lg_inv :: "lg_thread \<Rightarrow> bool" where
  "lg_inv st \<longleftrightarrow> finite (dom (t_heap st)) \<and> lg_live (t_log st) = dom (t_heap st) \<and>
     (\<forall>a c. t_heap st a = Some c \<longrightarrow> conn_ok (t_log st) a c) \<and>
     (\<forall>fd a. watched (t_log st) fd = Some a \<longrightarrow> (\<exists>c. t_heap st a = Some c \<and> c_fd c = fd)) \<and>
     counted (t_w st) (refused (t_log st)) (card (dom (t_heap st)))"

lemma failures_count_fail [simp]: "failures (count_fail r n w) = failures w + n"
  by (cases r) (simp_all add: failures_def count_fail_def F_REASONS_def)

lemma count_fail_simps [simp]:
  "lw_offered (count_fail r n w) = lw_offered w" "lw_completed (count_fail r n w) = lw_completed w"
  "lw_hist (count_fail r n w) = lw_hist w" "lw_sample_pct (count_fail r n w) = lw_sample_pct w"
  by (simp_all add: count_fail_def)

lemma conn_ok_neutral [simp]: "neutral k \<Longrightarrow> conn_ok (k # h) a c = conn_ok h a c"
  by (simp add: conn_ok_def neutral_readings)

lemma lg_inv_neutral [simp]: "neutral k \<Longrightarrow> lg_inv (lcall k st) = lg_inv st"
  by (simp add: lg_inv_def neutral_readings)

lemma lg_inv_frame [simp]:
  "lg_inv (st\<lparr>t_inflight := n\<rparr>) = lg_inv st" "lg_inv (st\<lparr>t_next_start := x\<rparr>) = lg_inv st"
  by (simp_all add: lg_inv_def)

text \<open>Two objects never hold the same descriptor.\<close>

lemma lg_inv_fd_unique:
  assumes "lg_inv st" and "t_heap st a = Some c" and "t_heap st b = Some d" and "a \<noteq> b"
  shows "c_fd c \<noteq> c_fd d"
proof -
  have "conn_ok (t_log st) a c" "conn_ok (t_log st) b d"
    using assms by (auto simp: lg_inv_def)
  with assms(4) show ?thesis by (auto simp: conn_ok_def)
qed

subsection \<open>Resolving a connection\<close>

definition exchanged :: "int \<Rightarrow> bool \<Rightarrow> lhistory \<Rightarrow> bool" where
  "exchanged fd sampled h \<longleftrightarrow> wrote h fd = REQUEST \<and> length (heard h fd) = length REPLY \<and>
     hd (heard h fd) = CHR ''H'' \<and> last (heard h fd) = CHR 0x0A \<and> (sampled \<longrightarrow> heard h fd = REPLY)"

definition resolved :: "addr \<Rightarrow> conn_t \<Rightarrow> lg_thread \<Rightarrow> lg_thread \<Rightarrow> bool" where
  "resolved a c st st' \<longleftrightarrow> lg_inv st' \<and> length (t_log st) \<le> length (t_log st') \<and> t_inflight st' = t_inflight st \<and>
     t_next_start st' = t_next_start st \<and> t_heap st' = (t_heap st)(a := None) \<and>
     (lw_completed (t_w st') = lw_completed (t_w st) \<or> exchanged (c_fd c) (c_sampled c) (t_log st'))"

definition progress :: "addr \<Rightarrow> conn_t \<Rightarrow> lg_thread \<Rightarrow> lg_thread \<Rightarrow> bool" where
  "progress a c st st' \<longleftrightarrow> lg_inv st' \<and> length (t_log st) \<le> length (t_log st') \<and> t_inflight st' = t_inflight st \<and>
     t_next_start st' = t_next_start st \<and> lw_completed (t_w st') = lw_completed (t_w st) \<and>
     (\<exists>c'. t_heap st' = (t_heap st)(a \<mapsto> c') \<and> c_fd c' = c_fd c \<and> c_sampled c' = c_sampled c)"

definition stage_ok :: "addr \<Rightarrow> conn_t \<Rightarrow> lg_thread \<Rightarrow> stage \<Rightarrow> bool" where
  "stage_ok a c st s \<longleftrightarrow> (\<exists>st'. s = Some (Some 1, st') \<and> resolved a c st st') \<or>
     (\<exists>r st'. s = Some (r, st') \<and> (r = None \<or> r = Some 0) \<and> progress a c st st')"

lemma progress_resolved:
  assumes "progress a c st st1" and "t_heap st1 a = Some c1" and "resolved a c1 st1 st2"
  shows "resolved a c st st2"
  using assms by (auto simp: progress_def resolved_def)

lemma progress_trans:
  assumes "progress a c st st1" and "t_heap st1 a = Some c1" and "progress a c1 st1 st2"
  shows "progress a c st st2"
  using assms by (auto simp: progress_def)

lemma progress_stage:
  assumes "progress a c st st1" and "t_heap st1 a = Some c1" and "stage_ok a c1 st1 s"
  shows "stage_ok a c st s"
  using assms(3) progress_trans [OF assms(1,2)] progress_resolved [OF assms(1,2)]
  unfolding stage_ok_def by blast

lemma and_then_ok:
  assumes "stage_ok a c st s"
    and "\<And>st1 c1. progress a c st st1 \<Longrightarrow> t_heap st1 a = Some c1 \<Longrightarrow> stage_ok a c1 st1 (f st1)"
  shows "stage_ok a c st (and_then s f)"
  using assms(1) unfolding stage_ok_def [of a c st s]
proof (elim disjE exE conjE)
  fix r st' assume s: "s = Some (r, st')" "r = None" and p: "progress a c st st'"
  from p obtain c1 where "t_heap st' a = Some c1"
    by (auto simp: progress_def)
  from progress_stage [OF p this assms(2) [OF p this]] s show ?thesis
    by (simp add: and_then_def)
qed (auto simp: and_then_def stage_ok_def)

text \<open>Closing a connection and freeing its object.\<close>

lemma lg_inv_remove:
  assumes inv: "lg_inv st" and c: "t_heap st a = Some c" and "lw_offered w = lw_offered (t_w st)"
    and "lw_completed w + failures w = lw_completed (t_w st) + failures (t_w st) + 1"
    and "length (lw_hist w) = nat (HBUCKETS + 1)" and "sum_list (lw_hist w) = lw_completed w"
  shows "lg_inv (st\<lparr>t_w := w, t_heap := (t_heap st)(a := None),
     t_log := L_free a # L_close (c_fd c) # L_epoll_ctl EPOLL_CTL_DEL (c_fd c) 0 None # t_log st\<rparr>)"
proof -
  let ?h = "L_free a # L_close (c_fd c) # L_epoll_ctl EPOLL_CTL_DEL (c_fd c) 0 None # t_log st"
  have fin: "finite (dom (t_heap st))" and a: "a \<in> dom (t_heap st)"
    using inv c by (auto simp: lg_inv_def)
  have ok: "conn_ok ?h b d" if "t_heap st b = Some d" "b \<noteq> a" for b d
    using inv that lg_inv_fd_unique [OF inv that(1) c that(2)] by (auto simp: lg_inv_def conn_ok_def)
  have w: "watched (t_log st) (c_fd c) = Some a"
    using inv c by (auto simp: lg_inv_def conn_ok_def)
  have left: "\<exists>d. ((t_heap st)(a := None)) b = Some d \<and> c_fd d = fd" if "watched ?h fd = Some b" for fd b
  proof -
    from that have fd: "fd \<noteq> c_fd c" "watched (t_log st) fd = Some b"
      by (auto split: if_splits)
    then obtain d where "t_heap st b = Some d" "c_fd d = fd"
      using inv unfolding lg_inv_def by blast
    with fd c show ?thesis by auto
  qed
  have "card (dom (t_heap st)) = Suc (card (dom (t_heap st) - {a}))"
    using fin a by (metis card_Suc_Diff1)
  then have "counted w (refused ?h) (card (dom ((t_heap st)(a := None))))"
    using inv assms(3-6) by (simp add: lg_inv_def counted_def algebra_simps)
  then show ?thesis
    using inv fin ok left by (auto simp: lg_inv_def)
qed

lemma lg_inv_conn: "lg_inv st \<Longrightarrow> t_heap st a = Some c \<Longrightarrow> conn_ok (t_log st) a c"
  by (simp add: lg_inv_def)

lemma lg_inv_counted: "lg_inv st \<Longrightarrow> counted (t_w st) (refused (t_log st)) (card (dom (t_heap st)))"
  by (simp add: lg_inv_def)

lemma resolve_fail_ok:
  assumes "lg_inv st" and "t_heap st a = Some c"
  shows "stage_ok a c st (resolve_fail r a st)"
proof -
  let ?w = "count_fail r 1 (t_w st)"
  have fd: "0 \<le> c_fd c"
    using lg_inv_conn [OF assms] by (simp add: conn_ok_def)
  have "lg_inv (st\<lparr>t_w := ?w, t_heap := (t_heap st)(a := None),
      t_log := L_free a # L_close (c_fd c) # L_epoll_ctl EPOLL_CTL_DEL (c_fd c) 0 None # t_log st\<rparr>)"
    by (rule lg_inv_remove [OF assms]) (use lg_inv_counted [OF assms(1)] in \<open>simp_all add: counted_def\<close>)
  then show ?thesis
    using assms(2) fd
    by (simp add: stage_ok_def resolve_fail_def conn_fail_def free_conn_def conn_shut_def resolved_def lcall_def)
qed

lemma sum_list_bump:
  fixes xs :: "64 word list"
  shows "i < length xs \<Longrightarrow> sum_list (xs[i := xs ! i + 1]) = sum_list xs + 1"
  by (induction xs arbitrary: i) (auto split: nat.splits)

lemma hist_add_total:
  assumes "length (lw_hist w) = nat (HBUCKETS + 1)"
  shows "\<exists>hs. hist_add us w = Some (w\<lparr>lw_hist := hs\<rparr>) \<and> length hs = nat (HBUCKETS + 1) \<and>
     sum_list hs = sum_list (lw_hist w) + 1"
proof -
  define b where "b = (let b = us sdiv HUS_PER; b = (if b < 0 then 0 else b)
    in if HBUCKETS < b then HBUCKETS else b)"
  have "nat b < length (lw_hist w)"
    using assms by (auto simp: b_def Let_def HBUCKETS_def nat_less_iff)
  with assms show ?thesis
    by (intro exI [of _ "(lw_hist w)[nat b := lw_hist w ! nat b + 1]"])
      (simp add: hist_add_def Let_def b_def sum_list_bump)
qed

lemma conn_done_ok:
  assumes inv: "lg_inv st" and c: "t_heap st a = Some c" and ex: "exchanged (c_fd c) (c_sampled c) (t_log st)"
  shows "stage_ok a c st (do { st \<leftarrow> conn_done env a st; st \<leftarrow> free_conn a st; Some (Some 1, st) })"
proof -
  define us where "us = fst (us_since env (c_t0 c) st)"
  define t where "t = g_clock env (t_log st)"
  have us: "us_since env (c_t0 c) st = (us, lcall (L_clock t) st)"
    by (simp add: us_def t_def us_since_def Let_def)
  note cnt = lg_inv_counted [OF inv]
  from cnt obtain hs where hs: "hist_add us (t_w st) = Some (t_w st\<lparr>lw_hist := hs\<rparr>)"
      "length hs = nat (HBUCKETS + 1)" "sum_list hs = lw_completed (t_w st) + 1"
    using hist_add_total [of "t_w st" us] by (auto simp: counted_def)
  let ?w = "t_w st\<lparr>lw_hist := hs, lw_completed := lw_completed (t_w st) + 1\<rparr>"
  let ?st = "lcall (L_clock t) st"
  let ?st' = "?st\<lparr>t_w := ?w, t_heap := (t_heap ?st)(a := None),
      t_log := L_free a # L_close (c_fd c) # L_epoll_ctl EPOLL_CTL_DEL (c_fd c) 0 None # t_log ?st\<rparr>"
  have "lg_inv ?st'"
    by (rule lg_inv_remove) (use inv c cnt hs in \<open>simp_all add: counted_def failures_def\<close>)
  moreover have "do { st \<leftarrow> conn_done env a st; st \<leftarrow> free_conn a st; Some (Some 1, st) } = Some (Some 1, ?st')"
    using c hs us by (simp add: conn_done_def free_conn_def conn_shut_def lcall_def)
  moreover have "exchanged (c_fd c) (c_sampled c) (t_log ?st')"
    using ex by (simp add: exchanged_def)
  ultimately show ?thesis
    unfolding stage_ok_def resolved_def by (intro disjI1 exI [of _ ?st']) simp
qed

lemma lg_inv_counters:
  assumes "lg_inv st" and "lw_offered w = lw_offered (t_w st)" and "lw_completed w = lw_completed (t_w st)"
    and "lw_failed w = lw_failed (t_w st)" and "lw_hist w = lw_hist (t_w st)"
  shows "lg_inv (st\<lparr>t_w := w\<rparr>)"
  using assms by (simp add: lg_inv_def counted_def failures_def)

lemma count_sample_simps [simp]:
  "lw_offered (count_sample c w) = lw_offered w" "lw_completed (count_sample c w) = lw_completed w"
  "lw_failed (count_sample c w) = lw_failed w" "lw_hist (count_sample c w) = lw_hist w"
  by (simp_all add: count_sample_def Let_def)

lemma validate_ok:
  assumes inv: "lg_inv st" and c: "t_heap st a = Some c" and "c_got c = REPLY_LEN" and "c_state c = 2"
  shows "stage_ok a c st (validate env a c st)"
proof -
  have ok: "conn_ok (t_log st) a c"
    by (rule lg_inv_conn [OF inv c])
  have heard: "heard (t_log st) (c_fd c) = take 19 (c_rbuf c)" "wrote (t_log st) (c_fd c) = REQUEST"
      "length (c_rbuf c) = 64"
    using ok assms(3,4) by (simp_all add: conn_ok_def REPLY_LEN_def REQ_LEN_def SIZEOF_RBUF_def)
  let ?st = "st\<lparr>t_w := count_sample c (t_w st)\<rparr>"
  have inv': "lg_inv ?st"
    using inv by (rule lg_inv_counters) simp_all
  have stage: "stage_ok a c st s" if "stage_ok a c ?st s" for s
    using that by (simp add: stage_ok_def progress_def resolved_def)
  have "exchanged (c_fd c) (c_sampled c) (t_log ?st)" if "\<not> reply_bad c"
  proof (cases "c_sampled c")
    case True
    with that heard show ?thesis
      by (simp add: exchanged_def reply_bad_def REPLY_LEN_def) (simp add: REPLY_def)
  next
    case False
    have "c_rbuf c \<noteq> []"
      using heard(3) by auto
    then have "hd (take 19 (c_rbuf c)) = c_rbuf c ! 0" "last (take 19 (c_rbuf c)) = c_rbuf c ! 18"
      using heard(3) hd_conv_nth [of "take 19 (c_rbuf c)"] last_conv_nth [of "take 19 (c_rbuf c)"] by simp_all
    with False that heard show ?thesis
      by (simp add: exchanged_def reply_bad_def REPLY_LEN_def)
  qed
  then show ?thesis
    using c stage resolve_fail_ok [OF inv'] conn_done_ok [OF inv'] by (auto simp: validate_def Let_def)
qed

subsection \<open>The stages\<close>

lemma lg_inv_upd:
  assumes "lg_inv st" and "t_heap st a = Some c" and "conn_ok (t_log st) a c'" and "c_fd c' = c_fd c"
  shows "lg_inv (upd_conn a c' st)"
proof -
  have "dom (t_heap (upd_conn a c' st)) = dom (t_heap st)"
    using assms(2) by auto
  moreover have "\<exists>d. t_heap (upd_conn a c' st) b = Some d \<and> c_fd d = fd" if "watched (t_log st) fd = Some b" for fd b
    using that assms unfolding lg_inv_def by (cases "b = a") force+
  ultimately show ?thesis
    using assms(1,3) unfolding lg_inv_def by simp
qed

text \<open>A call on the connection's own descriptor leaves the other connections alone.\<close>

definition local_call :: "int \<Rightarrow> lcall \<Rightarrow> lhistory \<Rightarrow> bool" where
  "local_call fd k h \<longleftrightarrow> watched (k # h) = watched h \<and> lg_open (k # h) = lg_open h \<and>
     lg_live (k # h) = lg_live h \<and> refused (k # h) = refused h \<and>
     (\<forall>x. x \<noteq> fd \<longrightarrow> wrote (k # h) x = wrote h x \<and> heard (k # h) x = heard h x)"

lemma local_call_simps [simp]:
  "local_call fd (L_write fd b n) h" "local_call fd (L_read fd l b n) h"
  "watched h fd = p \<Longrightarrow> oper \<noteq> EPOLL_CTL_DEL \<Longrightarrow> local_call fd (L_epoll_ctl oper fd ev p) h"
  by (auto simp: local_call_def)

lemma lg_inv_step:
  assumes inv: "lg_inv st" and c: "t_heap st a = Some c" and ok: "conn_ok (k # t_log st) a c'"
    and fd: "c_fd c' = c_fd c" and loc: "local_call (c_fd c) k (t_log st)"
  shows "lg_inv (upd_conn a c' (lcall k st))"
proof -
  have others: "conn_ok (k # t_log st) b d" if "t_heap st b = Some d" "b \<noteq> a" for b d
  proof -
    have "c_fd d \<noteq> c_fd c"
      by (rule lg_inv_fd_unique [OF inv that(1) c that(2)])
    with lg_inv_conn [OF inv that(1)] loc show ?thesis
      by (simp add: conn_ok_def local_call_def)
  qed
  have "dom (t_heap (upd_conn a c' (lcall k st))) = dom (t_heap st)"
    using c by auto
  moreover have "\<exists>d. t_heap (upd_conn a c' (lcall k st)) b = Some d \<and> c_fd d = x"
    if "watched (t_log st) x = Some b" for x b
    using that inv c fd unfolding lg_inv_def by (cases "b = a") force+
  ultimately show ?thesis
    using inv ok loc others unfolding lg_inv_def local_call_def by simp
qed

lemma progress_upd:
  assumes "lg_inv (upd_conn a c' st1)" and "t_heap st1 = t_heap st" and "t_w st1 = t_w st"
    and "t_inflight st1 = t_inflight st" and "t_next_start st1 = t_next_start st"
    and "length (t_log st) \<le> length (t_log st1)"
    and "c_fd c' = c_fd c" and "c_sampled c' = c_sampled c"
  shows "progress a c st (upd_conn a c' st1)"
  using assms by (auto simp: progress_def)

lemma progress_neutral:
  assumes "lg_inv st" and "t_heap st a = Some c" and "neutral k"
  shows "progress a c st (lcall k st)"
  using assms by (auto simp: progress_def intro!: exI [of _ c])

lemma resolve_later:
  assumes "lg_inv st" and "t_heap st a = Some c" and "progress a c st st1" and "t_heap st1 a = Some c1"
  shows "stage_ok a c st (resolve_fail r a st1)"
  by (rule progress_stage [OF assms(3,4) resolve_fail_ok]) (use assms in \<open>auto simp: progress_def\<close>)

lemma handle_error_ok:
  assumes "lg_inv st" and "t_heap st a = Some c"
  shows "stage_ok a c st (handle_error env a st)"
  using assms resolve_later [OF assms progress_neutral [OF assms]] by (simp add: handle_error_def Let_def)

lemma handle_connecting_ok:
  assumes inv: "lg_inv st" and c: "t_heap st a = Some c"
  shows "stage_ok a c st (handle_connecting env a st)"
proof (cases "c_state c = 0")
  case True
  define err where "err = g_so_error env (t_log st)"
  let ?st = "lcall (L_so_error (c_fd c) err) st"
  have "conn_ok (t_log ?st) a (c\<lparr>c_state := 1\<rparr>)"
    using lg_inv_conn [OF assms] True by (simp add: conn_ok_def)
  then have "lg_inv (upd_conn a (c\<lparr>c_state := 1\<rparr>) ?st)"
    using assms by (intro lg_inv_upd [where c = c]) simp_all
  then have "progress a c st (upd_conn a (c\<lparr>c_state := 1\<rparr>) ?st)"
    by (rule progress_upd) simp_all
  moreover have "stage_ok a c st (resolve_fail F_CONNECT a ?st)"
    by (rule resolve_later [OF assms progress_neutral [OF assms]]) (simp_all add: c)
  ultimately show ?thesis
    using True c by (auto simp: handle_connecting_def Let_def err_def [symmetric] stage_ok_def)
next
  case False
  with assms show ?thesis
    by (auto simp: handle_connecting_def stage_ok_def progress_def intro!: exI [of _ c])
qed

lemma lcall_upd_conn: "lcall k (upd_conn a c st) = upd_conn a c (lcall k st)"
  by (simp add: upd_conn_def lcall_def)

lemma write_step:
  assumes inv: "lg_inv st" and c: "t_heap st a = Some c" and "c_state c = 1" and "c_sent c < REQ_LEN"
    and buf: "buf = take (nat (REQ_LEN - c_sent c)) (drop (nat (c_sent c)) REQUEST)"
    and "0 < n" and "n \<le> int (length buf)"
  shows "lg_inv (upd_conn a (c\<lparr>c_sent := c_sent c + n\<rparr>) (lcall (L_write (c_fd c) buf n) st))"
proof (rule lg_inv_step [OF inv c])
  have ok: "conn_ok (t_log st) a c"
    by (rule lg_inv_conn [OF inv c])
  have len: "length buf = nat (REQ_LEN - c_sent c)"
    using ok assms(4) by (simp add: buf conn_ok_def REQ_LEN_def nat_diff_distrib)
  have "take (nat (c_sent c)) REQUEST @ take (nat n) buf = take (nat (c_sent c + n)) REQUEST"
    using ok assms(4,6,7) len by (simp add: buf conn_ok_def nat_add_distrib take_add min_def)
  then show "conn_ok (L_write (c_fd c) buf n # t_log st) a (c\<lparr>c_sent := c_sent c + n\<rparr>)"
    using ok assms(3,4,6,7) len by (simp add: conn_ok_def)
qed simp_all

text \<open>Asking epoll about the connection's own descriptor again.\<close>

lemma progress_rearm:
  assumes inv: "lg_inv st" and c: "t_heap st a = Some c" and ok: "conn_ok (t_log st) a c'"
    and "c_fd c' = c_fd c" and "c_sampled c' = c_sampled c"
  shows "progress a c st (upd_conn a c' (lcall (L_epoll_ctl EPOLL_CTL_MOD (c_fd c) ev (Some a)) st))"
proof -
  have "lg_inv (upd_conn a c' (lcall (L_epoll_ctl EPOLL_CTL_MOD (c_fd c) ev (Some a)) st))"
    by (rule lg_inv_step [OF inv c]) (use assms(3-) in \<open>auto simp: conn_ok_def\<close>)
  then show ?thesis
    by (rule progress_upd) (use assms(4,5) in simp_all)
qed

lemma upd_conn_same: "t_heap st a = Some c \<Longrightarrow> upd_conn a c st = st"
  by (simp add: upd_conn_def fun_upd_idem)

lemma write_finished:
  assumes "lg_inv st" and "t_heap st a = Some c" and "c_state c = 1" and "\<not> c_sent c < REQ_LEN"
  shows "stage_ok a c st (write_loop env a st)"
proof -
  have "conn_ok (t_log st) a (c\<lparr>c_state := 2\<rparr>)"
    using lg_inv_conn [OF assms(1,2)] assms(3,4) by (simp add: conn_ok_def)
  from progress_rearm [OF assms(1,2) this, of EPOLLIN] assms(2,4) show ?thesis
    by (simp add: write_loop.simps [of env a st] stage_ok_def lcall_upd_conn)
qed

lemma write_loop_step:
  assumes "t_heap st a = Some c" and "c_sent c < REQ_LEN"
    and "buf = take (nat (REQ_LEN - c_sent c)) (drop (nat (c_sent c)) REQUEST)"
    and "n = g_write env (t_log st) buf" and "st1 = lcall (L_write (c_fd c) buf n) st"
  shows "write_loop env a st = (if 0 < n then write_loop env a (upd_conn a (c\<lparr>c_sent := c_sent c + n\<rparr>) st1)
     else if n < 0 \<and> g_errno env (t_log st1) = EAGAIN then
       Some (Some 0, lcall (L_epoll_ctl EPOLL_CTL_MOD (c_fd c) EPOLLOUT (Some a)) st1)
     else resolve_fail (if g_errno env (t_log st1) = ECONNRESET then F_RESET else F_OTHER) a st1)"
  using assms by (simp add: write_loop.simps [of env a st] Let_def)

lemma write_loop_ok:
  assumes "lg_contract env" and "lg_inv st" and "t_heap st a = Some c" and "c_state c = 1"
  shows "stage_ok a c st (write_loop env a st)"
  using assms(2-4)
proof (induction "nat (REQ_LEN - c_sent c)" arbitrary: c st rule: less_induct)
  case less
  note inv = less.prems(1) and c = less.prems(2)
  show ?case
  proof (cases "c_sent c < REQ_LEN")
    case True
    define buf where "buf = take (nat (REQ_LEN - c_sent c)) (drop (nat (c_sent c)) REQUEST)"
    define n where "n = g_write env (t_log st) buf"
    define st1 where "st1 = lcall (L_write (c_fd c) buf n) st"
    note step = write_loop_step [OF c True buf_def n_def st1_def]
    show ?thesis
    proof (cases "0 < n")
      case pos: True
      let ?c = "c\<lparr>c_sent := c_sent c + n\<rparr>"
      have "n \<le> int (length buf)"
        unfolding n_def by (rule lg_contractD(6) [OF assms(1)])
      then have inv': "lg_inv (upd_conn a ?c st1)"
        unfolding st1_def by (rule write_step [OF inv c less.prems(3) True buf_def pos])
      then have "progress a c st (upd_conn a ?c st1)"
        by (rule progress_upd) (simp_all add: st1_def)
      moreover have "stage_ok a ?c (upd_conn a ?c st1) (write_loop env a (upd_conn a ?c st1))"
        by (rule less.hyps) (use inv' pos True less.prems(3) in simp_all)
      ultimately show ?thesis
        using pos progress_stage [of a c st "upd_conn a ?c st1" ?c] by (simp add: step)
    next
      case False
      have p1: "progress a c st st1" and c1: "t_heap st1 a = Some c" "lg_inv st1"
        using progress_neutral [OF inv c, of "L_write (c_fd c) buf n"] False c by (simp_all add: st1_def progress_def)
      have "progress a c st (lcall (L_epoll_ctl EPOLL_CTL_MOD (c_fd c) EPOLLOUT (Some a)) st1)"
        using progress_trans [OF p1 c1(1) progress_rearm [OF c1(2,1) lg_inv_conn [OF c1(2,1)] refl refl]]
        by (simp add: upd_conn_same c1(1))
      with False resolve_later [OF inv c p1 c1(1)] show ?thesis
        by (auto simp: step stage_ok_def)
    qed
  qed (rule write_finished [OF less.prems])
qed

lemma handle_writing_ok:
  assumes "lg_contract env" and "lg_inv st" and "t_heap st a = Some c"
  shows "stage_ok a c st (handle_writing env a st)"
proof (cases "c_state c = 1")
  case True
  with assms write_loop_ok [OF assms] show ?thesis
    by (simp add: handle_writing_def)
next
  case False
  with assms show ?thesis
    by (auto simp: handle_writing_def stage_ok_def progress_def intro!: exI [of _ c])
qed

lemma take_store_at:
  "i \<le> length b \<Longrightarrow> take (i + length bs) (store_at i bs b) = take i b @ bs"
  "i \<le> length b \<Longrightarrow> take i (store_at i bs b) = take i b"
  by (simp_all add: store_at_def)

lemma length_store_at: "i + length bs \<le> length b \<Longrightarrow> length (store_at i bs b) = length b"
  by (simp add: store_at_def)

lemma store_at_Nil [simp]: "store_at i [] b = b"
  by (simp add: store_at_def)

lemma read_step:
  assumes inv: "lg_inv st" and c: "t_heap st a = Some c" and "c_state c = 2"
    and len: "length bs \<le> nat (REPLY_LEN - c_got c)" "c_got c < REPLY_LEN"
  shows "lg_inv (upd_conn a (c\<lparr>c_rbuf := store_at (nat (c_got c)) bs (c_rbuf c), c_got := c_got c + int (length bs)\<rparr>)
     (lcall (L_read (c_fd c) l bs n) st))"
proof (rule lg_inv_step [OF inv c])
  have ok: "conn_ok (t_log st) a c"
    by (rule lg_inv_conn [OF inv c])
  have "0 \<le> c_got c" "length (c_rbuf c) = 64"
    using ok by (simp_all add: conn_ok_def SIZEOF_RBUF_def)
  then have room: "nat (c_got c) + length bs \<le> length (c_rbuf c)"
    using len unfolding REPLY_LEN_def by linarith
  have got: "nat (c_got c + int (length bs)) = nat (c_got c) + length bs"
    using ok by (simp add: conn_ok_def nat_add_distrib)
  show "conn_ok (L_read (c_fd c) l bs n # t_log st) a
      (c\<lparr>c_rbuf := store_at (nat (c_got c)) bs (c_rbuf c), c_got := c_got c + int (length bs)\<rparr>)"
    using ok assms(3) len room by (simp add: conn_ok_def got take_store_at length_store_at)
qed simp_all

lemma read_loop_more:
  assumes "t_heap st a = Some c" and "c_got c < REPLY_LEN"
    and "g_read env (t_log st) (nat (REPLY_LEN - c_got c)) = (bs, n)" and "0 < n"
    and "\<not> length (c_rbuf c) < nat (c_got c) + length bs"
  shows "read_loop env a st =
     read_loop env a (upd_conn a (c\<lparr>c_rbuf := store_at (nat (c_got c)) bs (c_rbuf c), c_got := c_got c + n\<rparr>)
       (lcall (L_read (c_fd c) (nat (REPLY_LEN - c_got c)) bs n) st))"
  using assms by (simp add: read_loop.simps [of env a st] Let_def)

lemma read_loop_stop:
  assumes "t_heap st a = Some c" and "c_got c < REPLY_LEN"
    and "g_read env (t_log st) (nat (REPLY_LEN - c_got c)) = ([], n)" and "n \<le> 0"
    and "\<not> length (c_rbuf c) < nat (c_got c)"
    and st1: "st1 = lcall (L_read (c_fd c) (nat (REPLY_LEN - c_got c)) [] n) st"
  shows "read_loop env a st =
     (if n = 0 then resolve_fail F_TRUNC a st1
      else if g_errno env (t_log st1) = EAGAIN then Some (Some 0, st1)
      else resolve_fail (if g_errno env (t_log st1) = ECONNRESET then F_RESET else F_OTHER) a st1)"
  unfolding st1 using assms(1-5) by (simp add: read_loop.simps [of env a st] Let_def upd_conn_same)

lemma read_nothing_ok:
  assumes inv: "lg_inv st" and c: "t_heap st a = Some c" and more: "c_got c < REPLY_LEN"
    and rd: "g_read env (t_log st) (nat (REPLY_LEN - c_got c)) = ([], n)" and n: "n \<le> 0"
  shows "stage_ok a c st (read_loop env a st)"
proof -
  define st1 where "st1 = lcall (L_read (c_fd c) (nat (REPLY_LEN - c_got c)) [] n) st"
  have p1: "progress a c st st1" "t_heap st1 a = Some c"
    unfolding st1_def using progress_neutral [OF inv c] n c by simp_all
  have "length (c_rbuf c) = 64"
    using lg_inv_conn [OF inv c] by (simp add: conn_ok_def SIZEOF_RBUF_def)
  then have room: "\<not> length (c_rbuf c) < nat (c_got c)"
    using more unfolding REPLY_LEN_def by linarith
  from resolve_later [OF inv c p1] p1 show ?thesis
    using read_loop_stop [OF c more rd n room st1_def] by (auto simp: stage_ok_def)
qed

lemma read_loop_ok:
  assumes "lg_contract env" and "lg_inv st" and "t_heap st a = Some c" and "c_state c = 2"
  shows "stage_ok a c st (read_loop env a st)"
  using assms(2-4)
proof (induction "nat (REPLY_LEN - c_got c)" arbitrary: c st rule: less_induct)
  case less
  note inv = less.prems(1) and c = less.prems(2)
  have ok: "conn_ok (t_log st) a c"
    by (rule lg_inv_conn [OF inv c])
  show ?case
  proof (cases "c_got c < REPLY_LEN")
    case False
    with ok have "c_got c = REPLY_LEN"
      by (simp add: conn_ok_def)
    with validate_ok [OF inv c] less.prems(3) False c show ?thesis
      by (simp add: read_loop.simps [of env a st])
  next
    case True
    obtain bs n where rd: "g_read env (t_log st) (nat (REPLY_LEN - c_got c)) = (bs, n)"
      by (cases "g_read env (t_log st) (nat (REPLY_LEN - c_got c))")
    note k = lg_contractD(7) [OF assms(1) rd]
    have size: "0 \<le> c_got c" "length (c_rbuf c) = 64"
      using ok by (simp_all add: conn_ok_def SIZEOF_RBUF_def)
    show ?thesis
    proof (cases "0 < n")
      case pos: True
      then have n: "n = int (length bs)" "length bs \<le> nat (REPLY_LEN - c_got c)"
        using k by auto
      have room: "\<not> length (c_rbuf c) < nat (c_got c) + length bs"
        using size n True unfolding REPLY_LEN_def by linarith
      let ?c = "c\<lparr>c_rbuf := store_at (nat (c_got c)) bs (c_rbuf c), c_got := c_got c + int (length bs)\<rparr>"
      let ?st = "upd_conn a ?c (lcall (L_read (c_fd c) (nat (REPLY_LEN - c_got c)) bs n) st)"
      have inv': "lg_inv ?st"
        by (rule read_step [OF inv c less.prems(3) n(2) True])
      then have "progress a c st ?st"
        by (rule progress_upd) simp_all
      moreover have "stage_ok a ?c ?st (read_loop env a ?st)"
        by (rule less.hyps) (use inv' pos n True less.prems(3) in simp_all)
      ultimately show ?thesis
        using progress_stage [of a c st ?st ?c] read_loop_more [OF c True rd pos room] n(1) by simp
    next
      case False
      with k rd show ?thesis
        by (intro read_nothing_ok [OF inv c True, of env n]) auto
    qed
  qed
qed

lemma handle_reading_ok:
  assumes "lg_contract env" and "lg_inv st" and "t_heap st a = Some c"
  shows "stage_ok a c st (handle_reading env a st)"
proof (cases "c_state c = 2")
  case True
  with assms read_loop_ok [OF assms] show ?thesis
    by (simp add: handle_reading_def)
next
  case False
  with assms show ?thesis
    by (auto simp: handle_reading_def stage_ok_def progress_def intro!: exI [of _ c])
qed

lemma handle_ok:
  assumes env: "lg_contract env" and "lg_inv st" and "t_heap st a = Some c"
  shows "stage_ok a c st (handle env a ev st)"
proof -
  have inv: "lg_inv st1" if "progress a c' st' st1" for c' st' st1
    using that by (simp add: progress_def)
  show ?thesis
    using assms unfolding handle_def
    by (auto intro!: handle_error_ok and_then_ok handle_connecting_ok handle_writing_ok
        handle_reading_ok [OF env] dest: inv)
qed

end
