(* ===== verification/Loadgen_Loop.thy ===== *)
theory Loadgen_Loop
  imports Loadgen_Inv
begin

text \<open>
  The load generator's thread keeps its invariant and returns: starting connections, a batch of
  events (the interface \<open>completion_handler\<close>), the loop (the interface \<open>event_loop\<close>).
\<close>

subsection \<open>Starting a connection\<close>

definition fresh_fd :: "int \<Rightarrow> lhistory \<Rightarrow> bool" where
  "fresh_fd fd h \<longleftrightarrow> fd \<in> lg_open h \<and> watched h fd = None \<and> wrote h fd = [] \<and> heard h fd = []"

lemma fresh_fd_neutral [simp]: "neutral k \<Longrightarrow> fresh_fd fd (k # h) = fresh_fd fd h"
  by (simp add: fresh_fd_def neutral_readings)

lemma lg_inv_socket:
  assumes inv: "lg_inv st" and fd: "fd \<notin> lg_open (t_log st)" "0 \<le> fd"
  shows "lg_inv (lcall (L_socket fd) st)" and "fresh_fd fd (L_socket fd # t_log st)"
proof -
  have other: "c_fd c \<noteq> fd" "c_fd c \<in> lg_open (t_log st)" if "t_heap st a = Some c" for a c
    using lg_inv_conn [OF inv that] fd(1) by (auto simp: conn_ok_def)
  have "conn_ok (L_socket fd # t_log st) a c" if "t_heap st a = Some c" for a c
    using lg_inv_conn [OF inv that] fd(2) other [OF that] by (auto simp: conn_ok_def)
  then show "lg_inv (lcall (L_socket fd) st)"
    using inv fd(2) by (simp add: lg_inv_def)
  have "watched (t_log st) fd \<noteq> Some a" for a
    using inv other unfolding lg_inv_def by blast
  then have "watched (t_log st) fd = None"
    by (metis not_None_eq)
  then show "fresh_fd fd (L_socket fd # t_log st)"
    using fd(2) by (simp add: fresh_fd_def)
qed

lemma lg_inv_no_socket:
  assumes "lg_inv st" and "fd < 0"
  shows "lg_inv ((lcall (L_socket fd) st)\<lparr>t_w := count_fail F_OTHER 1 (t_w st)\<rparr>)"
proof -
  have "conn_ok (L_socket fd # t_log st) a c" if "t_heap st a = Some c" for a c
    using lg_inv_conn [OF assms(1) that] assms(2) by (auto simp: conn_ok_def)
  with assms show ?thesis
    by (simp add: lg_inv_def counted_def algebra_simps)
qed

lemma bind_source_ok:
  assumes "lg_inv st" and "fresh_fd fd (t_log st)"
  shows "lg_inv (bind_source env g_src fd st)" "fresh_fd fd (t_log (bind_source env g_src fd st))"
    "t_heap (bind_source env g_src fd st) = t_heap st" "t_inflight (bind_source env g_src fd st) = t_inflight st"
    "t_next_start (bind_source env g_src fd st) = t_next_start st" "t_w (bind_source env g_src fd st) = t_w st"
    "length (t_log st) \<le> length (t_log (bind_source env g_src fd st))"
  using assms by (simp_all add: bind_source_def Let_def)

text \<open>Descriptors of objects differ from one that is fresh.\<close>

lemma fresh_fd_other:
  assumes "lg_inv st" and "fresh_fd fd (t_log st)" and "t_heap st a = Some c"
  shows "c_fd c \<noteq> fd"
  using lg_inv_conn [OF assms(1,3)] assms(2) by (auto simp: conn_ok_def fresh_fd_def)

lemma lg_inv_refused:
  assumes inv: "lg_inv st" and fd: "fresh_fd fd (t_log st)" and a: "a \<notin> dom (t_heap st)"
    and err: "err \<noteq> 0" "err \<noteq> EINPROGRESS"
    and "t_w st' = count_fail F_CONNECT 1 (t_w st)" and "t_heap st' = t_heap st"
    and "t_log st' = L_free a # L_close fd # L_connect fd err # L_clock t # L_calloc (Some a) # t_log st"
  shows "lg_inv st'"
proof -
  let ?h = "L_free a # L_close fd # L_connect fd err # L_clock t # L_calloc (Some a) # t_log st"
  have "conn_ok ?h b c" if "t_heap st b = Some c" for b c
    using lg_inv_conn [OF inv that] fresh_fd_other [OF inv fd that] by (simp add: conn_ok_def)
  moreover have "watched ?h = watched (t_log st)"
    using fd by (auto simp: fresh_fd_def)
  ultimately show ?thesis
    using inv a err assms(6-) by (simp add: lg_inv_def counted_def algebra_simps)
qed

lemma lg_inv_admit:
  assumes inv: "lg_inv st" and fd: "fresh_fd fd (t_log st)" "0 \<le> fd" and a: "a \<notin> dom (t_heap st)"
    and err: "err = 0 \<or> err = EINPROGRESS" and c: "c_fd c = fd" "c_state c = 0" "c_got c = 0" "c_sent c = 0"
      "length (c_rbuf c) = SIZEOF_RBUF"
    and w: "t_w st' = (t_w st)\<lparr>lw_offered := lw_offered (t_w st) + 1\<rparr>"
    and st': "t_heap st' = (t_heap st)(a \<mapsto> c)"
      "t_log st' = L_epoll_ctl EPOLL_CTL_ADD fd EPOLLOUT (Some a) # L_connect fd err # L_clock t #
       L_calloc (Some a) # t_log st"
  shows "lg_inv st'"
proof -
  let ?h = "L_epoll_ctl EPOLL_CTL_ADD fd EPOLLOUT (Some a) # L_connect fd err # L_clock t #
    L_calloc (Some a) # t_log st"
  have fin: "finite (dom (t_heap st))"
    using inv by (simp add: lg_inv_def)
  have "conn_ok ?h b d" if "t_heap st b = Some d" for b d
    using lg_inv_conn [OF inv that] fresh_fd_other [OF inv fd(1) that] by (simp add: conn_ok_def)
  moreover have "conn_ok ?h a c"
    using c fd by (simp add: conn_ok_def fresh_fd_def REQ_LEN_def REPLY_LEN_def)
  moreover have "\<exists>d. ((t_heap st)(a \<mapsto> c)) b = Some d \<and> c_fd d = x" if "watched ?h x = Some b" for x b
    using that inv a c(1) unfolding lg_inv_def by (auto split: if_splits) blast
  moreover have "counted (t_w st') (refused ?h) (card (dom ((t_heap st)(a \<mapsto> c))))"
    using lg_inv_counted [OF inv] err w fin a by (auto simp: counted_def failures_def algebra_simps)
  ultimately show ?thesis
    using inv fin st' by (simp add: lg_inv_def)
qed

definition started :: "lg_thread \<Rightarrow> int \<Rightarrow> lg_thread \<Rightarrow> bool" where
  "started st r st' \<longleftrightarrow> lg_inv st' \<and> length (t_log st) \<le> length (t_log st') \<and> t_inflight st' = t_inflight st \<and> t_next_start st' = t_next_start st \<and>
     (r = -1 \<and> t_heap st' = t_heap st \<or> r = 0 \<and> card (dom (t_heap st')) = Suc (card (dom (t_heap st))))"

text \<open>
  A start from the moment its socket exists: the connection is allocated and connected, and the
  thread state before the answer to \<open>connect\<close> is looked at is \<open>connecting\<close>.
\<close>

definition connecting :: "int \<Rightarrow> addr \<Rightarrow> conn_t \<Rightarrow> int \<Rightarrow> lg_thread \<Rightarrow> lg_thread" where
  "connecting fd a c err st =
     lcall (L_connect fd err) ((lcall (L_clock (c_t0 c)) (lcall (L_calloc (Some a)) st))\<lparr>t_heap := (t_heap st)(a \<mapsto> c)\<rparr>)"

definition fresh_conn :: "int \<Rightarrow> conn_t \<Rightarrow> bool" where
  "fresh_conn fd c \<longleftrightarrow> c_fd c = fd \<and> c_state c = 0 \<and> c_got c = 0 \<and> c_sent c = 0 \<and> length (c_rbuf c) = SIZEOF_RBUF"

lemma conn_start_connecting:
  assumes "g_socket env (t_log st) = fd" "0 \<le> fd"
    and "bind_source env g_src fd (lcall (L_socket fd) st) = st1" "g_calloc env (t_log st1) = Some a"
  obtains c err where "fresh_conn fd c"
    and "conn_start env g_src st =
       (if err \<noteq> 0 \<and> err \<noteq> EINPROGRESS then do {
          st \<leftarrow> free_conn a (lcall (L_close fd) (connecting fd a c err st1));
          Some (-1, st\<lparr>t_w := count_fail F_CONNECT 1 (t_w st)\<rparr>)
        }
        else let st = lcall (L_epoll_ctl EPOLL_CTL_ADD fd EPOLLOUT (Some a)) (connecting fd a c err st1)
          in Some (0, st\<lparr>t_w := (t_w st)\<lparr>lw_offered := lw_offered (t_w st) + 1\<rparr>\<rparr>))"
proof (rule that)
  let ?c = "\<lparr>c_fd = fd, c_state = 0, c_got = 0, c_sent = 0,
     c_sampled = (0 < lw_sample_pct (t_w st1) \<and> lw_offered (t_w st1) mod 100 < of_int (lw_sample_pct (t_w st1))),
     c_rbuf = replicate SIZEOF_RBUF (CHR 0x00), c_t0 = g_clock env (L_calloc (Some a) # t_log st1)\<rparr>"
  let ?err = "g_connect env (L_clock (c_t0 ?c) # L_calloc (Some a) # t_log st1)"
  show "fresh_conn fd ?c"
    by (simp add: fresh_conn_def)
  show "conn_start env g_src st =
     (if ?err \<noteq> 0 \<and> ?err \<noteq> EINPROGRESS then do {
        st \<leftarrow> free_conn a (lcall (L_close fd) (connecting fd a ?c ?err st1));
        Some (-1, st\<lparr>t_w := count_fail F_CONNECT 1 (t_w st)\<rparr>)
      }
      else let st = lcall (L_epoll_ctl EPOLL_CTL_ADD fd EPOLLOUT (Some a)) (connecting fd a ?c ?err st1)
        in Some (0, st\<lparr>t_w := (t_w st)\<lparr>lw_offered := lw_offered (t_w st) + 1\<rparr>\<rparr>))"
    using assms by (simp add: conn_start_def connecting_def Let_def)
qed

lemma connecting_refused:
  assumes "lg_inv st" "fresh_fd fd (t_log st)" "a \<notin> dom (t_heap st)" "err \<noteq> 0" "err \<noteq> EINPROGRESS"
  shows "\<exists>st'. free_conn a (lcall (L_close fd) (connecting fd a c err st)) = Some st' \<and>
     started st (-1) (st'\<lparr>t_w := count_fail F_CONNECT 1 (t_w st')\<rparr>)"
proof -
  let ?st' = "lcall (L_free a) ((lcall (L_close fd) (connecting fd a c err st))\<lparr>t_heap := t_heap st\<rparr>)"
  have "free_conn a (lcall (L_close fd) (connecting fd a c err st)) = Some ?st'"
    using assms(3) by (simp add: connecting_def free_conn_def lcall_def fun_upd_idem domIff)
  moreover have "lg_inv (?st'\<lparr>t_w := count_fail F_CONNECT 1 (t_w ?st')\<rparr>)"
    by (rule lg_inv_refused [OF assms, of _ "c_t0 c"]) (simp_all add: connecting_def)
  ultimately show ?thesis
    by (auto simp: started_def connecting_def)
qed

lemma connecting_admitted:
  assumes "lg_inv st" "fresh_fd fd (t_log st)" "0 \<le> fd" "a \<notin> dom (t_heap st)" "err = 0 \<or> err = EINPROGRESS" "fresh_conn fd c"
    and st': "st' = lcall (L_epoll_ctl EPOLL_CTL_ADD fd EPOLLOUT (Some a)) (connecting fd a c err st)"
  shows "started st 0 (st'\<lparr>t_w := (t_w st')\<lparr>lw_offered := lw_offered (t_w st') + 1\<rparr>\<rparr>)"
proof -
  have "lg_inv (st'\<lparr>t_w := (t_w st')\<lparr>lw_offered := lw_offered (t_w st') + 1\<rparr>\<rparr>)"
    by (rule lg_inv_admit [OF assms(1-5), of c _ "c_t0 c"])
      (use assms(6) in \<open>simp_all add: st' connecting_def fresh_conn_def\<close>)
  moreover have "card (insert a (dom (t_heap st))) = Suc (card (dom (t_heap st)))"
    using assms(1,4) by (simp add: lg_inv_def)
  ultimately show ?thesis
    by (auto simp: started_def st' connecting_def)
qed

lemma started_after:
  assumes "started st1 r st'" "t_heap st1 = t_heap st" "t_inflight st1 = t_inflight st"
    "t_next_start st1 = t_next_start st" "length (t_log st) \<le> length (t_log st1)"
  shows "started st r st'"
  using assms by (auto simp: started_def)

lemma conn_start_ok:
  assumes env: "lg_contract env" and inv: "lg_inv st"
  shows "\<exists>r st'. conn_start env g_src st = Some (r, st') \<and> started st r st'"
proof -
  define fd where "fd = g_socket env (t_log st)"
  show ?thesis
  proof (cases "fd < 0")
    case True
    with lg_inv_no_socket [OF inv True] show ?thesis
      by (auto simp: conn_start_def fd_def [symmetric] Let_def started_def)
  next
    case False
    define st1 where "st1 = bind_source env g_src fd (lcall (L_socket fd) st)"
    have "lg_inv (lcall (L_socket fd) st)" "fresh_fd fd (L_socket fd # t_log st)"
      using lg_inv_socket [OF inv, of fd] lg_contractD(1) [OF env, of "t_log st"] False by (simp_all add: fd_def)
    then have st1: "lg_inv st1" "fresh_fd fd (t_log st1)" and frame: "t_heap st1 = t_heap st"
        "t_inflight st1 = t_inflight st" "t_next_start st1 = t_next_start st" "length (t_log st) \<le> length (t_log st1)"
      using bind_source_ok [of "lcall (L_socket fd) st" fd env g_src] by (simp_all add: st1_def)
    obtain a where a: "g_calloc env (t_log st1) = Some a" "a \<notin> dom (t_heap st1)"
      using lg_contractD(2) [OF env, of "t_log st1"] st1(1) by (auto simp: lg_inv_def)
    obtain c err where c: "fresh_conn fd c" and step: "conn_start env g_src st =
       (if err \<noteq> 0 \<and> err \<noteq> EINPROGRESS then do {
          st \<leftarrow> free_conn a (lcall (L_close fd) (connecting fd a c err st1));
          Some (-1, st\<lparr>t_w := count_fail F_CONNECT 1 (t_w st)\<rparr>)
        }
        else let st = lcall (L_epoll_ctl EPOLL_CTL_ADD fd EPOLLOUT (Some a)) (connecting fd a c err st1)
          in Some (0, st\<lparr>t_w := (t_w st)\<lparr>lw_offered := lw_offered (t_w st) + 1\<rparr>\<rparr>))"
      by (rule conn_start_connecting [OF fd_def [symmetric] _ st1_def [symmetric] a(1)]) (use False in auto)
    have "\<exists>r st'. conn_start env g_src st = Some (r, st') \<and> started st1 r st'"
    proof (cases "err \<noteq> 0 \<and> err \<noteq> EINPROGRESS")
      case True
      with connecting_refused [OF st1 a(2), of err c] show ?thesis
        by (auto simp: step)
    next
      case ok: False
      show ?thesis
        unfolding step if_not_P [OF ok] Let_def
        by (intro exI conjI, rule refl, rule connecting_admitted [OF st1 _ a(2) _ c refl]) (use ok False in auto)
    qed
    then show ?thesis
      using started_after [OF _ frame] by blast
  qed
qed

subsection \<open>The start loops\<close>

declare start_closed.simps [simp del]

definition lg_ready :: "lg_thread \<Rightarrow> bool" where
  "lg_ready st \<longleftrightarrow> lg_inv st \<and> t_inflight st = int (card (dom (t_heap st)))"

text \<open>How often a socket was asked for: once per start.\<close>

definition starts :: "lhistory \<Rightarrow> nat" where
  "starts h = length (filter (\<lambda>k. case k of L_socket _ \<Rightarrow> True | _ \<Rightarrow> False) h)"

lemma starts_Cons [simp]:
  "starts (L_socket fd # h) = Suc (starts h)" "(\<And>fd. k \<noteq> L_socket fd) \<Longrightarrow> starts (k # h) = starts h"
  by (simp_all add: starts_def split: lcall.splits)

lemma bind_source_starts [simp]: "starts (t_log (bind_source env g_src fd st)) = starts (t_log st)"
  by (simp add: bind_source_def Let_def)

lemma free_conn_starts: "free_conn a st = Some st' \<Longrightarrow> starts (t_log st') = starts (t_log st)"
  by (auto simp: free_conn_def split: bind_splits)

lemma conn_start_starts:
  "conn_start env g_src st = Some (r, st') \<Longrightarrow> starts (t_log st') = Suc (starts (t_log st))"
  by (auto simp: conn_start_def Let_def dest!: free_conn_starts
      split: if_splits option.splits bind_splits)

lemma start_one_ok:
  assumes "lg_contract env" and "lg_ready st"
  shows "\<exists>ok st'. start_one env g_src st = Some (ok, st') \<and> lg_ready st' \<and> t_next_start st' = t_next_start st \<and>
     t_inflight st' = t_inflight st + (if ok then 1 else 0) \<and> length (t_log st) \<le> length (t_log st') \<and>
     starts (t_log st') = Suc (starts (t_log st))"
proof -
  from assms obtain r st1 where st1: "conn_start env g_src st = Some (r, st1)" "started st r st1"
    using conn_start_ok [of env st g_src] by (auto simp: lg_ready_def)
  then have frame: "lg_inv st1" "length (t_log st) \<le> length (t_log st1)" "t_inflight st1 = t_inflight st"
      "t_next_start st1 = t_next_start st" "starts (t_log st1) = Suc (starts (t_log st))"
    using conn_start_starts by (auto simp: started_def)
  from st1(2) consider "r = -1" "t_heap st1 = t_heap st"
    | "r = 0" "card (dom (t_heap st1)) = Suc (card (dom (t_heap st)))"
    by (auto simp: started_def)
  then show ?thesis
    using assms(2) st1(1) frame by cases (auto simp: start_one_def lg_ready_def)
qed

lemma start_closed_ok:
  assumes "lg_contract env"
  shows "lg_ready st \<Longrightarrow> \<exists>st'. start_closed env g_src pl t st = Some st' \<and> lg_ready st' \<and>
     length (t_log st) \<le> length (t_log st')"
proof (induction "nat (pl_cap pl - t_inflight st)" arbitrary: st rule: less_induct)
  case less
  show ?case
  proof (cases "t < pl_tend pl \<and> t_inflight st < pl_cap pl")
    case True
    obtain ok st1 where st1: "start_one env g_src st = Some (ok, st1)" "lg_ready st1"
        "t_inflight st1 = t_inflight st + (if ok then 1 else 0)" "length (t_log st) \<le> length (t_log st1)"
      using start_one_ok [OF assms less.prems] by blast
    show ?thesis
    proof (cases ok)
      case ok: True
      with True st1 less.hyps [of st1] obtain st' where
        "start_closed env g_src pl t st1 = Some st'" "lg_ready st'" "length (t_log st1) \<le> length (t_log st')"
        by auto
      with True ok st1 show ?thesis
        by (auto simp: start_closed.simps [of env g_src pl t st])
    next
      case False
      with True st1 show ?thesis
        by (auto simp: start_closed.simps [of env g_src pl t st])
    qed
  next
    case False
    with less.prems show ?thesis
      by (auto simp: start_closed.simps [of env g_src pl t st])
  qed
qed

text \<open>
  The open loop. One interval after the present the next start lies in the future; so the loop
  ends after at most two rounds, as a backlog is cut down to the present.
\<close>

definition paced :: "loadgen_env \<Rightarrow> lg_plan \<Rightarrow> rat \<Rightarrow> bool" where
  "paced env pl t \<longleftrightarrow> t < g_rnd env (t + pl_interval pl)"

definition opened :: "lg_thread \<Rightarrow> nat \<Rightarrow> lg_thread \<Rightarrow> bool" where
  "opened st n st' \<longleftrightarrow> lg_ready st' \<and> length (t_log st) \<le> length (t_log st') \<and>
     starts (t_log st') \<le> starts (t_log st) + n"

lemma start_open_round:
  assumes "lg_contract env" and "lg_ready st"
  shows "start_open env g_src pl t st = Some st \<or>
    (\<exists>st1 x. start_open env g_src pl t st = start_open env g_src pl t (st1\<lparr>t_next_start := x\<rparr>) \<and>
       opened st 1 (st1\<lparr>t_next_start := x\<rparr>) \<and> t_next_start st \<le> t \<and>
       x = max t (g_rnd env (t_next_start st + pl_interval pl)))"
proof (cases "t < pl_tend pl \<and> t_next_start st \<le> t \<and> t_inflight st < pl_cap pl")
  case True
  obtain ok st1 where st1: "start_one env g_src st = Some (ok, st1)" "lg_ready st1"
      "length (t_log st) \<le> length (t_log st1)" "starts (t_log st1) = Suc (starts (t_log st))"
      "t_next_start st1 = t_next_start st"
    using start_one_ok [OF assms] by blast
  let ?x = "g_rnd env (t_next_start st + pl_interval pl)"
  have "(if ?x < t then t else ?x) = max t ?x"
    by simp
  with True st1 have "start_open env g_src pl t st = start_open env g_src pl t (st1\<lparr>t_next_start := max t ?x\<rparr>)"
    by (simp add: start_open.simps [of env g_src pl t st] Let_def)
  moreover have "opened st 1 (st1\<lparr>t_next_start := max t ?x\<rparr>)"
    using st1 by (simp add: opened_def lg_ready_def)
  ultimately show ?thesis
    using True by blast
next
  case False
  then show ?thesis
    by (auto simp: start_open.simps)
qed

lemma start_open_ok:
  assumes "lg_contract env" and "lg_ready st" and "paced env pl t"
  shows "\<exists>st'. start_open env g_src pl t st = Some st' \<and> opened st 2 st'"
  using start_open_round [OF assms(1,2), of g_src pl t]
proof (elim disjE exE conjE)
  assume "start_open env g_src pl t st = Some st"
  with assms(2) show ?thesis by (simp add: opened_def)
next
  fix st1 :: lg_thread and x
  let ?st1 = "st1\<lparr>t_next_start := x\<rparr>"
  assume 1: "start_open env g_src pl t st = start_open env g_src pl t ?st1" "opened st 1 ?st1"
    and x: "x = max t (g_rnd env (t_next_start st + pl_interval pl))"
  then have ready: "lg_ready ?st1"
    by (simp add: opened_def)
  from start_open_round [OF assms(1) this, of g_src pl t] show ?thesis
  proof (elim disjE exE conjE)
    assume "start_open env g_src pl t ?st1 = Some ?st1"
    with 1 show ?thesis by (simp add: opened_def)
  next
    fix st2 :: lg_thread and y
    let ?st2 = "st2\<lparr>t_next_start := y\<rparr>"
    assume 2: "start_open env g_src pl t ?st1 = start_open env g_src pl t ?st2" "opened ?st1 1 ?st2"
      and y: "t_next_start ?st1 \<le> t" "y = max t (g_rnd env (t_next_start ?st1 + pl_interval pl))"
    then have "x = t"
      using x by simp
    with y have "t < y"
      using assms(3) by (simp add: paced_def max_def)
    then have "start_open env g_src pl t ?st2 = Some ?st2"
      by (simp add: start_open.simps)
    with 1 2 show ?thesis
      by (auto simp: opened_def)
  qed
qed

subsection \<open>A batch of events\<close>

definition lg_batch :: "epoll_event list \<Rightarrow> lg_thread \<Rightarrow> bool" where
  "lg_batch evs st \<longleftrightarrow> lg_ready st \<and> distinct (map fst evs) \<and> set (map fst evs) \<subseteq> dom (t_heap st)"

lemma handle_event_ok:
  assumes "lg_contract env" and "lg_batch (ev # evs) st"
  shows "\<exists>st'. handle_event env ev st = Some st' \<and> lg_batch evs st' \<and> length (t_log st) \<le> length (t_log st')"
proof -
  obtain a k where ev: "ev = (a, k)"
    by (cases ev)
  have inv: "lg_inv st" and fl: "t_inflight st = int (card (dom (t_heap st)))" and fin: "finite (dom (t_heap st))"
    and evs: "distinct (map fst evs)" "a \<notin> set (map fst evs)" "set (map fst evs) \<subseteq> dom (t_heap st)"
    using assms(2) ev by (auto simp: lg_batch_def lg_ready_def lg_inv_def)
  obtain c where c: "t_heap st a = Some c"
    using assms(2) ev by (auto simp: lg_batch_def)
  from handle_ok [OF assms(1) inv c, of k] consider
      (gone) st' where "handle env a k st = Some (Some 1, st')" "resolved a c st st'"
    | (kept) r st' where "handle env a k st = Some (r, st')" "r = None \<or> r = Some 0" "progress a c st st'"
    unfolding stage_ok_def by blast
  then show ?thesis
  proof cases
    case gone
    have "card (dom (t_heap st)) = Suc (card (dom (t_heap st) - {a}))"
      using fin c by (metis card_Suc_Diff1 domI)
    with gone fl evs ev show ?thesis
      by (auto simp: handle_event_def resolved_def lg_batch_def lg_ready_def)
  next
    case kept
    then obtain c' where "t_heap st' = (t_heap st)(a \<mapsto> c')"
      by (auto simp: progress_def)
    with c have "dom (t_heap st') = dom (t_heap st)"
      by (simp add: insert_absorb domI)
    with kept fl evs ev show ?thesis
      by (auto simp: handle_event_def progress_def lg_batch_def lg_ready_def)
  qed
qed

interpretation lg_events: completion_handler "handle_event env"
  "\<lambda>evs st. lg_contract env \<and> lg_batch evs st \<and> n \<le> length (t_log st)"
  by unfold_locales (meson handle_event_ok le_trans)

subsection \<open>The loop\<close>

definition lg_pacing :: "loadgen_env \<Rightarrow> lg_plan \<Rightarrow> bool" where
  "lg_pacing env pl \<longleftrightarrow> 0 < pl_target pl \<or> (\<forall>h. paced env pl (seconds (g_rnd env) (g_clock env h)))"

text \<open>When the thread is done every start is accounted for.\<close>

definition lg_done :: "lg_thread \<Rightarrow> bool" where
  "lg_done st \<longleftrightarrow> counted (t_w st) (refused (t_log st)) 0"

lemma start_phase_ok:
  assumes "lg_contract env" and "lg_pacing env pl" and "lg_ready st" and "t = seconds (g_rnd env) (g_clock env h)"
  shows "\<exists>st'. (if 0 < pl_target pl then start_closed env g_src pl t st else start_open env g_src pl t st) = Some st' \<and>
     lg_ready st' \<and> length (t_log st) \<le> length (t_log st')"
proof (cases "0 < pl_target pl")
  case True
  with start_closed_ok [OF assms(1,3)] show ?thesis by simp
next
  case False
  with assms(2,4) have "paced env pl t"
    by (simp add: lg_pacing_def)
  from start_open_ok [OF assms(1,3) this] False show ?thesis
    by (auto simp: opened_def)
qed

lemma lg_ready_timeout:
  assumes "lg_ready st"
  shows "lg_done (st\<lparr>t_w := count_fail F_TIMEOUT (of_int (t_inflight st)) (t_w st)\<rparr>)"
  using assms by (simp add: lg_done_def lg_ready_def lg_inv_def counted_def)

lemma lg_loop_body_ok:
  assumes env: "lg_contract env" and pace: "lg_pacing env pl" and ready: "lg_ready st"
  shows "\<exists>r. lg_loop_body env g_src pl st = Some r \<and>
     (case r of Continue st' \<Rightarrow> lg_ready st' \<and> length (t_log st) < length (t_log st') | Break st' \<Rightarrow> lg_done st')"
proof -
  define t where "t = seconds (g_rnd env) (g_clock env (t_log st))"
  define st1 where "st1 = lcall (L_clock (g_clock env (t_log st))) st"
  have now: "now_s env st = (t, st1)"
    by (simp add: now_s_def t_def st1_def Let_def)
  have ready1: "lg_ready st1" and len1: "length (t_log st) < length (t_log st1)"
    using ready by (simp_all add: st1_def lg_ready_def)
  consider "pl_tend pl \<le> t" "t_inflight st1 = 0"
    | "\<not> (pl_tend pl \<le> t \<and> t_inflight st1 = 0)" "pl_drain_deadline pl \<le> t"
    | "\<not> (pl_tend pl \<le> t \<and> t_inflight st1 = 0)" "\<not> pl_drain_deadline pl \<le> t"
    by blast
  then show ?thesis
  proof cases
    case 1
    with ready1 have "card (dom (t_heap st1)) = 0" "lg_inv st1"
      by (simp_all add: lg_ready_def)
    then have "lg_done st1"
      using lg_inv_counted [of st1] by (simp add: lg_done_def)
    with 1 now show ?thesis by (simp add: lg_loop_body_def)
  next
    case 2
    with lg_ready_timeout [OF ready1] now show ?thesis by (auto simp: lg_loop_body_def)
  next
    case 3
    obtain st2 where st2: "(if 0 < pl_target pl then start_closed env g_src pl t st1 else start_open env g_src pl t st1) = Some st2"
        "lg_ready st2" "length (t_log st1) \<le> length (t_log st2)"
      using start_phase_ok [OF env pace ready1 t_def] by blast
    define evs where "evs = g_epoll_wait env (t_log st2) 1024"
    have "set (map fst evs) \<subseteq> dom (t_heap st2)"
      using lg_contractD(5) [OF env, of _ "t_log st2" 1024] st2(2)
      unfolding evs_def lg_ready_def lg_inv_def by blast
    then have "lg_batch evs (lcall (L_epoll_wait evs) st2)"
      using st2(2) lg_contractD(4) [OF env] by (simp add: lg_batch_def lg_ready_def evs_def)
    then obtain st3 where st3: "for_each (handle_event env) evs (lcall (L_epoll_wait evs) st2) = Some st3"
        "lg_batch [] st3" "length (t_log st2) \<le> length (t_log st3)"
      using lg_events.drains_all [of env evs "lcall (L_epoll_wait evs) st2" "length (t_log st2)"] env by auto
    moreover have "length evs \<le> 1024"
      unfolding evs_def by (rule lg_contractD(3) [OF env])
    ultimately show ?thesis
      using 3 now st2 len1 by (auto simp: lg_loop_body_def evs_def [symmetric] Let_def lg_batch_def)
  qed
qed

interpretation lg_loop: loop_contract "\<lambda>_. False" "lg_loop_body env g_src pl"
  "\<lambda>st. lg_contract env \<and> lg_pacing env pl \<and> lg_ready st" lg_done "\<lambda>st. length (t_log st)"
proof (unfold_locales, goal_cases)
  case (1 st st')
  then show ?case
    using lg_loop_body_ok [of env pl st g_src] by auto
next
  case (2 st st')
  then show ?case
    using lg_loop_body_ok [of env pl st g_src] by auto
next
  case (3 st)
  then show ?case
    using lg_loop_body_ok [of env pl st g_src] by auto
qed simp

text \<open>The monotonic clock passes every deadline.\<close>

definition clock_runs :: "loadgen_env \<Rightarrow> bool" where
  "clock_runs env \<longleftrightarrow> (\<forall>d. \<exists>n. \<forall>h. n \<le> length h \<longrightarrow> d \<le> seconds (g_rnd env) (g_clock env h))"

text \<open>A worker record as \<open>main\<close> fills it in.\<close>

definition lg_fresh :: "worker_t \<Rightarrow> bool" where
  "lg_fresh w \<longleftrightarrow> lw_offered w = 0 \<and> lw_completed w = 0 \<and> (\<forall>r. lw_failed w r = 0) \<and>
     lw_hist w = replicate (nat (HBUCKETS + 1)) 0"

lemma lg_enter_ready:
  assumes "lg_fresh w" and "lg_enter env w = (pl, st)"
  shows "lg_ready st"
  using assms
  by (auto simp: lg_enter_def now_s_def Let_def lg_ready_def lg_inv_def lg_fresh_def counted_def
      failures_def F_REASONS_def lcall_def sum_list_replicate)

lemma worker_main_done:
  assumes "lg_contract env" and "clock_runs env" and "lg_fresh w" and "lg_pacing env (fst (lg_enter env w))"
  shows "\<exists>st. worker_main env g_src w = Some (Exited st) \<and> lg_done st"
proof -
  obtain pl st where enter: "lg_enter env w = (pl, st)"
    by (cases "lg_enter env w")
  from assms(2) obtain n where n: "\<And>h. n \<le> length h \<Longrightarrow> max (pl_tend pl) (pl_drain_deadline pl) \<le> seconds (g_rnd env) (g_clock env h)"
    unfolding clock_runs_def by meson
  have "\<exists>st'. lg_loop_body env g_src pl v = Some (Break st')" if "n \<le> length (t_log v)" for v
    using n [OF that] by (auto simp: lg_loop_body_def now_s_def Let_def)
  then obtain st' where "run_loop (\<lambda>_. False) (lg_loop_body env g_src pl) st = Some (Exited st')" "lg_done st'"
    using lg_loop.returns_or_breaks [of env pl st n g_src] lg_enter_ready [OF assms(3) enter] assms(1,4) enter
    by auto
  with enter show ?thesis
    by (simp add: worker_main_def lg_done_def)
qed

end
