(* ===== verification/Loadgen_Report.thy ===== *)
theory Loadgen_Report
  imports Loadgen_Run
begin

text \<open>
  The numbers the load generator reports: the percentile loop against a reference definition,
  the aggregation over the threads, the split of the target over the threads.
\<close>

subsection \<open>Rounding\<close>

text \<open>What every rounding mode has: it is monotone, keeps doubles, and 0 and 1 are doubles.\<close>

definition rounding :: "(rat \<Rightarrow> rat) \<Rightarrow> bool" where
  "rounding rnd \<longleftrightarrow> mono rnd \<and> (\<forall>x. rnd (rnd x) = rnd x) \<and> rnd 0 = 0 \<and> rnd 1 = 1"

lemma rounding_nonneg: "rounding rnd \<Longrightarrow> 0 \<le> x \<Longrightarrow> 0 \<le> rnd x"
  unfolding rounding_def by (metis monoD)

lemma reaches_mono:
  assumes "rounding rnd" and "p \<le> q" and "reaches rnd tot q c"
  shows "reaches rnd tot p c"
proof -
  have mono: "mono rnd"
    using assms(1) by (simp add: rounding_def)
  have "rnd (of_nat (unat tot)) * rnd p \<le> rnd (of_nat (unat tot)) * rnd q"
    by (intro mult_left_mono monoD [OF mono assms(2)] rounding_nonneg [OF assms(1)] of_nat_0_le_iff)
  then have "rnd (rnd (of_nat (unat tot)) * rnd p) \<le> rnd (rnd (of_nat (unat tot)) * rnd q)"
    using mono by (rule monoD [rotated])
  with assms(3) show ?thesis
    unfolding reaches_def by (rule order_trans [rotated])
qed

lemma reaches_total:
  assumes "rounding rnd" and "q \<le> 1"
  shows "reaches rnd tot q tot"
proof -
  have mono: "mono rnd" and idem: "rnd (rnd x) = rnd x" and one: "rnd 1 = 1" for x
    using assms(1) by (simp_all add: rounding_def)
  have "rnd q \<le> 1"
    using monoD [OF mono assms(2)] one by simp
  moreover have "0 \<le> rnd (of_nat (unat tot))"
    by (intro rounding_nonneg [OF assms(1)] of_nat_0_le_iff)
  ultimately have "rnd (of_nat (unat tot)) * rnd q \<le> rnd (of_nat (unat tot))"
    by (rule mult_left_le)
  from monoD [OF mono this] show ?thesis
    unfolding reaches_def idem .
qed

subsection \<open>Percentiles\<close>

text \<open>
  The reference: the first bucket at which the cumulated count reaches the share \<open>q\<close> of the
  total, in microseconds.
\<close>

definition cumulated :: "64 word list \<Rightarrow> nat \<Rightarrow> 64 word" where
  "cumulated hist b = sum_list (take (Suc b) hist)"

definition first_bucket :: "(64 word \<Rightarrow> bool) \<Rightarrow> 64 word list \<Rightarrow> nat" where
  "first_bucket P hist = length (takeWhile (\<lambda>b. \<not> P (cumulated hist b)) [0..<length hist])"

definition percentile :: "(rat \<Rightarrow> rat) \<Rightarrow> 64 word list \<Rightarrow> rat \<Rightarrow> int" where
  "percentile rnd hist q = int (first_bucket (reaches rnd (sum_list hist) q) hist) * HUS_PER"

text \<open>The same by recursion, with the count so far in \<open>c\<close>.\<close>

fun first_from :: "(64 word \<Rightarrow> bool) \<Rightarrow> 64 word \<Rightarrow> 64 word list \<Rightarrow> nat option" where
  "first_from P c [] = None"
| "first_from P c (x # xs) = (if P (c + x) then Some 0 else map_option Suc (first_from P (c + x) xs))"

lemma takeWhile_upt_Suc:
  "takeWhile Q [Suc m..<Suc n] = map Suc (takeWhile (\<lambda>b. Q (Suc b)) [m..<n])"
  by (simp add: map_Suc_upt [symmetric] takeWhile_map comp_def del: upt_Suc)

lemma first_from_bucket:
  "first_from P c hist = Some b \<Longrightarrow>
   b = length (takeWhile (\<lambda>b. \<not> P (c + cumulated hist b)) [0..<length hist])"
proof (induction hist arbitrary: b c)
  case (Cons x xs)
  have upt: "[0..<length (x # xs)] = 0 # [Suc 0..<Suc (length xs)]"
    by (simp add: upt_rec del: upt_Suc)
  have cum: "c + cumulated (x # xs) 0 = c + x" "c + cumulated (x # xs) (Suc b) = c + x + cumulated xs b" for b
    by (simp_all add: cumulated_def add.assoc)
  show ?case
    using Cons.prems Cons.IH [of "c + x"] unfolding upt takeWhile.simps takeWhile_upt_Suc cum
    by (auto split: if_splits)
qed simp

lemma first_from_found: "P (c + sum_list hist) \<Longrightarrow> hist \<noteq> [] \<Longrightarrow> first_from P c hist \<noteq> None"
proof (induction hist arbitrary: c)
  case (Cons x xs)
  show ?case
  proof (cases "xs = []")
    case False
    have "P (c + x + sum_list xs)"
      using Cons.prems(1) by (simp add: add.assoc)
    from Cons.IH [OF this False] show ?thesis by simp
  qed (use Cons.prems in simp)
qed simp

definition hit :: "int \<Rightarrow> int option \<Rightarrow> nat option \<Rightarrow> int option" where
  "hit b old new = (case old of Some v \<Rightarrow> Some v | None \<Rightarrow> map_option (\<lambda>k. (b + int k) * HUS_PER) new)"

text \<open>The loop finds all three, as what reaches the largest share reaches the others.\<close>

lemma pct_loop_hits:
  assumes "\<And>c. reaches rnd tot (999 / 1000) c \<Longrightarrow> reaches rnd tot (99 / 100) c"
    and "\<And>c. reaches rnd tot (99 / 100) c \<Longrightarrow> reaches rnd tot (1 / 2) c"
  shows "q_p999 p = None \<Longrightarrow>
      q_p50 (pct_loop rnd tot b hist p) = hit b (q_p50 p) (first_from (reaches rnd tot (1 / 2)) (q_c p) hist) \<and>
      q_p99 (pct_loop rnd tot b hist p) = hit b (q_p99 p) (first_from (reaches rnd tot (99 / 100)) (q_c p) hist) \<and>
      q_p999 (pct_loop rnd tot b hist p) = hit b None (first_from (reaches rnd tot (999 / 1000)) (q_c p) hist)"
proof (induction hist arbitrary: b p)
  case Nil
  then show ?case by (simp add: hit_def split: option.splits)
next
  case (Cons x xs)
  let ?c = "q_c p + x"
  have next_hit: "hit (b + 1) old (first_from P c xs) = hit b old (map_option Suc (first_from P c xs))" for old P c
    by (simp add: hit_def option.map_comp comp_def algebra_simps split: option.splits)
  show ?case
  proof (cases "reaches rnd tot (999 / 1000) ?c")
    case True
    with assms Cons.prems show ?thesis
      by (simp add: Let_def hit_def split: option.splits)
  next
    case False
    define p1 where "p1 = (let p = p\<lparr>q_c := ?c\<rparr>;
      p = (if q_p50 p = None \<and> reaches rnd tot (1 / 2) ?c then p\<lparr>q_p50 := Some (b * HUS_PER)\<rparr> else p)
      in if q_p99 p = None \<and> reaches rnd tot (99 / 100) ?c then p\<lparr>q_p99 := Some (b * HUS_PER)\<rparr> else p)"
    have p1: "q_c p1 = ?c" "q_p999 p1 = None"
        "q_p50 p1 = (if q_p50 p = None \<and> reaches rnd tot (1 / 2) ?c then Some (b * HUS_PER) else q_p50 p)"
        "q_p99 p1 = (if q_p99 p = None \<and> reaches rnd tot (99 / 100) ?c then Some (b * HUS_PER) else q_p99 p)"
      using Cons.prems by (simp_all add: p1_def Let_def)
    have step: "pct_loop rnd tot b (x # xs) p = pct_loop rnd tot (b + 1) xs p1"
      using False by (simp add: p1_def Let_def)
    show ?thesis
      using Cons.IH [OF p1(2), of "b + 1"] p1 False unfolding step
      by (auto simp: next_hit) (auto simp: hit_def)
  qed
qed

lemma hit_percentile:
  assumes "rounding rnd" and "q \<le> 1" and "hist \<noteq> []"
  shows "us_or_0 (hit 0 None (first_from (reaches rnd (sum_list hist) q) 0 hist)) = percentile rnd hist q"
proof -
  let ?P = "reaches rnd (sum_list hist) q"
  have "?P (0 + sum_list hist)"
    using reaches_total [OF assms(1,2)] by simp
  then have "first_from ?P 0 hist \<noteq> None"
    using assms(3) by (rule first_from_found)
  then obtain b where b: "first_from ?P 0 hist = Some b"
    by blast
  from first_from_bucket [OF b] b show ?thesis
    by (simp add: hit_def us_or_0_def percentile_def first_bucket_def)
qed

text \<open>The highest bucket that is not empty.\<close>

definition last_bucket :: "64 word list \<Rightarrow> nat" where
  "last_bucket hist = last (0 # filter (\<lambda>b. 0 < hist ! b) [0..<length hist])"

lemma max_loop_snoc:
  "max_loop b (xs @ [x]) m = (if 0 < x then (b + int (length xs)) * HUS_PER else max_loop b xs m)"
  by (induction xs arbitrary: b m) (simp_all add: algebra_simps)

lemma max_loop_last: "max_loop 0 hist 0 = int (last_bucket hist) * HUS_PER"
proof (induction hist rule: rev_induct)
  case Nil
  then show ?case by (simp add: last_bucket_def)
next
  case (snoc x xs)
  have "filter (\<lambda>b. 0 < (xs @ [x]) ! b) [0..<length xs] = filter (\<lambda>b. 0 < xs ! b) [0..<length xs]"
    by (rule filter_cong) (simp_all add: nth_append)
  with snoc show ?case
    by (simp add: max_loop_snoc last_bucket_def nth_append)
qed

lemma percentiles_eq:
  assumes "rounding rnd" and "0 < sum_list hist"
  shows "percentiles rnd (sum_list hist) hist =
    (percentile rnd hist (1 / 2), percentile rnd hist (99 / 100), percentile rnd hist (999 / 1000),
     int (last_bucket hist) * HUS_PER)"
proof -
  have "hist \<noteq> []"
    using assms(2) by auto
  have m1: "reaches rnd tot (99 / 100) c" if "reaches rnd tot (999 / 1000) c" for tot c
    using that by (rule reaches_mono [OF assms(1), rotated]) simp
  have m2: "reaches rnd tot (1 / 2) c" if "reaches rnd tot (99 / 100) c" for tot c
    using that by (rule reaches_mono [OF assms(1), rotated]) simp
  note hits = pct_loop_hits [OF m1 m2, where tot = "sum_list hist" and hist = hist and b = 0 and
      p = "\<lparr>q_c = 0, q_p50 = None, q_p99 = None, q_p999 = None\<rparr>"]
  show ?thesis
    using assms \<open>hist \<noteq> []\<close> hits
    by (simp add: percentiles_def Let_def max_loop_last hit_percentile)
qed

subsection \<open>Aggregation\<close>

lemma add_failed_keeps [simp]:
  "a_completed (fold (add_failed w) rs a) = a_completed a"
  "a_offered (fold (add_failed w) rs a) = a_offered a"
  by (induction rs arbitrary: a) (simp_all add: add_failed_def)

lemma sum_list_map2_add:
  "length xs = length ys \<Longrightarrow> sum_list (map2 (+) xs ys) = sum_list xs + (sum_list ys :: 64 word)"
  by (induction xs ys rule: list_induct2) (simp_all add: algebra_simps)

lemma aggregate_hist:
  assumes "\<forall>w \<in> set ws. length (lw_hist w) = nat (HBUCKETS + 1) \<and> sum_list (lw_hist w) = lw_completed w"
  shows "sum_list (a_hist (aggregate ws)) = a_completed (aggregate ws)"
proof -
  have "length (a_hist (fold add_worker ws a)) = nat (HBUCKETS + 1) \<and>
      sum_list (a_hist (fold add_worker ws a)) = a_completed (fold add_worker ws a)"
    if "length (a_hist a) = nat (HBUCKETS + 1)" "sum_list (a_hist a) = a_completed a" for a
    using that assms
  proof (induction ws arbitrary: a)
    case (Cons w ws)
    from Cons.IH [of "add_worker w a"] Cons.prems show ?case
      by (simp add: add_worker_def sum_list_map2_add)
  qed simp
  from this [of lg_zero] show ?thesis
    by (simp add: aggregate_def lg_zero_def sum_list_replicate)
qed

subsection \<open>The split over the threads\<close>

lemma lg_threads_bounds:
  "1 \<le> lg_threads opts" "0 < lo_conns opts \<Longrightarrow> lg_threads opts \<le> lo_conns opts"
  by (auto simp: lg_threads_def Let_def)

lemma sum_split:
  fixes n k :: nat
  assumes "0 < n"
  shows "(\<Sum>i<n. k div n + (if i < k mod n then 1 else 0)) = k"
proof -
  have "{i \<in> {..<n}. i < k mod n} = {..<k mod n}"
    using mod_less_divisor [OF assms, of k] by auto
  then have "(\<Sum>i<n. if i < k mod n then 1 else 0 :: nat) = k mod n"
    by (simp add: sum.If_cases Int_def)
  then show ?thesis
    by (simp add: sum.distrib)
qed

text \<open>Every thread gets a connection, and together they get exactly the target.\<close>

lemma conns_split:
  assumes "0 < lo_conns opts"
  shows "(\<Sum>i<nat (lg_threads opts). lw_conns (lg_worker m opts (lg_threads opts) (int i))) = lo_conns opts"
    and "1 \<le> lw_conns (lg_worker m opts (lg_threads opts) i)"
proof -
  define k n where "k = nat (lo_conns opts)" and "n = nat (lg_threads opts)"
  have k: "lo_conns opts = int k" and n: "lg_threads opts = int n" "0 < n" "n \<le> k"
    using assms lg_threads_bounds [of opts] by (auto simp: k_def n_def)
  have c: "lw_conns (lg_worker m opts (int n) i) = int (k div n) + (if i < int (k mod n) then 1 else 0)" for i
    using assms n(2) by (simp add: lg_worker_def k signed_divide_int_def signed_modulo_int_def zdiv_int zmod_int)
  have "(\<Sum>i<n. int (k div n) + (if int i < int (k mod n) then 1 else 0)) =
      int (\<Sum>i<n. k div n + (if i < k mod n then 1 else 0))"
    unfolding of_nat_sum by (rule sum.cong) simp_all
  with sum_split [OF n(2), of k] c show "(\<Sum>i<nat (lg_threads opts). lw_conns (lg_worker m opts (lg_threads opts) (int i))) = lo_conns opts"
    by (simp add: n(1) k)
  have "1 \<le> k div n"
    using n(2,3) by (simp add: Suc_leI div_greater_zero_iff)
  then show "1 \<le> lw_conns (lg_worker m opts (lg_threads opts) i)"
    by (simp add: n(1) c)
qed

end
