(* ===== verification/Loadgen_Main.thy ===== *)
theory Loadgen_Main
  imports Loadgen_Loop Loadgen_Report
begin

text \<open>
  The load generator as a whole: the totals are the sums over the threads, all threads are joined,
  and what each thread accounts for adds up to what the report says.
\<close>

subsection \<open>Totals\<close>

lemma add_failed_total:
  "a_failed_total (fold (add_failed w) rs a) = a_failed_total a + sum_list (map (lw_failed w) rs)"
  by (induction rs arbitrary: a) (simp_all add: add_failed_def add.assoc)

lemma add_failed_each:
  "distinct rs \<Longrightarrow> a_failed (fold (add_failed w) rs a) r =
     (if r \<in> set rs then a_failed a r + lw_failed w r else a_failed a r)"
  by (induction rs arbitrary: a) (auto simp: add_failed_def)

lemma add_worker_totals:
  "a_offered (add_worker w a) = a_offered a + lw_offered w"
  "a_completed (add_worker w a) = a_completed a + lw_completed w"
  "a_failed_total (add_worker w a) = a_failed_total a + failures w"
  "a_failed (add_worker w a) r = a_failed a r + lw_failed w r"
  using F_REASONS_all
  by (simp_all add: add_worker_def add_failed_total add_failed_each failures_def)

lemma fold_add_worker:
  "a_offered (fold add_worker ws a) = a_offered a + sum_list (map lw_offered ws)"
  "a_completed (fold add_worker ws a) = a_completed a + sum_list (map lw_completed ws)"
  "a_failed_total (fold add_worker ws a) = a_failed_total a + sum_list (map failures ws)"
  "a_failed (fold add_worker ws a) r = a_failed a r + sum_list (map (\<lambda>w. lw_failed w r) ws)"
  by (induction ws arbitrary: a) (simp_all add: add_worker_totals add.assoc)

lemma aggregate_totals:
  "a_offered (aggregate ws) = sum_list (map lw_offered ws)"
  "a_completed (aggregate ws) = sum_list (map lw_completed ws)"
  "a_failed_total (aggregate ws) = sum_list (map failures ws)"
  "a_failed (aggregate ws) r = sum_list (map (\<lambda>w. lw_failed w r) ws)"
  by (simp_all add: aggregate_def fold_add_worker lg_zero_def)

text \<open>The reported total of the failures is the sum of the reported reasons.\<close>

lemma aggregate_reasons: "a_failed_total (aggregate ws) = (\<Sum>r \<in> UNIV. a_failed (aggregate ws) r)"
  unfolding aggregate_totals
  by (induction ws) (simp_all add: failures_all sum.distrib)

lemma aggregate_accounts:
  assumes "\<forall>st \<in> set sts. lg_done st"
  shows "a_offered (aggregate (map t_w sts)) + of_nat (\<Sum>st\<leftarrow>sts. refused (t_log st)) =
     a_completed (aggregate (map t_w sts)) + a_failed_total (aggregate (map t_w sts))"
  unfolding aggregate_totals map_map comp_def using assms
proof (induction sts)
  case (Cons st sts)
  have "lw_offered (t_w st) + of_nat (refused (t_log st)) = lw_completed (t_w st) + failures (t_w st)"
    using Cons.prems by (simp add: lg_done_def counted_def)
  with Cons show ?case
    by (simp add: algebra_simps)
qed simp

subsection \<open>Threads\<close>

lemma lg_worker_fresh: "lg_fresh (lg_worker m opts threads i)"
  by (simp add: lg_fresh_def lg_worker_def)

text \<open>What a thread of the program relies on.\<close>

definition thread_ok :: "lg_system \<Rightarrow> lg_opts \<Rightarrow> int \<Rightarrow> nat \<Rightarrow> bool" where
  "thread_ok m opts threads i \<longleftrightarrow> m_pthread_create m i \<and> lg_contract (m_thread m i) \<and> clock_runs (m_thread m i) \<and>
     lg_pacing (m_thread m i) (fst (lg_enter (m_thread m i) (lg_worker m opts threads (int i))))"

lemma lg_join_returns:
  assumes "\<forall>i \<in> set is. thread_ok m opts threads i"
  shows "\<exists>sts. lg_join m opts threads is = Some (Exited (map t_w sts)) \<and> length sts = length is \<and>
     (\<forall>st \<in> set sts. lg_done st) \<and>
     list_all2 (\<lambda>i st. worker_main (m_thread m i) (lo_src opts) (lg_worker m opts threads (int i)) = Some (Exited st)) is sts"
  using assms
proof (induction "is")
  case (Cons i "is")
  then have ok: "thread_ok m opts threads i"
    by simp
  with worker_main_done [of "m_thread m i" "lg_worker m opts threads (int i)" "lo_src opts"] lg_worker_fresh
  obtain st where st: "worker_main (m_thread m i) (lo_src opts) (lg_worker m opts threads (int i)) = Some (Exited st)" "lg_done st"
    by (auto simp: thread_ok_def)
  from Cons obtain sts where "lg_join m opts threads is = Some (Exited (map t_w sts))" "length sts = length is"
     "\<forall>st \<in> set sts. lg_done st"
     "list_all2 (\<lambda>i st. worker_main (m_thread m i) (lo_src opts) (lg_worker m opts threads (int i)) = Some (Exited st)) is sts"
    by auto
  with st ok show ?case
    by (intro exI [of _ "st # sts"]) (simp add: thread_ok_def)
qed simp

text \<open>A program that gets its host address, its memory and its threads returns a report.\<close>

lemma lg_main_returns:
  assumes "opts = lg_parse m (tl argv) lg_defaults" and "threads = lg_threads opts"
    and "m_inet_pton m (lo_host opts) \<noteq> None" and "m_calloc m 0" and "m_calloc m 1"
    and "\<forall>i < nat threads. thread_ok m opts threads i"
  obtains sts where "lg_main m argv = Some (Exited (0, Some (lg_summary m opts threads (map t_w sts))))"
    and "\<forall>st \<in> set sts. lg_done st"
    and "list_all2 (\<lambda>i st. worker_main (m_thread m i) (lo_src opts) (lg_worker m opts threads (int i)) = Some (Exited st))
      [0..<nat threads] sts"
proof -
  from lg_join_returns [of "[0..<nat threads]" m opts threads] assms(6) obtain sts where
    "lg_join m opts threads [0..<nat threads] = Some (Exited (map t_w sts))" "\<forall>st \<in> set sts. lg_done st"
    "list_all2 (\<lambda>i st. worker_main (m_thread m i) (lo_src opts) (lg_worker m opts threads (int i)) = Some (Exited st))
      [0..<nat threads] sts"
    by auto
  with assms(1-5) that show thesis
    by (auto simp: lg_main_def Let_def)
qed

lemma done_hist: "lg_done st \<Longrightarrow> length (lw_hist (t_w st)) = nat (HBUCKETS + 1) \<and> sum_list (lw_hist (t_w st)) = lw_completed (t_w st)"
  by (simp add: lg_done_def counted_def)

end
