(* ===== verification/Loadgen_Props.thy ===== *)
theory Loadgen_Props
  imports Loadgen_Main
begin

text \<open>
  The properties of the load generator, and an environment that meets the contracts: sockets and
  objects are numbered upwards, the server on the other side answers at once with the expected
  reply, and every call takes a second.
\<close>

subsection \<open>A concrete environment\<close>

fun top_fd :: "lhistory \<Rightarrow> int" where
  "top_fd [] = 4"
| "top_fd (L_socket fd # h) = max (fd + 1) (top_fd h)"
| "top_fd (_ # h) = top_fd h"

fun top_addr :: "lhistory \<Rightarrow> addr" where
  "top_addr [] = 0"
| "top_addr (L_calloc (Some a) # h) = max (Suc a) (top_addr h)"
| "top_addr (_ # h) = top_addr h"

lemma lg_open_below: "fd \<in> lg_open h \<Longrightarrow> fd < top_fd h"
  by (induction h rule: top_fd.induct) (auto split: if_splits)

lemma lg_live_below: "a \<in> lg_live h \<Longrightarrow> a < top_addr h"
  by (induction h rule: top_addr.induct) auto

text \<open>The connection registered last, if it is still watched, is ready.\<close>

fun last_ctl :: "lhistory \<Rightarrow> (int \<times> ptr) option" where
  "last_ctl [] = None"
| "last_ctl (L_epoll_ctl k fd ev p # h) = Some (fd, p)"
| "last_ctl (_ # h) = last_ctl h"

definition ready_event :: "lhistory \<Rightarrow> nat \<Rightarrow> epoll_event list" where
  "ready_event h n = (case last_ctl h of
     Some (fd, Some a) \<Rightarrow> if watched h fd = Some a \<and> 0 < n then [(a, EPOLLOUT)] else []
   | _ \<Rightarrow> [])"

definition ref_loadgen :: loadgen_env where
  "ref_loadgen =
     \<lparr>g_socket = top_fd, g_fetch_srci = (\<lambda>h. 0), g_calloc = (\<lambda>h. Some (top_addr h)),
      g_clock = (\<lambda>h. (int (length h), 0)), g_connect = (\<lambda>h. EINPROGRESS), g_epoll_create = (\<lambda>h. 3),
      g_epoll_wait = ready_event, g_so_error = (\<lambda>h. 0), g_write = (\<lambda>h b. int (length b)),
      g_read = (\<lambda>h n. let bs = take n (drop (19 - n) REPLY) in (bs, int (length bs))),
      g_errno = (\<lambda>h. EAGAIN), g_rnd = (\<lambda>x. x)\<rparr>"

lemma ref_loadgen_contract: "lg_contract ref_loadgen"
proof -
  have "top_fd h \<notin> lg_open h" "top_addr h \<notin> lg_live h" for h
    using lg_open_below lg_live_below by fastforce+
  moreover have "length (ready_event h n) \<le> n \<and> distinct (map fst (ready_event h n)) \<and>
      (\<forall>a \<in> set (map fst (ready_event h n)). Some a \<in> range (watched h))" for h n
    by (auto simp: ready_event_def image_iff Suc_leI split: option.splits if_splits) metis
  ultimately show ?thesis
    by (simp add: lg_contract_def ref_loadgen_def Let_def) presburger
qed

lemma ref_loadgen_clock: "clock_runs ref_loadgen"
  unfolding clock_runs_def
proof (intro allI)
  fix d :: rat
  have "d \<le> of_int (int (length h))" if "nat \<lceil>d\<rceil> \<le> length h" for h :: lhistory
    using that by linarith
  then show "\<exists>n. \<forall>h. n \<le> length h \<longrightarrow> d \<le> seconds (g_rnd ref_loadgen) (g_clock ref_loadgen h)"
    by (intro exI [of _ "nat \<lceil>d\<rceil>"]) (simp add: seconds_def ref_loadgen_def)
qed

definition ref_worker :: worker_t where
  "ref_worker = \<lparr>lw_id = 0, lw_nthreads = 1, lw_port = 31, lw_rate = 1000, lw_conns = 0, lw_duration = 20,
     lw_sample_pct = 5, lw_offered = 0, lw_completed = 0, lw_failed = (\<lambda>r. 0), lw_sampled_total = 0,
     lw_sampled_bad = 0, lw_hist = replicate 1025 0\<rparr>"

lemma ref_worker_fresh: "lg_fresh ref_worker"
  by (simp add: lg_fresh_def ref_worker_def HBUCKETS_def)

lemma ref_pacing: "lg_pacing ref_loadgen (fst (lg_enter ref_loadgen ref_worker))"
  by (simp add: lg_pacing_def paced_def lg_enter_def lg_plan_of_def now_s_def ref_loadgen_def ref_worker_def Let_def)

definition ref_system :: lg_system where
  "ref_system = \<lparr>m_atof = (\<lambda>s. 1), m_inet_pton = (\<lambda>s. Some 0), m_getifaddrs = None, m_calloc = (\<lambda>i. True),
     m_pthread_create = (\<lambda>i. True), m_thread = (\<lambda>i. ref_loadgen), m_wall = ((0, 0), (1, 0)),
     m_rusage = (((0, 0), (0, 0)), ((0, 0), (0, 0))), m_ncpu = 1, m_rnd = (\<lambda>x. x)\<rparr>"

lemma ref_threads:
  assumes "lo_conns opts = 0" and "lo_rate opts = 1000" and "lg_threads opts = 4"
  shows "thread_ok ref_system opts 4 i"
proof -
  let ?w = "lg_worker ref_system opts 4 (int i)"
  have "lg_pacing ref_loadgen (fst (lg_enter ref_loadgen ?w))"
    using assms(1,2) by (simp add: lg_pacing_def paced_def lg_enter_def lg_plan_of_def now_s_def Let_def lg_worker_def)
      (simp add: ref_loadgen_def ref_system_def)
  then show ?thesis
    using ref_loadgen_contract ref_loadgen_clock by (simp add: thread_ok_def) (simp add: ref_system_def)
qed

subsection \<open>The program\<close>

text \<open>
  C36. The load generator returns a report, without undefined behaviour, whenever its host address
  is valid and it gets its memory and its threads; and the report accounts for every connection
  any thread tried: the offered ones and those refused at the start are exactly the completed and
  the failed ones (stragglers count as timeouts), the failures by reason add up to the reported
  total, and the histogram holds one entry per completed connection. The equations are between
  64-bit counters, wrap-around included.
\<close>

theorem loadgen_accounts:
  assumes "opts = lg_parse m (tl argv) lg_defaults" and "threads = lg_threads opts"
    and "m_inet_pton m (lo_host opts) \<noteq> None" and "m_calloc m 0" and "m_calloc m 1"
    and "\<forall>i < nat threads. thread_ok m opts threads i"
  shows "\<exists>rep sts. lg_main m argv = Some (Exited (0, Some rep)) \<and>
     list_all2 (\<lambda>i st. worker_main (m_thread m i) (lo_src opts) (lg_worker m opts threads (int i)) = Some (Exited st))
       [0..<nat threads] sts \<and>
     a_offered (r_totals rep) + of_nat (\<Sum>st\<leftarrow>sts. refused (t_log st)) =
       a_completed (r_totals rep) + a_failed_total (r_totals rep) \<and>
     a_failed_total (r_totals rep) = (\<Sum>r \<in> UNIV. a_failed (r_totals rep) r) \<and>
     sum_list (a_hist (r_totals rep)) = a_completed (r_totals rep)"
proof -
  obtain sts where sts: "lg_main m argv = Some (Exited (0, Some (lg_summary m opts threads (map t_w sts))))"
    "\<forall>st \<in> set sts. lg_done st"
    "list_all2 (\<lambda>i st. worker_main (m_thread m i) (lo_src opts) (lg_worker m opts threads (int i)) = Some (Exited st))
      [0..<nat threads] sts"
    by (rule lg_main_returns [OF assms])
  have "r_totals (lg_summary m opts threads ws) = aggregate ws" for ws
    by (simp add: lg_summary_def Let_def split: prod.splits)
  moreover have "sum_list (a_hist (aggregate (map t_w sts))) = a_completed (aggregate (map t_w sts))"
    using sts(2) done_hist by (intro aggregate_hist) auto
  ultimately show ?thesis
    using sts aggregate_accounts [OF sts(2)] aggregate_reasons [of "map t_w sts"]
    by (intro exI [of _ "lg_summary m opts threads (map t_w sts)"] exI [of _ sts]) simp
qed

theorem loadgen_accounts_witness:
  "\<exists>rep (sts :: lg_thread list). lg_main ref_system [''loadgen''] = Some (Exited (0, Some rep)) \<and> length sts = 4 \<and>
     a_offered (r_totals rep) + of_nat (\<Sum>st\<leftarrow>sts. refused (t_log st)) =
       a_completed (r_totals rep) + a_failed_total (r_totals rep)"
proof -
  have opts: "lg_defaults = lg_parse ref_system (tl [''loadgen'']) lg_defaults" and four: "4 = lg_threads lg_defaults"
    by (simp_all add: lg_defaults_def lg_threads_def)
  have "lo_conns lg_defaults = 0" "lo_rate lg_defaults = 1000"
    by (simp_all add: lg_defaults_def)
  from ref_threads [OF this four [symmetric]] have "\<forall>i < nat 4. thread_ok ref_system lg_defaults 4 i"
    by blast
  moreover have "m_inet_pton ref_system (lo_host lg_defaults) \<noteq> None" "m_calloc ref_system 0" "m_calloc ref_system 1"
    by (simp_all add: ref_system_def)
  ultimately obtain rep sts where r: "lg_main ref_system [''loadgen''] = Some (Exited (0, Some rep))"
    "list_all2 (\<lambda>i st. worker_main (m_thread ref_system i) (lo_src lg_defaults) (lg_worker ref_system lg_defaults 4 (int i)) = Some (Exited st))
       [0..<nat 4] sts"
    "a_offered (r_totals rep) + of_nat (\<Sum>st\<leftarrow>sts. refused (t_log st)) = a_completed (r_totals rep) + a_failed_total (r_totals rep)"
    using loadgen_accounts [OF opts four] by blast
  from list_all2_lengthD [OF r(2)] have "length sts = 4"
    by simp
  with r show ?thesis by blast
qed

subsection \<open>A thread\<close>

text \<open>
  C37. Well-formedness whenever the thread is at its loop head: every connection object holds an
  open descriptor that epoll watches for it, is in one of its three states, has sent a prefix of
  the request and no more, has its buffer within bounds and in it exactly what was read; and
  the number of objects is the thread's count of connections in flight.
\<close>

theorem loadgen_conns_wellformed:
  assumes "lg_contract env" and "lg_fresh w" and "lg_enter env w = (pl, st0)" and "lg_pacing env pl"
    and "loop_head (\<lambda>_. False) (lg_loop_body env g_src pl) st0 v"
  shows "t_inflight v = int (card (dom (t_heap v))) \<and> (\<forall>a c. t_heap v a = Some c \<longrightarrow>
     c_fd c \<in> lg_open (t_log v) \<and> watched (t_log v) (c_fd c) = Some a \<and> c_state c \<in> {0, 1, 2} \<and>
     wrote (t_log v) (c_fd c) = take (nat (c_sent c)) REQUEST \<and> 0 \<le> c_got c \<and> c_got c \<le> REPLY_LEN \<and>
     length (c_rbuf c) = SIZEOF_RBUF \<and> heard (t_log v) (c_fd c) = take (nat (c_got c)) (c_rbuf c))"
proof -
  have "lg_ready v"
    using lg_loop.head_inv [OF assms(5)] assms(1,4) lg_enter_ready [OF assms(2,3)] by blast
  then show ?thesis
    by (auto simp: lg_ready_def lg_inv_def conn_ok_def)
qed

text \<open>A server that has not reacted yet: one connection is in flight.\<close>

definition slow_loadgen :: loadgen_env where
  "slow_loadgen = ref_loadgen\<lparr>g_epoll_wait := \<lambda>h n. []\<rparr>"

definition one_conn :: worker_t where
  "one_conn = ref_worker\<lparr>lw_conns := 1\<rparr>"

lemma slow_first_round:
  "(case lg_enter slow_loadgen one_conn of (pl, st0) \<Rightarrow>
      case lg_loop_body slow_loadgen [] pl st0 of
        Some (Continue v) \<Rightarrow> t_inflight v = 1 \<and> map_option c_fd (t_heap v 0) = Some 4 \<and> 0 < pl_target pl
      | _ \<Rightarrow> False)"
  by code_simp

theorem loadgen_conns_wellformed_witness:
  "\<exists>pl st0 v c. lg_enter slow_loadgen one_conn = (pl, st0) \<and>
     loop_head (\<lambda>_. False) (lg_loop_body slow_loadgen [] pl) st0 v \<and> t_heap v 0 = Some c \<and>
     card (dom (t_heap v)) = 1 \<and> watched (t_log v) 4 = Some 0 \<and>
     heard (t_log v) 4 = take (nat (c_got c)) (c_rbuf c)"
proof -
  obtain pl st0 where e: "lg_enter slow_loadgen one_conn = (pl, st0)"
    by (cases "lg_enter slow_loadgen one_conn")
  from slow_first_round [unfolded e] obtain v c where v: "lg_loop_body slow_loadgen [] pl st0 = Some (Continue v)"
      "t_inflight v = 1" "t_heap v 0 = Some c" "c_fd c = 4" "0 < pl_target pl"
    by (auto split: option.splits loop_next.splits)
  have head: "loop_head (\<lambda>_. False) (lg_loop_body slow_loadgen [] pl) st0 v"
    using v(1) by (auto intro: loop_head.intros)
  have contract: "lg_contract slow_loadgen"
    using ref_loadgen_contract by (simp add: lg_contract_def slow_loadgen_def)
  have fresh: "lg_fresh one_conn" and pace: "lg_pacing slow_loadgen pl"
    using ref_worker_fresh v(5) by (simp_all add: lg_fresh_def one_conn_def lg_pacing_def)
  note wf = loadgen_conns_wellformed [OF contract fresh e pace head]
  have "card (dom (t_heap v)) = 1"
    using wf v(2) by simp
  moreover have "watched (t_log v) (c_fd c) = Some 0" "heard (t_log v) (c_fd c) = take (nat (c_got c)) (c_rbuf c)"
    using wf v(3) by blast+
  ultimately show ?thesis
    using v(3) e head unfolding v(4) by blast
qed

text \<open>
  C38. A connection is counted as completed only after the whole request, and nothing else, was
  written on its descriptor and a reply of exactly the expected length was read from it that
  begins and ends right; if the connection is sampled, the reply is the expected one byte for byte.
\<close>

theorem completed_means_exchanged:
  assumes "lg_contract env" and "lg_inv st" and "t_heap st a = Some c"
    and "handle env a ev st = Some (r, st')" and "lw_completed (t_w st') \<noteq> lw_completed (t_w st)"
  shows "wrote (t_log st') (c_fd c) = REQUEST \<and> length (heard (t_log st') (c_fd c)) = 19 \<and>
     hd (heard (t_log st') (c_fd c)) = CHR ''H'' \<and> last (heard (t_log st') (c_fd c)) = CHR 0x0A \<and>
     (c_sampled c \<longrightarrow> heard (t_log st') (c_fd c) = REPLY)"
  using handle_ok [OF assms(1-3), of ev] assms(4,5)
  by (auto simp: stage_ok_def resolved_def progress_def exchanged_def)

definition ref_start :: "(int \<times> lg_thread) option" where
  "ref_start = conn_start ref_loadgen [] (snd (lg_enter ref_loadgen ref_worker))"

lemma ref_handle:
  "map_option (\<lambda>(r, st). (r, map_option (\<lambda>(r, st'). (r, lw_completed (t_w st), lw_completed (t_w st'),
       map_option c_fd (t_heap st 0), map_option c_sampled (t_heap st 0))) (handle ref_loadgen 0 EPOLLOUT st))) ref_start =
   Some (0, Some (Some 1, 0, 1, Some 4, Some True))"
  by code_simp

theorem completed_means_exchanged_witness:
  "\<exists>st st'. handle ref_loadgen 0 EPOLLOUT st = Some (Some 1, st') \<and> lw_completed (t_w st') = 1 \<and>
     wrote (t_log st') 4 = REQUEST \<and> heard (t_log st') 4 = REPLY"
proof -
  from ref_handle obtain st st' c where st: "ref_start = Some (0, st)"
    and h: "handle ref_loadgen 0 EPOLLOUT st = Some (Some 1, st')"
    and n: "lw_completed (t_w st) = 0" "lw_completed (t_w st') = 1"
    and c: "t_heap st 0 = Some c" "c_fd c = 4" "c_sampled c"
    by auto
  have "lg_inv (snd (lg_enter ref_loadgen ref_worker))"
    using lg_enter_ready [OF ref_worker_fresh prod.collapse [symmetric]] by (simp add: lg_ready_def)
  from conn_start_ok [OF ref_loadgen_contract this, of "[]"] have "lg_inv st"
    using st by (auto simp: ref_start_def started_def)
  from completed_means_exchanged [OF ref_loadgen_contract this c(1) h] n c h show ?thesis
    by auto
qed

subsection \<open>Pacing\<close>

text \<open>
  C39. In open-loop mode one round of the loop starts at most two connections, however far the
  thread is behind its schedule: a backlog is cut down to the present, so after the second start
  the next one lies in the future, unless the interval between two starts is so small that
  rounding absorbs it (\<open>paced\<close> excludes that). (The offered rate is thus at most two per round, whatever
  \<open>--rate\<close> asks for.)
\<close>

theorem open_loop_two_starts:
  assumes "lg_contract env" and "lg_ready st" and "paced env pl t"
  shows "\<exists>st'. start_open env g_src pl t st = Some st' \<and> starts (t_log st') \<le> starts (t_log st) + 2"
  using start_open_ok [OF assms, of g_src] by (auto simp: opened_def)

theorem open_loop_two_starts_witness:
  "\<exists>st'. start_open ref_loadgen [] (fst (lg_enter ref_loadgen ref_worker)) 10
       (snd (lg_enter ref_loadgen ref_worker)) = Some st' \<and> starts (t_log st') \<le> 2"
proof -
  have "lg_ready (snd (lg_enter ref_loadgen ref_worker))"
    using lg_enter_ready [OF ref_worker_fresh prod.collapse [symmetric]] .
  moreover have "paced ref_loadgen (fst (lg_enter ref_loadgen ref_worker)) 10"
    by (simp add: paced_def lg_enter_def lg_plan_of_def now_s_def ref_loadgen_def ref_worker_def Let_def)
  ultimately show ?thesis
    using open_loop_two_starts [OF ref_loadgen_contract, of "snd (lg_enter ref_loadgen ref_worker)" _ 10 "[]"]
    by (fastforce simp: lg_enter_def now_s_def Let_def starts_def)
qed

subsection \<open>The report\<close>

text \<open>
  C40. The percentiles of the report are the reference percentiles of the aggregated histogram:
  the first bucket at which the cumulated count reaches the share, for every rounding mode, and
  the maximum is the last non-empty bucket. The loop, which stops at the 99.9th percentile, has
  found the other two by then, and always finds all three.
\<close>

theorem report_percentiles:
  assumes "rounding (m_rnd m)" and "0 < a_completed (aggregate ws)"
    and "\<forall>w \<in> set ws. length (lw_hist w) = nat (HBUCKETS + 1) \<and> sum_list (lw_hist w) = lw_completed w"
  shows "(let r = lg_summary m opts threads ws in (r_p50us r, r_p99us r, r_p999us r, r_maxus r)) =
    (let h = a_hist (aggregate ws)
     in (percentile (m_rnd m) h (1 / 2), percentile (m_rnd m) h (99 / 100), percentile (m_rnd m) h (999 / 1000),
         int (last_bucket h) * HUS_PER))"
  using percentiles_eq [OF assms(1), of "a_hist (aggregate ws)"] aggregate_hist [OF assms(3)] assms(2)
  by (simp add: lg_summary_def Let_def split: prod.splits)

definition two_replies :: worker_t where
  "two_replies = ref_worker\<lparr>lw_completed := 2, lw_hist := (replicate 1025 0)[1 := 1, 3 := 1]\<rparr>"

lemma two_entries:
  assumes "3 < n"
  shows "sum_list ((replicate n (0 :: 64 word))[1 := 1, 3 := 1]) = 2"
proof -
  let ?xs = "replicate n (0 :: 64 word)"
  have "sum_list (?xs[1 := 1]) = 1"
    using sum_list_bump [of 1 ?xs] assms by (simp add: sum_list_replicate)
  then show ?thesis
    using sum_list_bump [of 3 "?xs[1 := 1]"] assms by simp
qed

theorem report_percentiles_witness:
  "(let r = lg_summary ref_system lg_defaults 1 [two_replies] in (r_p50us r, r_p99us r, r_p999us r, r_maxus r)) =
   (let h = a_hist (aggregate [two_replies]) in (percentile (\<lambda>x. x) h (1 / 2), percentile (\<lambda>x. x) h (99 / 100),
      percentile (\<lambda>x. x) h (999 / 1000), int (last_bucket h) * HUS_PER))"
proof -
  have r: "rounding (m_rnd ref_system)"
    by (simp add: rounding_def ref_system_def mono_def)
  have two: "length (lw_hist two_replies) = 1025 \<and> sum_list (lw_hist two_replies) = 2"
    using two_entries [of 1025] by (simp add: two_replies_def)
  have done2: "lw_completed two_replies = 2"
    by (simp add: two_replies_def)
  then have c: "0 < a_completed (aggregate [two_replies])"
    by (simp add: aggregate_def add_worker_def lg_zero_def)
  have "\<forall>w \<in> set [two_replies]. length (lw_hist w) = nat (HBUCKETS + 1) \<and> sum_list (lw_hist w) = lw_completed w"
    using two done2 by (simp add: HBUCKETS_def)
  from report_percentiles [OF r c this] show ?thesis
    by (simp add: ref_system_def)
qed

end
