(* ===== verification/Control.thy ===== *)
theory Control
  imports Event_Loop C_Args
begin

text \<open>
  The control arm of the benchmark, \<open>research/control\<close>: a Go server with one accept goroutine per
  reuseport socket, one goroutine per connection, and an optional scaler that adds sockets when an
  accept queue is deep. The Go runtime and the kernel are parameters as in the C programs: each
  goroutine has a history of its calls, and answers are functions of it. The listening sockets are
  changed by one goroutine at a time (main, then the scaler), so their history is sequential.
\<close>

subsection \<open>Calls\<close>

datatype sock_opt = O_REUSEADDR | O_REUSEPORT | O_FASTOPEN | O_NODELAY | O_KEEPALIVE
  | O_KEEPIDLE | O_KEEPINTVL | O_KEEPCNT

datatype accept_result = Accepted int | TempError | PermError

datatype gcall =
    K_socket "int option" \<comment> \<open>the socket a \<open>Listen\<close> creates\<close>
  | K_setsockopt int sock_opt int bool \<comment> \<open>descriptor, option, value, success\<close>
  | K_bind int string bool \<comment> \<open>bind and listen\<close>
  | K_dup int "int option" \<comment> \<open>\<open>File\<close>: duplicate of the listener's descriptor\<close>
  | K_tcpinfo int "nat option" \<comment> \<open>getsockopt TCP_INFO: unacked\<close>
  | K_close int
  | K_finalize int \<comment> \<open>the runtime finalizes an unreachable \<open>os.File\<close>, which closes its descriptor\<close>
  | K_go_accept int \<comment> \<open>an accept goroutine is started\<close>
  | K_accept int accept_result
  | K_go_handle int \<comment> \<open>a connection goroutine is started\<close>
  | K_read int nat bool \<comment> \<open>bytes asked for, and whether the call returns\<close>
  | K_write int bytes nat bool \<comment> \<open>bytes offered, number written, error\<close>
  | K_log string

type_synonym ghistory = "gcall list"

record control_env =
  n_socket :: "ghistory \<Rightarrow> int option"
  n_control :: "ghistory \<Rightarrow> bool" \<comment> \<open>does \<open>RawConn.Control\<close> run its function\<close>
  n_setsockopt :: "ghistory \<Rightarrow> bool"
  n_bind :: "ghistory \<Rightarrow> bool"
  n_tcp :: "ghistory \<Rightarrow> bool" \<comment> \<open>is the listener or connection a TCP one\<close>
  n_dup :: "ghistory \<Rightarrow> int option"
  n_tcpinfo :: "ghistory \<Rightarrow> int \<Rightarrow> nat option"
  n_accept :: "ghistory \<Rightarrow> accept_result"
  n_syscallconn :: "ghistory \<Rightarrow> bool"
  n_gc :: "ghistory \<Rightarrow> int list" \<comment> \<open>files the runtime finalizes at this moment, if unreachable\<close>
  n_read :: "ghistory \<Rightarrow> bool" \<comment> \<open>does \<open>Read\<close> return: with data, at the end, or with an error\<close>
  n_write :: "ghistory \<Rightarrow> bytes \<Rightarrow> nat \<times> bool" \<comment> \<open>\<open>Write\<close>: bytes written, error\<close>

subsection \<open>Constants\<close>

definition replyBytes :: bytes where
  "replyBytes = ''HTTP/1.1 200 OK'' @ [CHR 0x0D, CHR 0x0A, CHR 0x0D, CHR 0x0A]"

definition floorCap :: int where "floorCap = 8"
definition highWater :: int where "highWater = 40"
definition maxSockets :: int where "maxSockets = 64"
definition readBuf :: nat where "readBuf = 512"

subsection \<open>Printing the port\<close>

text \<open>
  The digits are written from the end of a 20-byte array; \<open>None\<close> is an index out of range, which
  panics. Go's \<open>int\<close> has 64 bits, and negation wraps around.
\<close>

definition go_int :: "int \<Rightarrow> int" where
  "go_int x = signed_take_bit 63 x"

function itoa_loop :: "int \<Rightarrow> nat \<Rightarrow> bytes \<Rightarrow> (nat \<times> bytes) option" where
  "itoa_loop i pos b =
     (if 0 < i then
        if pos = 0 then None
        else itoa_loop (i div 10) (pos - 1) (b[pos - 1 := digit_char (nat (i mod 10))])
      else Some (pos, b))"
  by pat_completeness auto
termination
  by (relation "measure (\<lambda>(i, pos, b). nat i)") auto

declare itoa_loop.simps [simp del]

definition itoa :: "int \<Rightarrow> string option" where
  "itoa i =
     (if i = 0 then Some ''0''
      else do {
        let neg = i < 0;
        (pos, b) \<leftarrow> itoa_loop (if neg then go_int (- i) else i) 20 (replicate 20 CHR 0x00);
        if neg then
          if pos = 0 then None
          else Some (drop (pos - 1) (b[pos - 1 := CHR ''-'']))
        else Some (drop pos b)
      })"

subsection \<open>Listeners\<close>

record listenSocket =
  ls_ln :: int
  ls_fd :: int

record ctl_server =
  cs_port :: int
  cs_listeners :: "listenSocket list"
  cs_count :: int

definition controlListen :: "control_env \<Rightarrow> int \<Rightarrow> ghistory \<Rightarrow> bool \<times> ghistory" where
  "controlListen env fd h =
     (if \<not> n_control env h then (False, h)
      else
        let r = n_setsockopt env h; h = K_setsockopt fd O_REUSEADDR 1 r # h in
        if \<not> r then (False, h)
        else
          let r = n_setsockopt env h; h = K_setsockopt fd O_REUSEPORT 1 r # h in
          if \<not> r then (False, h)
          else (True, K_setsockopt fd O_FASTOPEN 1 (n_setsockopt env h) # h))"

text \<open>\<open>ListenConfig.Listen\<close>: the hook runs before the bind; on an error the socket is closed.\<close>

definition lc_listen :: "control_env \<Rightarrow> string \<Rightarrow> ghistory \<Rightarrow> int option \<times> ghistory" where
  "lc_listen env address h =
     (let p = n_socket env h; h = K_socket p # h in
      case p of
        None \<Rightarrow> (None, h)
      | Some fd \<Rightarrow>
          let (ok, h) = controlListen env fd h in
          if \<not> ok then (None, K_close fd # h)
          else
            let r = n_bind env h; h = K_bind fd address r # h in
            if r then (Some fd, h) else (None, K_close fd # h))"

text \<open>
  The duplicate of a listener's descriptor belongs to the \<open>os.File\<close> that \<open>File\<close> returns. \<open>rawFD\<close> keeps
  only the number: the file is unreachable once it returned, and the runtime may run its finalizer
  at any later time, which closes the descriptor (documented for \<open>os.File.Fd\<close>). \<open>files\<close> are the
  duplicates not finalized yet; all of them are unreachable.
\<close>

fun files :: "ghistory \<Rightarrow> int multiset" where
  "files [] = {#}"
| "files (K_dup ln (Some fd) # h) = add_mset fd (files h)"
| "files (K_finalize fd # h) = files h - {#fd#}"
| "files (_ # h) = files h"

definition finalizers :: "control_env \<Rightarrow> ghistory \<Rightarrow> ghistory" where
  "finalizers env h = fold (\<lambda>fd h. if fd \<in># files h then K_finalize fd # h else h) (n_gc env h) h"

definition rawFD :: "control_env \<Rightarrow> int \<Rightarrow> ghistory \<Rightarrow> int option \<times> ghistory" where
  "rawFD env ln h =
     (if \<not> n_tcp env h then (None, h)
      else let p = n_dup env h in (p, K_dup ln p # h))"

text \<open>\<open>None\<close>: printing the port panics (it never does).\<close>

definition addListener ::
  "control_env \<Rightarrow> ctl_server \<Rightarrow> ghistory \<Rightarrow> (bool \<times> ctl_server \<times> ghistory) option" where
  "addListener env s h = do {
     port \<leftarrow> itoa (cs_port s);
     case lc_listen env (CHR '':'' # port) (finalizers env h) of
       (None, h) \<Rightarrow> Some (False, s, h)
     | (Some ln, h) \<Rightarrow>
         (case rawFD env ln h of
            (None, h) \<Rightarrow> Some (False, s, K_close ln # h)
          | (Some fd, h) \<Rightarrow>
              Some (True, s\<lparr>cs_listeners := cs_listeners s @ [\<lparr>ls_ln = ln, ls_fd = fd\<rparr>],
                            cs_count := cs_count s + 1\<rparr>, K_go_accept ln # h))
   }"

subsection \<open>Connections\<close>

definition accept_body :: "control_env \<Rightarrow> int \<Rightarrow> ghistory \<Rightarrow> ghistory loop_next option" where
  "accept_body env ln h =
     (let r = n_accept env h; h = K_accept ln r # h in
      case r of
        TempError \<Rightarrow> Some (Continue h)
      | PermError \<Rightarrow> Some (Break h)
      | Accepted c \<Rightarrow> Some (Continue (K_go_handle c # h)))"

definition acceptLoop :: "control_env \<Rightarrow> int \<Rightarrow> ghistory \<Rightarrow> ghistory loop_exit option" where
  "acceptLoop env ln h = run_loop (\<lambda>h. False) (accept_body env ln) h"

definition conn_opts :: "(sock_opt \<times> int) list" where
  "conn_opts = [(O_NODELAY, 1), (O_KEEPALIVE, 1), (O_KEEPIDLE, 60), (O_KEEPINTVL, 10), (O_KEEPCNT, 5)]"

definition setConnOpts :: "control_env \<Rightarrow> int \<Rightarrow> ghistory \<Rightarrow> ghistory" where
  "setConnOpts env c h =
     (if \<not> n_tcp env h \<or> \<not> n_syscallconn env h \<or> \<not> n_control env h then h
      else fold (\<lambda>(opt, v) h. K_setsockopt c opt v (n_setsockopt env h) # h) conn_opts h)"

text \<open>\<open>writeFull\<close> goes on until everything is written or a write fails; the result is the count
  and whether there was an error. \<open>None\<close>: it never returns.\<close>

partial_function (option) writeFull ::
  "control_env \<Rightarrow> int \<Rightarrow> bytes \<Rightarrow> nat \<Rightarrow> ghistory \<Rightarrow> (nat \<times> bool \<times> ghistory) option" where
  "writeFull env c p sent h =
     (if sent < length p then
        let (n, err) = n_write env h (drop sent p);
            h = K_write c (drop sent p) n err # h;
            sent = sent + n
        in if err then Some (sent, True, h) else writeFull env c p sent h
      else Some (sent, False, h))"

text \<open>
  A connection goroutine ends, or blocks for good in \<open>Read\<close>: there is no deadline, so that is what
  becomes of a client that stays connected and silent.
\<close>

datatype conn_end = Returned ghistory | Blocked ghistory

definition handleConn :: "control_env \<Rightarrow> int \<Rightarrow> ghistory \<Rightarrow> conn_end option" where
  "handleConn env c h =
     (let h = setConnOpts env c h; ret = n_read env h; h = K_read c readBuf ret # h in
      if \<not> ret then Some (Blocked h)
      else do {
        (n, err, h) \<leftarrow> writeFull env c replyBytes 0 h;
        Some (Returned (K_close c # h))
      })"

subsection \<open>The scaler and the main function\<close>

fun deepest_loop :: "control_env \<Rightarrow> listenSocket list \<Rightarrow> int \<Rightarrow> ghistory \<Rightarrow> int \<times> ghistory" where
  "deepest_loop env [] deepest h = (deepest, h)"
| "deepest_loop env (sock # socks) deepest h =
     (let h = finalizers env h; p = n_tcpinfo env h (ls_fd sock); h = K_tcpinfo (ls_fd sock) p # h in
      case p of
        None \<Rightarrow> deepest_loop env socks deepest h
      | Some d \<Rightarrow> deepest_loop env socks (if deepest < int d then int d else deepest) h)"

definition deepestQueueDepth :: "control_env \<Rightarrow> ctl_server \<Rightarrow> ghistory \<Rightarrow> int \<times> ghistory" where
  "deepestQueueDepth env s h = deepest_loop env (cs_listeners s) 0 h"

text \<open>Adding listeners until one fails.\<close>

fun grow :: "control_env \<Rightarrow> nat \<Rightarrow> ctl_server \<Rightarrow> ghistory \<Rightarrow> (ctl_server \<times> ghistory) option" where
  "grow env 0 s h = Some (s, h)"
| "grow env (Suc n) s h = do {
     (ok, s, h) \<leftarrow> addListener env s h;
     if ok then grow env n s h else Some (s, K_log ''scaler failed to add listener'' # h)
   }"

text \<open>What the scaler does at one tick.\<close>

definition scaler_tick :: "control_env \<Rightarrow> ctl_server \<Rightarrow> ghistory \<Rightarrow> (ctl_server \<times> ghistory) option" where
  "scaler_tick env s h =
     (let (deepest, h) = deepestQueueDepth env s h in
      if deepest < highWater then Some (s, h)
      else
        let cur = cs_count s in
        if maxSockets \<le> cur then Some (s, h)
        else
          let target = cur * 2;
              target = (if maxSockets < target then maxSockets else target)
          in grow env (nat (target - cur)) s (K_log ''scaler high-water'' # h))"

fun runScaler :: "control_env \<Rightarrow> nat \<Rightarrow> ctl_server \<Rightarrow> ghistory \<Rightarrow> (ctl_server \<times> ghistory) option" where
  "runScaler env 0 s h = Some (s, h)"
| "runScaler env (Suc ticks) s h = do {
     (s, h) \<leftarrow> scaler_tick env s h;
     runScaler env ticks s h
   }"

definition control_floor :: "int \<Rightarrow> int" where
  "control_floor gomaxprocs =
     (let floor = (if floorCap < gomaxprocs then floorCap else gomaxprocs)
      in if floor < 1 then 1 else floor)"

fun add_floor :: "control_env \<Rightarrow> nat \<Rightarrow> ctl_server \<Rightarrow> ghistory \<Rightarrow> (ctl_server option \<times> ghistory) option" where
  "add_floor env 0 s h = Some (Some s, K_log ''listening'' # h)"
| "add_floor env (Suc n) s h = do {
     (ok, s, h) \<leftarrow> addListener env s h;
     if ok then add_floor env n s h else Some (None, K_log ''failed to create reuseport listener'' # h)
   }"

text \<open>
  The main function up to the point where it blocks for good; the result is \<open>None\<close> inside if
  \<open>log.Fatalf\<close> ended the program. The scaler is then \<open>runScaler\<close>, one step per tick.
\<close>

definition control_main :: "control_env \<Rightarrow> int \<Rightarrow> int \<Rightarrow> ghistory \<Rightarrow> (ctl_server option \<times> ghistory) option" where
  "control_main env gomaxprocs port h =
     add_floor env (nat (control_floor gomaxprocs)) \<lparr>cs_port = port, cs_listeners = [], cs_count = 0\<rparr> h"

subsection \<open>Printing is printing\<close>

lemma print_nat_length: "n < 10 ^ Suc k \<Longrightarrow> length (print_nat n) \<le> Suc k"
proof (induction k arbitrary: n)
  case 0
  then show ?case by (simp add: print_nat.simps [of n])
next
  case (Suc k)
  then have "n div 10 < 10 ^ Suc k"
    by (simp add: less_mult_imp_div_less mult.commute)
  from Suc.IH [OF this] show ?case
    by (simp add: print_nat.simps [of n])
qed

lemma itoa_loop_print:
  "0 < n \<Longrightarrow> length (print_nat n) \<le> pos \<Longrightarrow> pos \<le> length b \<Longrightarrow>
   itoa_loop (int n) pos b =
     Some (pos - length (print_nat n), take (pos - length (print_nat n)) b @ print_nat n @ drop pos b)"
proof (induction n arbitrary: pos b rule: print_nat.induct)
  case (1 n)
  let ?b = "b[pos - 1 := digit_char (n mod 10)]"
  have pos: "0 < pos"
    using 1(3) print_nat_not_empty [of n] by (cases pos) auto
  have step: "itoa_loop (int n) pos b = itoa_loop (int (n div 10)) (pos - 1) ?b"
    using 1(2) pos by (simp add: itoa_loop.simps [of "int n"] zdiv_int nat_mod_distrib)
  have last: "drop (pos - 1) ?b = digit_char (n mod 10) # drop pos b"
    using pos 1(4) by (simp add: drop_update_cancel Cons_nth_drop_Suc [symmetric] upd_conv_take_nth_drop)
  show ?case
  proof (cases "n < 10")
    case True
    then have "print_nat n = [digit_char (n mod 10)]"
      by (simp add: print_nat.simps [of n])
    with True step last pos 1(4) show ?thesis
      by (simp add: itoa_loop.simps [of 0]) (metis append_take_drop_id take_update_cancel order_refl last)
  next
    case False
    then have p: "print_nat n = print_nat (n div 10) @ [digit_char (n mod 10)]"
      by (simp add: print_nat.simps [of n])
    with False 1(1) [of "pos - 1" ?b] 1(3,4) pos step last show ?thesis
      by simp
  qed
qed

lemma itoa_digits:
  assumes "0 < n" and "n < 10 ^ 19"
  obtains b where "itoa_loop (int n) 20 (replicate 20 CHR 0x00) = Some (20 - length (print_nat n), b)"
    and "drop (20 - length (print_nat n)) b = print_nat n" and "length b = 20"
    and "length (print_nat n) \<le> 19"
proof -
  have len: "length (print_nat n) \<le> 19"
    using print_nat_length [of n 18] assms(2) by simp
  with itoa_loop_print [OF assms(1), of 20 "replicate 20 CHR 0x00"] that show thesis
    by simp
qed

text \<open>
  \<open>itoa\<close> prints like the reference for every 64-bit integer but the smallest, of which it prints
  the sign only; it never indexes out of range.
\<close>

lemma itoa_print:
  assumes "- (2 ^ 63) < i" and "i < 2 ^ 63"
  shows "itoa i = Some (print_int i)"
proof (cases "i = 0")
  case True
  moreover have "digit_char 0 = CHR ''0''"
    by code_simp
  ultimately show ?thesis
    by (simp add: itoa_def print_int_def print_nat.simps)
next
  case False
  define n where "n = nat \<bar>i\<bar>"
  have n: "0 < n" "n < 10 ^ 19" "int n = \<bar>i\<bar>"
    using False assms by (auto simp: n_def)
  obtain b where b: "itoa_loop (int n) 20 (replicate 20 CHR 0x00) = Some (20 - length (print_nat n), b)"
    "drop (20 - length (print_nat n)) b = print_nat n" "length b = 20" "length (print_nat n) \<le> 19"
    by (rule itoa_digits [OF n(1,2)])
  define k where "k = 20 - length (print_nat n)"
  have k: "0 < k" "k \<le> 20"
    using b(4) by (simp_all add: k_def)
  have "go_int (- i) = - i" if "i < 0"
    using assms by (simp add: go_int_def signed_take_bit_int_eq_self)
  moreover have "drop (k - 1) (b[k - 1 := x]) = x # print_nat n" for x
    using b(2,3) k by (simp add: k_def [symmetric] upd_conv_take_nth_drop)
  moreover have "i < 0 \<Longrightarrow> nat (- i) = n" "\<not> i < 0 \<Longrightarrow> nat i = n"
    by (simp_all add: n_def)
  ultimately show ?thesis
    using False n(3) b(1,2) k
    by (cases "i < 0") (simp_all add: itoa_def print_int_def k_def [symmetric])
qed

lemma itoa_min: "itoa (- (2 ^ 63)) = Some ''-''"
  by code_simp

lemma itoa_defined:
  assumes "- (2 ^ 63) \<le> i" and "i < 2 ^ 63"
  shows "\<exists>s. itoa i = Some s"
  using assms itoa_print [of i] itoa_min by (cases "i = - (2 ^ 63)") auto

lemma itoa_read: "- (2 ^ 63) < i \<Longrightarrow> i < 2 ^ 63 \<Longrightarrow> map_option strtol10 (itoa i) = Some i"
  by (simp add: itoa_print strtol_print LONG_MAX_def)

subsection \<open>The listening sockets\<close>

text \<open>Descriptors opened and not closed.\<close>

fun open_socks :: "ghistory \<Rightarrow> int multiset" where
  "open_socks [] = {#}"
| "open_socks (K_socket (Some fd) # h) = add_mset fd (open_socks h)"
| "open_socks (K_dup ln (Some fd) # h) = add_mset fd (open_socks h)"
| "open_socks (K_close fd # h) = open_socks h - {#fd#}"
| "open_socks (K_finalize fd # h) = open_socks h - {#fd#}"
| "open_socks (_ # h) = open_socks h"

abbreviation own_fds :: "ctl_server \<Rightarrow> int multiset" where
  "own_fds s \<equiv> image_mset ls_ln (mset (cs_listeners s))"

abbreviation dup_fds :: "ctl_server \<Rightarrow> int multiset" where
  "dup_fds s \<equiv> image_mset ls_fd (mset (cs_listeners s))"

lemma controlListen_open:
  "controlListen env fd h = (ok, h') \<Longrightarrow> open_socks h' = open_socks h \<and> files h' = files h"
  by (auto simp: controlListen_def Let_def split: if_splits)

lemma lc_listen_open:
  assumes "lc_listen env address h = (p, h')"
  shows "open_socks h' = mset_set (set_option p) + open_socks h \<and> files h' = files h"
proof (cases "n_socket env h")
  case None
  with assms show ?thesis by (auto simp: lc_listen_def)
next
  case (Some fd)
  obtain ok h1 where c: "controlListen env fd (K_socket (Some fd) # h) = (ok, h1)"
    by (cases "controlListen env fd (K_socket (Some fd) # h)")
  have "(p, h') = (if \<not> ok then (None, K_close fd # h1)
      else if n_bind env h1 then (Some fd, K_bind fd address True # h1)
      else (None, K_close fd # K_bind fd address False # h1))"
    using assms Some c unfolding lc_listen_def Let_def by (auto split: if_splits)
  with controlListen_open [OF c] show ?thesis
    by (simp split: if_splits)
qed

text \<open>
  The server counts its sockets; the descriptors open are its listeners' own, and those duplicates
  that were not finalized.
\<close>

definition ctl_inv :: "ctl_server \<Rightarrow> ghistory \<Rightarrow> bool" where
  "ctl_inv s h \<longleftrightarrow> cs_count s = int (length (cs_listeners s)) \<and>
     open_socks h = own_fds s + files h \<and> files h \<subseteq># dup_fds s"

lemma ctl_inv_log [simp]: "ctl_inv s (K_log e # h) = ctl_inv s h" "ctl_inv s (K_tcpinfo fd p # h) = ctl_inv s h"
  by (simp_all add: ctl_inv_def)

lemma finalize_inv: "ctl_inv s h \<Longrightarrow> fd \<in># files h \<Longrightarrow> ctl_inv s (K_finalize fd # h)"
proof -
  assume inv: "ctl_inv s h" and fd: "fd \<in># files h"
  have "files h - {#fd#} \<subseteq># dup_fds s"
    by (rule subset_mset.order_trans [OF diff_subset_eq_self]) (use inv in \<open>simp add: ctl_inv_def\<close>)
  moreover have "own_fds s + files h - {#fd#} = own_fds s + (files h - {#fd#})"
    by (rule diff_union_single_conv [OF fd])
  ultimately show ?thesis
    using inv by (simp add: ctl_inv_def)
qed

lemma finalizers_inv: "ctl_inv s h \<Longrightarrow> ctl_inv s (finalizers env h)"
proof -
  have "ctl_inv s (fold (\<lambda>fd h. if fd \<in># files h then K_finalize fd # h else h) fds h)"
    if "ctl_inv s h" for fds h
    using that by (induction fds arbitrary: h) (simp_all add: finalize_inv)
  then show "ctl_inv s h \<Longrightarrow> ctl_inv s (finalizers env h)"
    by (simp add: finalizers_def)
qed

lemma addListener_inv:
  assumes "addListener env s h = Some (ok, s', h')" and "ctl_inv s h"
  shows "ctl_inv s' h'" and "ok \<Longrightarrow> \<exists>l. cs_listeners s' = cs_listeners s @ [l]" and "\<not> ok \<Longrightarrow> s' = s"
  using assms(1) finalizers_inv [OF assms(2), of env]
  by (auto simp: addListener_def rawFD_def ctl_inv_def Let_def dest!: lc_listen_open
      split: bind_splits prod.splits option.splits if_splits intro: subset_mset.order_trans)

lemma grow_inv:
  assumes "grow env n s h = Some (s', h')" and "ctl_inv s h"
  shows "ctl_inv s' h' \<and> prefix (cs_listeners s) (cs_listeners s') \<and>
    length (cs_listeners s') \<le> length (cs_listeners s) + n"
  using assms
proof (induction n arbitrary: s h)
  case (Suc n)
  then obtain ok s1 h1 where a: "addListener env s h = Some (ok, s1, h1)"
    by (auto split: bind_splits)
  note inv = addListener_inv [OF a Suc.prems(2)]
  show ?case
  proof (cases ok)
    case True
    with inv(2) obtain l where "cs_listeners s1 = cs_listeners s @ [l]"
      by blast
    with Suc.IH [of s1 h1] Suc.prems(1) a inv(1) True show ?thesis
      by (auto intro: append_prefixD)
  next
    case False
    with Suc.prems(1) a inv show ?thesis by auto
  qed
qed simp

lemma deepest_inv: "deepest_loop env socks d h = (d', h') \<Longrightarrow> ctl_inv s h \<Longrightarrow> ctl_inv s h'"
proof (induction socks arbitrary: d h)
  case (Cons sock socks)
  then show ?case
    using finalizers_inv [OF Cons.prems(2), of env] by (auto simp: Let_def split: option.splits)
qed simp

lemma scaler_tick_inv:
  assumes "scaler_tick env s h = Some (s', h')" and "ctl_inv s h" and "cs_count s \<le> maxSockets"
  shows "ctl_inv s' h' \<and> prefix (cs_listeners s) (cs_listeners s') \<and> cs_count s' \<le> maxSockets"
proof -
  obtain d h1 where d: "deepestQueueDepth env s h = (d, h1)"
    by (cases "deepestQueueDepth env s h")
  have inv: "ctl_inv s h1"
    using deepest_inv assms(2) d by (simp add: deepestQueueDepth_def)
  show ?thesis
  proof (cases "d < highWater \<or> maxSockets \<le> cs_count s")
    case True
    then have "scaler_tick env s h = Some (s, h1)"
      using d by (auto simp: scaler_tick_def Let_def)
    with assms inv show ?thesis
      by simp
  next
    case False
    define n where "n = nat ((if maxSockets < cs_count s * 2 then maxSockets else cs_count s * 2) - cs_count s)"
    have "grow env n s (K_log ''scaler high-water'' # h1) = Some (s', h')"
      using assms(1) d False by (simp add: scaler_tick_def Let_def n_def)
    from grow_inv [OF this] inv False assms(3) show ?thesis
      by (auto simp: ctl_inv_def n_def split: if_splits)
  qed
qed

lemma runScaler_inv:
  assumes "runScaler env ticks s h = Some (s', h')" and "ctl_inv s h" and "cs_count s \<le> maxSockets"
  shows "ctl_inv s' h' \<and> prefix (cs_listeners s) (cs_listeners s') \<and> cs_count s' \<le> maxSockets"
  using assms
proof (induction ticks arbitrary: s h)
  case (Suc ticks)
  then obtain s1 h1 where t: "scaler_tick env s h = Some (s1, h1)" "runScaler env ticks s1 h1 = Some (s', h')"
    by (auto split: bind_splits)
  from scaler_tick_inv [OF t(1) Suc.prems(2,3)] Suc.IH [OF t(2)] show ?case
    by (auto intro: prefix_order.trans)
qed simp

lemma add_floor_inv:
  assumes "add_floor env n s h = Some (Some s', h')" and "ctl_inv s h"
  shows "ctl_inv s' h' \<and> length (cs_listeners s') = length (cs_listeners s) + n"
  using assms
proof (induction n arbitrary: s h)
  case (Suc n)
  then obtain s1 h1 where a: "addListener env s h = Some (True, s1, h1)" "add_floor env n s1 h1 = Some (Some s', h')"
    by (auto split: bind_splits if_splits)
  from addListener_inv [OF a(1) Suc.prems(2)] Suc.IH [OF a(2)] show ?case
    by auto
qed auto

lemma control_floor_bounds: "control_floor g = max 1 (min g 8)"
  by (simp add: control_floor_def floorCap_def Let_def)

subsection \<open>A connection\<close>

text \<open>What a history says was sent on the connection.\<close>

fun k_sent :: "ghistory \<Rightarrow> bytes" where
  "k_sent [] = []"
| "k_sent (K_write c p n err # h) = k_sent h @ take n p"
| "k_sent (_ # h) = k_sent h"

fun write_failed :: "ghistory \<Rightarrow> bool" where
  "write_failed [] = False"
| "write_failed (K_write c p n err # h) = (err \<or> write_failed h)"
| "write_failed (_ # h) = write_failed h"

text \<open>The contract of a writer: it writes no more than it was given, and something or an error.\<close>

definition writer_ok :: "control_env \<Rightarrow> bool" where
  "writer_ok env \<longleftrightarrow> (\<forall>h p. p \<noteq> [] \<longrightarrow> fst (n_write env h p) \<le> length p \<and>
     (fst (n_write env h p) = 0 \<longrightarrow> snd (n_write env h p)))"

lemma writeFull_returns:
  assumes "writer_ok env" and "sent \<le> length p" and "k_sent h = take sent p" and "\<not> write_failed h"
    and "K_close c \<notin> set h"
  shows "\<exists>n err h'. writeFull env c p sent h = Some (n, err, h') \<and> n \<le> length p \<and> k_sent h' = take n p \<and>
    (err = write_failed h') \<and> (\<not> err \<longrightarrow> n = length p) \<and> set h \<subseteq> set h' \<and> K_close c \<notin> set h'"
  using assms(2-5)
proof (induction "length p - sent" arbitrary: sent h rule: less_induct)
  case less
  show ?case
  proof (cases "sent < length p")
    case False
    with less.prems show ?thesis
      by (auto simp: writeFull.simps)
  next
    case True
    obtain n err where w: "n_write env h (drop sent p) = (n, err)"
      by (cases "n_write env h (drop sent p)")
    have n: "n \<le> length p - sent" "n = 0 \<Longrightarrow> err"
      using assms(1) w True by (auto simp: writer_ok_def dest!: spec [of _ h] spec [of _ "drop sent p"])
    let ?h = "K_write c (drop sent p) n err # h"
    have sent: "k_sent ?h = take (sent + n) p"
      using less.prems(2) by (simp add: take_add)
    show ?thesis
    proof (cases err)
      case True
      then have "writeFull env c p sent h = Some (sent + n, True, ?h)"
        using \<open>sent < length p\<close> w by (simp add: writeFull.simps [of env c p sent h])
      with True n(1) sent \<open>sent < length p\<close> less.prems(4) show ?thesis
        by (intro exI [of _ "sent + n"] exI [of _ True] exI [of _ ?h]) auto
    next
      case False
      with n(2) have "0 < n"
        by blast
      then have "length p - (sent + n) < length p - sent"
        using True by linarith
      moreover have "sent + n \<le> length p" "\<not> write_failed ?h" "K_close c \<notin> set ?h"
        using n(1) True False less.prems(3,4) by auto
      moreover have "writeFull env c p sent h = writeFull env c p (sent + n) ?h"
        using True False w by (simp add: writeFull.simps [of env c p sent h])
      ultimately show ?thesis
        using less.hyps [of "sent + n" ?h] sent by fastforce
    qed
  qed
qed

lemma setConnOpts_quiet:
  "k_sent (setConnOpts env c h) = k_sent h" "write_failed (setConnOpts env c h) = write_failed h"
  by (simp_all add: setConnOpts_def conn_opts_def)

lemma setConnOpts_sets:
  assumes "n_tcp env h" and "n_syscallconn env h" and "n_control env h"
  shows "\<forall>(opt, v) \<in> set conn_opts. \<exists>r. K_setsockopt c opt v r \<in> set (setConnOpts env c h)"
  using assms by (auto simp: setConnOpts_def conn_opts_def)

subsection \<open>Accepting\<close>

fun accepted_conns :: "ghistory \<Rightarrow> int list" where
  "accepted_conns [] = []"
| "accepted_conns (K_accept ln (Accepted c) # h) = c # accepted_conns h"
| "accepted_conns (_ # h) = accepted_conns h"

fun dispatched :: "ghistory \<Rightarrow> int list" where
  "dispatched [] = []"
| "dispatched (K_go_handle c # h) = c # dispatched h"
| "dispatched (_ # h) = dispatched h"

text \<open>The accept loop is one more event loop; it starts one goroutine per accepted connection.\<close>

interpretation control_accept: event_loop "\<lambda>h. False" "accept_body env ln"
  "\<lambda>h. dispatched h = accepted_conns h" length
  by unfold_locales (auto simp: accept_body_def Let_def split: accept_result.splits)

lemma acceptLoop_dispatches:
  assumes "loop_head (\<lambda>h. False) (accept_body env ln) [] h"
  shows "dispatched h = accepted_conns h"
  using control_accept.head_inv [OF assms] by simp

lemma acceptLoop_returns:
  assumes "\<And>h. n \<le> length h \<Longrightarrow> n_accept env h = PermError"
  shows "\<exists>h. acceptLoop env ln [] = Some (Exited h) \<and> dispatched h = accepted_conns h"
  unfolding acceptLoop_def
  by (rule control_accept.returns_or_breaks [where n = n]) (simp_all add: accept_body_def assms)

subsection \<open>Properties\<close>

text \<open>
  C19. The listening sockets of the control arm: the main function opens one per processor, at
  least one and at most 8; whatever the scaler does, at every tick, sockets are only added, never
  more than 64 in all, and the counter is their number. The descriptors open are the listeners' own,
  all of them, and at most one duplicate of each, so that an attempt that fails half-way leaves
  nothing open. The duplicates need not be there: a finalizer may have closed them (the comment in
  \<open>rawFD\<close> says that they stay valid for the life of the process).
\<close>

theorem control_sockets_bounded:
  assumes "control_main env gomaxprocs port [] = Some (Some s, h1)"
    and "runScaler env ticks s h1 = Some (s', h2)"
  shows "int (length (cs_listeners s)) = max 1 (min gomaxprocs 8) \<and> prefix (cs_listeners s) (cs_listeners s') \<and>
     cs_count s' = int (length (cs_listeners s')) \<and> length (cs_listeners s') \<le> 64 \<and>
     open_socks h2 = image_mset ls_ln (mset (cs_listeners s')) + files h2 \<and>
     files h2 \<subseteq># image_mset ls_fd (mset (cs_listeners s'))"
proof -
  have "ctl_inv \<lparr>cs_port = port, cs_listeners = [], cs_count = 0\<rparr> []"
    by (simp add: ctl_inv_def)
  from add_floor_inv [OF assms(1) [unfolded control_main_def] this]
  have main: "ctl_inv s h1" "int (length (cs_listeners s)) = max 1 (min gomaxprocs 8)"
    by (simp_all add: control_floor_bounds)
  then have "cs_count s \<le> maxSockets"
    by (simp add: ctl_inv_def maxSockets_def)
  from runScaler_inv [OF assms(2) main(1) this] main(2) show ?thesis
    by (simp add: ctl_inv_def maxSockets_def)
qed

text \<open>
  A tick at which no duplicate can be asked any more changes nothing, however deep the queues are.
\<close>

lemma blind_scaler:
  assumes "\<forall>h fd. n_tcpinfo env h fd = None"
  shows "\<exists>h'. scaler_tick env s h = Some (s, h')"
proof -
  have "fst (deepest_loop env socks d h) = d" for socks d h
    by (induction socks arbitrary: h) (simp_all add: assms Let_def)
  then have "fst (deepestQueueDepth env s h) = 0"
    by (simp add: deepestQueueDepth_def)
  then obtain h' where "deepestQueueDepth env s h = (0, h')"
    by (cases "deepestQueueDepth env s h") simp
  then show ?thesis
    by (simp add: scaler_tick_def highWater_def)
qed

text \<open>An environment in which everything works, the accept queues are deep and no file is finalized.\<close>

definition busy_go :: control_env where
  "busy_go = \<lparr>n_socket = (\<lambda>h. Some (int (length h))), n_control = (\<lambda>h. True), n_setsockopt = (\<lambda>h. True),
     n_bind = (\<lambda>h. True), n_tcp = (\<lambda>h. True), n_dup = (\<lambda>h. Some (int (length h))), n_tcpinfo = (\<lambda>h fd. Some 100),
     n_accept = (\<lambda>h. PermError), n_syscallconn = (\<lambda>h. True), n_gc = (\<lambda>h. []), n_read = (\<lambda>h. True),
     n_write = (\<lambda>h p. (min 10 (length p), False))\<rparr>"

lemma busy_go_run:
  "map_option (\<lambda>(p, h). map_option (\<lambda>s. map_option (\<lambda>(s', h'). length (cs_listeners s')) (runScaler busy_go 2 s h)) p)
     (control_main busy_go 1 30 []) = Some (Some (Some 4))"
  by code_simp

theorem control_sockets_bounded_witness:
  "\<exists>s h1 s' h2. control_main busy_go 1 30 [] = Some (Some s, h1) \<and> runScaler busy_go 2 s h1 = Some (s', h2) \<and>
     length (cs_listeners s') = 4 \<and> cs_count s' = 4 \<and> files h2 \<subseteq># image_mset ls_fd (mset (cs_listeners s'))"
proof -
  obtain s h1 s' h2 where r: "control_main busy_go 1 30 [] = Some (Some s, h1)"
    "runScaler busy_go 2 s h1 = Some (s', h2)" "length (cs_listeners s') = 4"
    using busy_go_run by (auto simp del: runScaler.simps)
  from control_sockets_bounded [OF r(1,2)] r show ?thesis
    by auto
qed

lemma handleConn_ends:
  assumes "writer_ok env" and "n_read env (setConnOpts env c [])"
  shows "\<exists>h. handleConn env c [] = Some (Returned (K_close c # h)) \<and> prefix (k_sent h) replyBytes \<and>
     (\<not> write_failed h \<longrightarrow> k_sent h = replyBytes) \<and> K_read c readBuf True \<in> set h \<and> K_close c \<notin> set h"
proof -
  let ?h = "K_read c readBuf True # setConnOpts env c []"
  have "K_close c \<notin> set ?h"
    by (simp add: setConnOpts_def conn_opts_def)
  with writeFull_returns [OF assms(1), of 0 replyBytes ?h c] setConnOpts_quiet [of env c "[]"]
  obtain n err h where h: "writeFull env c replyBytes 0 ?h = Some (n, err, h)" "k_sent h = take n replyBytes"
    "err = write_failed h" "\<not> err \<longrightarrow> n = length replyBytes" "set ?h \<subseteq> set h" "K_close c \<notin> set h"
    by auto
  then show ?thesis
    using assms(2) by (auto simp: handleConn_def Let_def take_is_prefix)
qed

lemma handleConn_blocks:
  assumes "\<not> n_read env (setConnOpts env c [])"
  shows "\<exists>h. handleConn env c [] = Some (Blocked h) \<and> k_sent h = [] \<and> K_close c \<notin> set h"
  using assms setConnOpts_quiet [of env c "[]"]
  by (simp add: handleConn_def Let_def) (simp add: setConnOpts_def conn_opts_def)

text \<open>
  C28. A connection of the control arm is served once its client was heard. If the one \<open>Read\<close>
  returns (with bytes, at the end of the stream or with an error), and with a writer that makes progress
  or reports an error, however short its writes, the connection goroutine returns; it closes the
  connection as its last call, having sent a prefix of the 19-byte reply, and the whole reply unless
  a write failed. A client that stays connected and silent is never answered and never closed:
  the read has no deadline, and the goroutine blocks with its connection open and nothing sent.
\<close>

theorem control_conn_served:
  assumes "writer_ok env"
  shows "if n_read env (setConnOpts env c [])
     then \<exists>h. handleConn env c [] = Some (Returned (K_close c # h)) \<and> prefix (k_sent h) replyBytes \<and>
       (\<not> write_failed h \<longrightarrow> k_sent h = replyBytes) \<and> K_read c readBuf True \<in> set h \<and> K_close c \<notin> set h
     else \<exists>h. handleConn env c [] = Some (Blocked h) \<and> k_sent h = [] \<and> K_close c \<notin> set h"
  using handleConn_ends [OF assms, of c] handleConn_blocks [of env c] by simp

lemma busy_go_writer: "writer_ok busy_go"
  by (simp add: writer_ok_def busy_go_def)

theorem control_conn_served_witness:
  "\<exists>h. handleConn busy_go 7 [] = Some (Returned (K_close 7 # h)) \<and> k_sent h = replyBytes"
proof -
  have "n_read busy_go h" for h
    by (simp add: busy_go_def)
  then obtain h where h: "handleConn busy_go 7 [] = Some (Returned (K_close 7 # h))" "\<not> write_failed h \<longrightarrow> k_sent h = replyBytes"
    using control_conn_served [OF busy_go_writer, of 7] by auto
  moreover have "map_option (\<lambda>e. case e of Returned h \<Rightarrow> write_failed h | Blocked h \<Rightarrow> True) (handleConn busy_go 7 []) = Some False"
    by (simp add: handleConn_def setConnOpts_def conn_opts_def busy_go_def replyBytes_def writeFull.simps)
  ultimately show ?thesis
    by auto
qed

end
