(* ===== verification/Exchange.thy ===== *)
theory Exchange
  imports Treat_Props Echo Control Loadgen_Props
begin

text \<open>
  The programs together: the bytes each of the three servers of the repository sends to a client,
  and the load generator on the other side of the connection, which reads them in chunks of any
  size and validates them.
\<close>

subsection \<open>What the servers send\<close>

inductive served :: "bytes \<Rightarrow> bool" where
  by_benchmark: "treat_idle w \<Longrightarrow> treat_heads env w v \<Longrightarrow> (fd, b) \<in> set (transmitted (wc_log v)) \<Longrightarrow> served b"
| by_example: "fa_server_new os (Some (echo_config opts)) (Some echo_handler) () h = (Some s, h') \<Longrightarrow>
    os_ready os h \<Longrightarrow> w \<in> set (srv_workers s) \<Longrightarrow> malloc_fresh (tenv i) \<Longrightarrow> kernel_ok (tenv i) \<Longrightarrow>
    fa_ring_setup (thread_env tenv s i) (fa_server.truncate s) w = (True, w1) \<Longrightarrow>
    fa_heads (thread_env tenv s i) (fa_server.truncate s) w1 v \<Longrightarrow>
    (fd, b) \<in> set (transmitted (w_log v)) \<Longrightarrow> served b"
| by_control: "writer_ok env \<Longrightarrow> handleConn env c [] = Some (Returned (K_close c # h)) \<Longrightarrow> \<not> write_failed h \<Longrightarrow>
    served (k_sent h)"

lemma served_reply: "served b \<Longrightarrow> b = REPLY"
proof (induction rule: served.induct)
  case (by_benchmark w env v fd b)
  from treat_payload [OF this] show ?case
    by (simp add: TREAT_REPLY_def REPLY_def)
next
  case (by_example os opts h s h' w tenv i w1 v fd b)
  from echo_payload [OF this] show ?case
    by (simp add: ECHO_REPLY_def REPLY_def)
next
  case (by_control env c h)
  from by_control(2) have "n_read env (setConnOpts env c [])"
    using handleConn_blocks [of env c] by auto
  from handleConn_ends [OF by_control(1) this] by_control show ?case
    by (auto simp: replyBytes_def REPLY_def)
qed

subsection \<open>What the client counts\<close>

text \<open>The connection on \<open>fd\<close> delivers the bytes \<open>b\<close>, from the history \<open>h0\<close> on.\<close>

definition delivers :: "loadgen_env \<Rightarrow> lhistory \<Rightarrow> int \<Rightarrow> bytes \<Rightarrow> bool" where
  "delivers env h0 fd b \<longleftrightarrow> prefix (heard h0 fd) b \<and>
     (\<forall>h len bs n. suffix h0 h \<longrightarrow> prefix (heard h fd) b \<longrightarrow> g_read env h len = (bs, n) \<longrightarrow>
        prefix (heard h fd @ bs) b)"

text \<open>No reply was found wrong.\<close>

definition faultless :: "worker_t \<Rightarrow> worker_t \<Rightarrow> bool" where
  "faultless w w' \<longleftrightarrow> lw_failed w' F_WRONGBYTES = lw_failed w F_WRONGBYTES \<and>
     lw_sampled_bad w' = lw_sampled_bad w"

lemma resolve_fail_counts:
  assumes "resolve_fail r a st = Some (x, st')"
  shows "t_w st' = count_fail r 1 (t_w st)"
  using assms by (auto simp: resolve_fail_def conn_fail_def free_conn_def conn_shut_def Let_def split: bind_splits if_splits)

lemma resolve_fail_faultless:
  "resolve_fail r a st = Some (x, st') \<Longrightarrow> r \<noteq> F_WRONGBYTES \<Longrightarrow> faultless (t_w st) (t_w st')"
  by (drule resolve_fail_counts) (simp add: faultless_def count_fail_def)

lemma validate_faultless:
  assumes "validate env a c st = Some (x, st')" and "\<not> reply_bad c"
  shows "faultless (t_w st) (t_w st')" and "lw_completed (t_w st') = lw_completed (t_w st) + 1"
  using assms
  by (auto simp: validate_def conn_done_def us_since_def hist_add_def free_conn_def conn_shut_def count_sample_def
      faultless_def Let_def split: bind_splits if_splits)

lemma reply_good: "take 19 (c_rbuf c) = REPLY \<Longrightarrow> length (c_rbuf c) = 64 \<Longrightarrow> \<not> reply_bad c"
proof -
  assume t: "take 19 (c_rbuf c) = REPLY" and l: "length (c_rbuf c) = 64"
  have "c_rbuf c ! i = REPLY ! i" if "i < 19" for i
    using t that by (metis nth_take)
  from this [of 0] this [of 18] t show ?thesis
    by (simp add: reply_bad_def REPLY_LEN_def REPLY_def)
qed

lemma delivers_read:
  assumes "delivers env h fd b" and "g_read env h len = (bs, n)"
  shows "delivers env (L_read fd len bs n # h) fd b"
  using assms by (auto simp: delivers_def suffix_ConsD)

text \<open>What one call of the read loop may do to the counters: nothing yet, a broken connection, or a
  completed one.\<close>

definition good_outcome :: "worker_t \<Rightarrow> int option \<times> lg_thread \<Rightarrow> bool" where
  "good_outcome w out \<longleftrightarrow> (case out of (r, st') \<Rightarrow> faultless w (t_w st') \<and>
     (r = Some 0 \<and> t_w st' = w \<or>
      r = Some 1 \<and> (\<exists>reason \<in> {F_TRUNC, F_RESET, F_OTHER}. t_w st' = count_fail reason 1 w) \<or>
      r = Some 1 \<and> lw_completed (t_w st') = lw_completed w + 1))"

lemma resolve_fail_outcome:
  assumes "resolve_fail r a st = Some out" and "r \<in> {F_TRUNC, F_RESET, F_OTHER}"
  shows "good_outcome (t_w st) out"
proof -
  obtain x st' where out: "out = (x, st')"
    by (cases out)
  have "x = Some 1"
    using assms(1) by (auto simp: resolve_fail_def out split: bind_splits)
  moreover note resolve_fail_counts [OF assms(1) [unfolded out]]
  moreover have "faultless (t_w st) (t_w st')"
    using resolve_fail_faultless [OF assms(1) [unfolded out]] assms(2) by auto
  ultimately show ?thesis
    using assms(2) by (auto simp: good_outcome_def out)
qed

lemma read_loop_complete:
  assumes "lg_inv st" and "t_heap st a = Some c" and "c_state c = 2" and "\<not> c_got c < REPLY_LEN"
    and "delivers env (t_log st) (c_fd c) REPLY" and "read_loop env a st = Some out"
  shows "good_outcome (t_w st) out"
proof -
  have ok: "conn_ok (t_log st) a c"
    by (rule lg_inv_conn [OF assms(1,2)])
  then have buf: "heard (t_log st) (c_fd c) = take 19 (c_rbuf c)" "length (c_rbuf c) = 64"
    using assms(4) by (simp_all add: conn_ok_def REPLY_LEN_def SIZEOF_RBUF_def)
  obtain zs where zs: "REPLY = take 19 (c_rbuf c) @ zs"
    using assms(5) buf(1) by (auto simp: delivers_def prefix_def)
  from arg_cong [OF this, of length] have "zs = []"
    using buf(2) by (simp add: REPLY_def)
  with zs buf(2) have good: "\<not> reply_bad c"
    by (intro reply_good) simp_all
  obtain x st' where out: "out = (x, st')"
    by (cases out)
  from assms(2,4,6) have v: "validate env a c st = Some (x, st')"
    by (simp add: read_loop.simps [of env a st] out)
  then have "x = Some 1"
    using good by (auto simp: validate_def Let_def split: bind_splits)
  with validate_faultless [OF v good] show ?thesis
    by (simp add: good_outcome_def out)
qed

lemma read_loop_outcome:
  assumes "lg_contract env" and "lg_inv st" and "t_heap st a = Some c" and "c_state c = 2"
    and "delivers env (t_log st) (c_fd c) REPLY" and "read_loop env a st = Some out"
  shows "good_outcome (t_w st) out"
  using assms(2-6)
proof (induction "nat (REPLY_LEN - c_got c)" arbitrary: c st rule: less_induct)
  case less
  note inv = less.prems(1) and c = less.prems(2)
  show ?case
  proof (cases "c_got c < REPLY_LEN")
    case False
    from read_loop_complete [OF inv c less.prems(3) False less.prems(4,5)] show ?thesis .
  next
    case True
    obtain bs n where rd: "g_read env (t_log st) (nat (REPLY_LEN - c_got c)) = (bs, n)"
      by (cases "g_read env (t_log st) (nat (REPLY_LEN - c_got c))")
    note k = lg_contractD(7) [OF assms(1) rd] and dl = delivers_read [OF less.prems(4) rd]
    have size: "0 \<le> c_got c" "length (c_rbuf c) = 64"
      using lg_inv_conn [OF inv c] by (simp_all add: conn_ok_def SIZEOF_RBUF_def)
    show ?thesis
    proof (cases "0 < n")
      case pos: True
      then have n: "n = int (length bs)" "length bs \<le> nat (REPLY_LEN - c_got c)"
        using k by auto
      have room: "\<not> length (c_rbuf c) < nat (c_got c) + length bs"
        using size n True unfolding REPLY_LEN_def by linarith
      let ?c = "c\<lparr>c_rbuf := store_at (nat (c_got c)) bs (c_rbuf c), c_got := c_got c + int (length bs)\<rparr>"
      let ?st = "upd_conn a ?c (lcall (L_read (c_fd c) (nat (REPLY_LEN - c_got c)) bs n) st)"
      have "read_loop env a ?st = Some out"
        using less.prems(5) read_loop_more [OF c True rd pos room] n(1) by simp
      then have "good_outcome (t_w ?st) out"
        by (intro less.hyps [of ?c])
          (use pos n True dl less.prems(3) read_step [OF inv c less.prems(3) n(2) True] in simp_all)
      then show ?thesis by simp
    next
      case False
      then have bs: "bs = []" "n \<le> 0"
        using k by auto
      have room: "\<not> length (c_rbuf c) < nat (c_got c)"
        using size True unfolding REPLY_LEN_def by linarith
      define st1 where "st1 = lcall (L_read (c_fd c) (nat (REPLY_LEN - c_got c)) [] n) st"
      from less.prems(5) show ?thesis
        using resolve_fail_outcome [of _ a st1 out] read_loop_stop [OF c True _ bs(2) room st1_def] rd bs(1)
        by (auto simp: good_outcome_def faultless_def st1_def split: if_splits)
    qed
  qed
qed

lemma handle_reads:
  assumes "t_heap st a = Some c" and "c_state c = 2" and "ev AND (EPOLLERR OR EPOLLHUP) = 0"
  shows "handle env a ev st = read_loop env a st"
  using assms
  by (simp add: handle_def and_then_def handle_connecting_def handle_writing_def handle_reading_def)

lemma read_loop_defined:
  assumes "lg_contract env" and "lg_inv st" and "t_heap st a = Some c" and "c_state c = 2"
  shows "\<exists>out. read_loop env a st = Some out"
  using read_loop_ok [OF assms] by (auto simp: stage_ok_def)

subsection \<open>A client on the other side of a server\<close>

definition waiting_conn :: conn_t where
  "waiting_conn = \<lparr>c_fd = 4, c_state = 2, c_got = 0, c_sent = REQ_LEN, c_sampled = True,
     c_rbuf = replicate SIZEOF_RBUF (CHR 0x00), c_t0 = (0, 0)\<rparr>"

definition waiting_client :: lg_thread where
  "waiting_client = (snd (lg_enter ref_loadgen ref_worker))
     \<lparr>t_heap := [0 \<mapsto> waiting_conn], t_inflight := 1, t_w := ref_worker\<lparr>lw_offered := 1\<rparr>,
      t_log := [L_epoll_ctl EPOLL_CTL_MOD 4 EPOLLIN (Some 0), L_write 4 REQUEST REQ_LEN,
        L_epoll_ctl EPOLL_CTL_ADD 4 EPOLLOUT (Some 0), L_connect 4 EINPROGRESS, L_calloc (Some 0), L_socket 4]\<rparr>"

text \<open>The reply arrives in chunks of seven bytes.\<close>

definition seven_bytes :: loadgen_env where
  "seven_bytes = ref_loadgen\<lparr>g_read := \<lambda>h len.
     let bs = take (min len 7) (drop (length (heard h 4)) REPLY) in (bs, int (length bs))\<rparr>"

lemma seven_bytes_contract: "lg_contract seven_bytes"
  using ref_loadgen_contract by (simp add: lg_contract_def seven_bytes_def Let_def) auto

lemma waiting_client_inv: "lg_inv waiting_client"
  by (auto simp: lg_inv_def waiting_client_def waiting_conn_def conn_ok_def counted_def ref_worker_def
      lg_enter_def REQ_LEN_def REPLY_LEN_def SIZEOF_RBUF_def HBUCKETS_def failures_def F_REASONS_def REQUEST_def
      sum_list_replicate now_s_def Let_def split: if_splits)

lemma seven_bytes_delivers: "delivers seven_bytes (t_log waiting_client) 4 REPLY"
proof -
  have "prefix (xs @ take k (drop (length xs) b)) b" if "prefix xs b" for xs b :: bytes and k
    using that by (auto simp: prefix_def) (metis append_take_drop_id)
  then show ?thesis
    by (auto simp: delivers_def seven_bytes_def Let_def waiting_client_def)
qed

end
