(* ===== verification/Package_Test.thy ===== *)
theory Package_Test
  imports Server C_Args
begin

text \<open>
  The version macros of \<open>include/flashaccept.h\<close>, and the program of the package test
  (\<open>packaging/conan/all/test_package/test_package.c\<close>): what it prints and returns.
\<close>

definition FLASHACCEPT_VERSION_MAJOR :: int where "FLASHACCEPT_VERSION_MAJOR = 1"
definition FLASHACCEPT_VERSION_MINOR :: int where "FLASHACCEPT_VERSION_MINOR = 0"
definition FLASHACCEPT_VERSION_PATCH :: int where "FLASHACCEPT_VERSION_PATCH = 1"
definition FLASHACCEPT_VERSION :: string where "FLASHACCEPT_VERSION = ''1.0.1''"

definition package_test_main :: "string \<times> int" where
  "package_test_main = (''flashaccept '' @ fa_version @ [CHR 0x0A], 0)"

text \<open>The version string is the one the three numbers make, and it is what the library reports.\<close>

lemma version_consistent:
  "FLASHACCEPT_VERSION = print_int FLASHACCEPT_VERSION_MAJOR @ ''.'' @
     print_int FLASHACCEPT_VERSION_MINOR @ ''.'' @ print_int FLASHACCEPT_VERSION_PATCH"
  "fa_version = FLASHACCEPT_VERSION"
  "package_test_main = (''flashaccept '' @ FLASHACCEPT_VERSION @ [CHR 0x0A], 0)"
  by code_simp+

end
