(* ===== verification/Decimal.thy ===== *)
theory Decimal
  imports Complex_Main C_Args
begin

text \<open>
  Decimal numerals as the programs print and read them: the conversion \<open>%.nf\<close> of printf (the
  exact value of the double, rounded to \<open>n\<close> decimals, ties to even), the numeral a shell tool reads
  (digits with at most one point), and what Python prints for a float. A numeral with \<open>n\<close>
  decimals is the natural number \<open>m\<close> its digits form; its value is \<open>m / 10 ^ n\<close>.
\<close>

subsection \<open>Printing\<close>

definition round_even :: "rat \<Rightarrow> int" where
  "round_even x =
     (let f = \<lfloor>x\<rfloor>; d = x - of_int f
      in if d < 1 / 2 \<or> d = 1 / 2 \<and> even f then f else f + 1)"

text \<open>The last \<open>n\<close> digits of a number, with leading zeros.\<close>

primrec pad_nat :: "nat \<Rightarrow> nat \<Rightarrow> string" where
  "pad_nat 0 k = []"
| "pad_nat (Suc n) k = pad_nat n (k div 10) @ [digit_char (k mod 10)]"

definition dec_text :: "nat \<Rightarrow> nat \<Rightarrow> string" where
  "dec_text n m =
     print_nat (m div 10 ^ n) @ (if n = 0 then [] else CHR ''.'' # pad_nat n (m mod 10 ^ n))"

definition dec_round :: "nat \<Rightarrow> rat \<Rightarrow> nat" where
  "dec_round n x = nat (round_even (\<bar>x\<bar> * 10 ^ n))"

definition fmt_fixed :: "nat \<Rightarrow> rat \<Rightarrow> string" where
  "fmt_fixed n x = (if x < 0 then ''-'' else []) @ dec_text n (dec_round n x)"

subsection \<open>Reading\<close>

definition is_numch :: "char \<Rightarrow> bool" where
  "is_numch c \<longleftrightarrow> c_isdigit c \<or> c = CHR ''.''"

definition dec_read :: "string \<Rightarrow> rat option" where
  "dec_read s =
     (let a = takeWhile c_isdigit s; r = dropWhile c_isdigit s
      in case r of
           [] \<Rightarrow> if a = [] then None else Some (of_int (read_digits a 0))
         | c # b \<Rightarrow>
             if c = CHR ''.'' \<and> list_all c_isdigit b \<and> (a \<noteq> [] \<or> b \<noteq> [])
             then Some (of_int (read_digits (a @ b) 0) / 10 ^ length b)
             else None)"

subsection \<open>What Python prints for a float\<close>

text \<open>
  \<open>float.__repr__\<close> of the float a numeral of at most 15 significant digits denotes: the shortest
  digits that identify it, which are those of the numeral without the zeros at the end; positional
  between \<open>1e-4\<close> and \<open>1e16\<close>, scientific outside.
\<close>

definition strip_zeros :: "string \<Rightarrow> string" where
  "strip_zeros ds = rev (dropWhile (\<lambda>c. c = CHR ''0'') (rev ds))"

definition py_exponent :: "int \<Rightarrow> string" where
  "py_exponent e = CHR ''e'' # (if e < 0 then CHR ''-'' else CHR ''+'') #
     (if \<bar>e\<bar> < 100 then pad_nat 2 (nat \<bar>e\<bar>) else print_nat (nat \<bar>e\<bar>))"

definition py_repr :: "nat \<Rightarrow> nat \<Rightarrow> string" where
  "py_repr n m =
     (if m = 0 then ''0.0''
      else
        let decpt = int (length (print_nat m)) - int n;
            ds = strip_zeros (print_nat m)
        in if decpt \<le> - 4 \<or> 16 < decpt then
             hd ds # (if tl ds = [] then [] else CHR ''.'' # tl ds) @ py_exponent (decpt - 1)
           else if decpt \<le> 0 then ''0.'' @ replicate (nat (- decpt)) (CHR ''0'') @ ds
           else if decpt < int (length ds) then take (nat decpt) ds @ CHR ''.'' # drop (nat decpt) ds
           else ds @ replicate (nat decpt - length ds) (CHR ''0'') @ ''.0'')"

subsection \<open>Reading back what was printed\<close>

lemma pad_nat_length [simp]: "length (pad_nat n k) = n"
  by (induction n arbitrary: k) simp_all

lemma pad_nat_digits [simp]: "list_all c_isdigit (pad_nat n k)"
  by (induction n arbitrary: k) (simp_all add: digit_char_digit)

lemma read_pad_nat:
  "k < 10 ^ n \<Longrightarrow> read_digits (pad_nat n k) acc = acc * 10 ^ n + int k"
proof (induction n arbitrary: k)
  case (Suc n)
  then have "read_digits (pad_nat n (k div 10)) acc = acc * 10 ^ n + int (k div 10)"
    by (intro Suc.IH) (simp add: less_mult_imp_div_less mult.commute)
  moreover have "int (k div 10) * 10 + int (k mod 10) = int k"
    by presburger
  ultimately show ?case
    by (simp add: read_digits_append digit_char_digit digit_char_val algebra_simps)
qed simp

lemma read_print_nat_acc:
  "read_digits (print_nat a @ pad_nat n k) 0 = int (a * 10 ^ n + k)" if "k < 10 ^ n"
  using that by (simp add: read_digits_append print_nat_digits read_print_nat read_pad_nat)

lemma digit_not_point [simp]: "\<not> c_isdigit (CHR ''.'')"
  by (simp add: c_isdigit_def digit_val_def)

lemma takeWhile_digits [simp]:
  "list_all c_isdigit xs \<Longrightarrow> takeWhile c_isdigit (xs @ CHR ''.'' # ys) = xs"
  "list_all c_isdigit xs \<Longrightarrow> dropWhile c_isdigit (xs @ CHR ''.'' # ys) = CHR ''.'' # ys"
  "list_all c_isdigit xs \<Longrightarrow> takeWhile c_isdigit xs = xs"
  "list_all c_isdigit xs \<Longrightarrow> dropWhile c_isdigit xs = []"
  by (auto simp: list_all_iff takeWhile_append dropWhile_append)

lemma dec_read_digits: "list_all c_isdigit a \<Longrightarrow> a \<noteq> [] \<Longrightarrow> dec_read a = Some (of_int (read_digits a 0))"
  by (simp add: dec_read_def)

lemma dec_read_point:
  "list_all c_isdigit a \<Longrightarrow> list_all c_isdigit b \<Longrightarrow> a \<noteq> [] \<Longrightarrow>
   dec_read (a @ CHR ''.'' # b) = Some (of_int (read_digits (a @ b) 0) / 10 ^ length b)"
  by (simp add: dec_read_def)

lemma dec_read_text: "dec_read (dec_text n m) = Some (of_nat m / 10 ^ n)"
proof -
  have r: "read_digits (print_nat (m div 10 ^ n) @ pad_nat n (m mod 10 ^ n)) 0 = int m"
    by (subst read_print_nat_acc) (simp_all add: div_mult_mod_eq)
  show ?thesis
  proof (cases "n = 0")
    case True
    with r show ?thesis
      by (simp add: dec_text_def dec_read_digits print_nat_digits print_nat_not_empty)
  next
    case False
    with r show ?thesis
      by (simp add: dec_text_def dec_read_point print_nat_digits print_nat_not_empty)
  qed
qed

lemma dec_text_numch: "list_all is_numch (dec_text n m)"
  using print_nat_digits [of "m div 10 ^ n"] pad_nat_digits [of n "m mod 10 ^ n"]
  by (auto simp: dec_text_def is_numch_def list_all_iff)

lemma dec_read_fixed: "0 \<le> x \<Longrightarrow> dec_read (fmt_fixed n x) = Some (of_nat (dec_round n x) / 10 ^ n)"
  by (simp add: fmt_fixed_def dec_read_text)

lemma dec_read_nat: "dec_read (print_nat m) = Some (of_nat m)"
  by (simp add: dec_read_digits print_nat_digits print_nat_not_empty read_print_nat)

text \<open>The printed numeral is within half a unit of the last decimal.\<close>

lemma round_even_close: "\<bar>of_int (round_even x) - x\<bar> \<le> 1 / 2"
proof -
  have "of_int \<lfloor>x\<rfloor> \<le> x" "x < of_int \<lfloor>x\<rfloor> + 1"
    by linarith+
  then show ?thesis
    by (auto simp: round_even_def Let_def abs_le_iff)
qed

lemma round_even_of_int [simp]: "round_even (of_int k) = k"
  by (simp add: round_even_def)

lemma round_even_mono: "x \<le> y \<Longrightarrow> round_even x \<le> round_even y"
proof -
  assume "x \<le> y"
  then have "\<lfloor>x\<rfloor> \<le> \<lfloor>y\<rfloor>"
    by (rule floor_mono)
  then consider "\<lfloor>x\<rfloor> < \<lfloor>y\<rfloor>" | "\<lfloor>x\<rfloor> = \<lfloor>y\<rfloor>"
    by linarith
  then show ?thesis
    using \<open>x \<le> y\<close> by cases (auto simp: round_even_def Let_def)
qed

subsection \<open>Reading back what Python printed\<close>

lemma digit_zero [simp]: "c_isdigit (CHR ''0'')" "digit_val (CHR ''0'') = 0"
  by (simp_all add: c_isdigit_def digit_val_def)

lemma read_zeros: "read_digits (replicate j (CHR ''0'')) acc = acc * 10 ^ j"
  by (induction j arbitrary: acc) simp_all

lemma read_digits_zeros:
  "list_all c_isdigit xs \<Longrightarrow> read_digits (xs @ replicate j (CHR ''0'')) 0 = read_digits xs 0 * 10 ^ j"
  by (simp add: read_digits_append read_zeros)

lemma digits_replicate [simp]: "list_all c_isdigit (replicate j (CHR ''0''))"
  by (simp add: list_all_iff)

lemma read_digits_lead: "read_digits (replicate j (CHR ''0'') @ xs) 0 = read_digits xs 0"
  by (induction j) simp_all

lemma read_digits_ge: "list_all c_isdigit cs \<Longrightarrow> 0 \<le> acc \<Longrightarrow> acc * 10 ^ length cs \<le> read_digits cs acc"
proof (induction cs arbitrary: acc)
  case (Cons c cs)
  then have d: "0 \<le> digit_val c" "c_isdigit c"
    by (simp_all add: c_isdigit_def)
  have "acc * 10 * 10 ^ length cs \<le> (acc * 10 + digit_val c) * 10 ^ length cs"
    using d(1) by (intro mult_right_mono) simp_all
  also have "\<dots> \<le> read_digits cs (acc * 10 + digit_val c)"
    using Cons d(1) by simp
  finally show ?case
    using d(2) by (simp add: mult.assoc)
qed simp

lemma print_nat_leading: "0 < n \<Longrightarrow> 1 \<le> digit_val (hd (print_nat n))"
proof (induction n rule: print_nat.induct)
  case (1 n)
  show ?case
  proof (cases "n < 10")
    case True
    with 1 show ?thesis
      by (simp add: print_nat.simps [of n] digit_char_val)
  next
    case False
    with 1 show ?thesis
      by (simp add: print_nat.simps [of n] print_nat_not_empty)
  qed
qed

lemma strip_zeros_snoc: "strip_zeros (ds @ [c]) = (if c = CHR ''0'' then strip_zeros ds else ds @ [c])"
  by (simp add: strip_zeros_def)

lemma strip_zeros_split: "\<exists>j. ds = strip_zeros ds @ replicate j (CHR ''0'')"
proof (induction ds rule: rev_induct)
  case (snoc c ds)
  then obtain j where "ds = strip_zeros ds @ replicate j (CHR ''0'')"
    by blast
  then have "ds @ ''0'' = strip_zeros ds @ replicate (Suc j) (CHR ''0'')"
    by (metis append_assoc replicate_Suc replicate_append_same)
  then have "\<exists>j. ds @ ''0'' = strip_zeros ds @ replicate j (CHR ''0'')"
    by blast
  then show ?case
    by (cases "c = CHR ''0''") (simp_all only: strip_zeros_snoc if_True if_False, auto intro: exI [of _ 0])
qed (simp add: strip_zeros_def)

text \<open>The digits of a positive number: a leading part that does not begin with zero, and zeros.\<close>

lemma print_nat_parts:
  assumes "0 < m"
  obtains ds j where "strip_zeros (print_nat m) = ds" "print_nat m = ds @ replicate j (CHR ''0'')" "ds \<noteq> []"
    "list_all c_isdigit ds" "1 \<le> digit_val (hd ds)" "int m = read_digits ds 0 * 10 ^ j"
proof -
  obtain j where j: "print_nat m = strip_zeros (print_nat m) @ replicate j (CHR ''0'')"
    using strip_zeros_split by blast
  define ds where "ds = strip_zeros (print_nat m)"
  have digits: "list_all c_isdigit ds"
    using print_nat_digits [of m] j by (metis ds_def list_all_append)
  have val: "int m = read_digits ds 0 * 10 ^ j"
    using read_digits_zeros [OF digits, of j] read_print_nat [of m] j by (simp add: ds_def)
  with assms have ne: "ds \<noteq> []"
    by auto
  then have "1 \<le> digit_val (hd ds)"
    using print_nat_leading [OF assms] j by (metis ds_def hd_append)
  with digits val ne j ds_def that show thesis
    by metis
qed

lemma dec_read_scale:
  assumes "i + n = k + j"
  shows "(of_int (d * 10 ^ i) / 10 ^ k :: rat) = of_int (d * 10 ^ j) / 10 ^ n"
proof -
  have "(10 ^ i * 10 ^ n :: rat) = 10 ^ k * 10 ^ j"
    using assms by (metis power_add)
  then show ?thesis
    by (simp add: field_simps)
qed

text \<open>The three positional forms: below one, with digits on both sides of the point, and whole.\<close>

lemma dec_read_small:
  assumes "list_all c_isdigit ds"
  shows "dec_read (''0.'' @ replicate k (CHR ''0'') @ ds) = Some (of_int (read_digits ds 0) / 10 ^ (k + length ds))"
proof -
  have "read_digits (''0'' @ replicate k (CHR ''0'') @ ds) 0 = read_digits ds 0"
    using read_digits_lead [of "Suc k" ds] by simp
  then show ?thesis
    using assms dec_read_point [of "''0''" "replicate k (CHR ''0'') @ ds"] by simp
qed

lemma dec_read_mid:
  assumes "list_all c_isdigit ds" and "0 < k" and "k < length ds"
  shows "dec_read (take k ds @ CHR ''.'' # drop k ds) = Some (of_int (read_digits ds 0) / 10 ^ (length ds - k))"
proof -
  have "list_all c_isdigit (take k ds)" "list_all c_isdigit (drop k ds)"
    using assms(1) by (metis append_take_drop_id list_all_append)+
  moreover have "take k ds \<noteq> []"
    using assms(2,3) by auto
  ultimately show ?thesis
    by (simp add: dec_read_point)
qed

lemma dec_read_large:
  assumes "list_all c_isdigit ds" and "ds \<noteq> []"
  shows "dec_read (ds @ replicate k (CHR ''0'') @ ''.0'') = Some (of_int (read_digits ds 0 * 10 ^ k))"
proof -
  have "ds @ replicate k (CHR ''0'') @ ''0'' = ds @ replicate (Suc k) (CHR ''0'')"
    by (simp add: replicate_append_same)
  then have "read_digits (ds @ replicate k (CHR ''0'') @ ''0'') 0 = read_digits ds 0 * 10 ^ Suc k"
    using read_digits_zeros [OF assms(1), of "Suc k"] by simp
  then show ?thesis
    using assms dec_read_point [of "ds @ replicate k (CHR ''0'')" "''0''"] by simp
qed

lemma py_repr_positional:
  assumes "- 4 < int (length (print_nat m)) - int n" and "int (length (print_nat m)) - int n \<le> 16" and "0 < m"
  shows "dec_read (py_repr n m) = Some (of_nat m / 10 ^ n)"
proof -
  obtain ds j where ds: "strip_zeros (print_nat m) = ds" "print_nat m = ds @ replicate j (CHR ''0'')" "ds \<noteq> []"
    "list_all c_isdigit ds" "1 \<le> digit_val (hd ds)" "int m = read_digits ds 0 * 10 ^ j"
    by (rule print_nat_parts [OF assms(3)])
  define decpt where "decpt = int (length (print_nat m)) - int n"
  have len: "decpt = int (length ds) + int j - int n"
    by (simp add: decpt_def ds(2))
  have scale: "(of_int (read_digits ds 0 * 10 ^ i) / 10 ^ k :: rat) = of_nat m / 10 ^ n" if "i + n = k + j" for i k
    using dec_read_scale [OF that] ds(6) by (metis of_int_of_nat_eq)
  consider "decpt \<le> 0" | "0 < decpt" "decpt < int (length ds)" | "int (length ds) \<le> decpt" "0 < decpt"
    by linarith
  then show ?thesis
  proof cases
    case 1
    then have "py_repr n m = ''0.'' @ replicate (nat (- decpt)) (CHR ''0'') @ ds"
      using assms ds(1) by (simp add: py_repr_def decpt_def Let_def)
    then show ?thesis
      using dec_read_small [OF ds(4)] scale [of 0 "nat (- decpt) + length ds"] 1 len by simp
  next
    case 2
    then have "py_repr n m = take (nat decpt) ds @ CHR ''.'' # drop (nat decpt) ds"
      using assms ds(1) by (simp add: py_repr_def decpt_def Let_def)
    then show ?thesis
      using dec_read_mid [OF ds(4), of "nat decpt"] scale [of 0 "length ds - nat decpt"] 2 len by simp
  next
    case 3
    then have "py_repr n m = ds @ replicate (nat decpt - length ds) (CHR ''0'') @ ''.0''"
      using assms ds(1) by (simp add: py_repr_def decpt_def Let_def)
    moreover have "nat decpt - length ds + n = 0 + j"
      using 3 len by linarith
    ultimately show ?thesis
      using dec_read_large [OF ds(4,3)] scale [of "nat decpt - length ds" 0] by simp
  qed
qed

lemma dec_read_numch: "dec_read s = Some x \<Longrightarrow> list_all is_numch s"
proof -
  assume s: "dec_read s = Some x"
  have "list_all is_numch (takeWhile c_isdigit s)"
    by (auto simp: list_all_iff is_numch_def dest: set_takeWhileD)
  moreover have "list_all is_numch (dropWhile c_isdigit s)"
    using s by (auto simp: dec_read_def Let_def list_all_iff is_numch_def split: list.splits if_splits)
  ultimately show ?thesis
    by (metis list_all_append takeWhile_dropWhile_id)
qed

text \<open>
  Of a number in scientific notation a reader that stops at the letter sees the mantissa, which is
  at least one.
\<close>

lemma py_repr_scientific:
  assumes "int (length (print_nat m)) - int n \<le> - 4 \<or> 16 < int (length (print_nat m)) - int n" and "0 < m"
  shows "\<exists>x. dec_read (takeWhile is_numch (py_repr n m @ s)) = Some x \<and> 1 \<le> x"
proof -
  obtain ds j where ds: "strip_zeros (print_nat m) = ds" "print_nat m = ds @ replicate j (CHR ''0'')" "ds \<noteq> []"
    "list_all c_isdigit ds" "1 \<le> digit_val (hd ds)" "int m = read_digits ds 0 * 10 ^ j"
    by (rule print_nat_parts [OF assms(2)])
  obtain c cs where c: "ds = c # cs"
    using ds(3) by (cases ds) auto
  have mant: "takeWhile is_numch (py_repr n m @ s) = c # (if cs = [] then [] else CHR ''.'' # cs)"
    using assms ds(1,4) by (auto simp: py_repr_def py_exponent_def c Let_def is_numch_def takeWhile_append list_all_iff
        c_isdigit_def digit_val_def)
  have "dec_read (takeWhile is_numch (py_repr n m @ s)) = Some (of_int (read_digits ds 0) / 10 ^ length cs)"
    using ds(4) dec_read_point [of "[c]" cs] dec_read_digits [of "[c]"] by (simp add: mant c)
  moreover have "10 ^ length cs \<le> read_digits ds 0"
  proof -
    have "10 ^ length cs \<le> digit_val c * 10 ^ length cs"
      using ds(5) by (simp add: c)
    also have "\<dots> \<le> read_digits cs (digit_val c)"
      using read_digits_ge [of cs "digit_val c"] ds(4,5) by (simp add: c)
    finally show ?thesis
      using ds(4) by (simp add: c)
  qed
  then have "(1 :: rat) \<le> of_int (read_digits ds 0) / 10 ^ length cs"
    by (simp add: le_divide_eq)
  ultimately show ?thesis
    by blast
qed

lemma print_nat_long: "10 ^ n \<le> k \<Longrightarrow> n < length (print_nat k)"
proof (induction n arbitrary: k)
  case 0
  show ?case
    using print_nat_not_empty [of k] by simp
next
  case (Suc n)
  then have "10 ^ n \<le> k div 10" and "\<not> k < 10"
    using order_trans [of 10 "10 ^ Suc n" k] by (auto simp: less_eq_div_iff_mult_less_eq mult.commute)
  with Suc.IH [of "k div 10"] show ?case
    by (simp add: print_nat.simps [of k])
qed

lemma print_nat_short: "k < 10 ^ n \<Longrightarrow> 0 < n \<Longrightarrow> length (print_nat k) \<le> n"
proof (induction n arbitrary: k)
  case (Suc n)
  show ?case
  proof (cases "k < 10")
    case False
    with Suc.prems have "k div 10 < 10 ^ n" and "0 < n"
      by (auto simp: less_mult_imp_div_less mult.commute intro: gr0I)
    with Suc.IH [of "k div 10"] False show ?thesis
      by (simp add: print_nat.simps [of k])
  qed (simp add: print_nat.simps [of k])
qed simp

end
