(* ===== verification/Report_Text.thy ===== *)
theory Report_Text
  imports Loadgen_Run Decimal
begin

text \<open>
  What the load generator writes: the JSON line of the report, character for character as the
  \<open>printf\<close> calls at the end of \<open>main\<close> in \<open>research/loadgen/loadgen.c\<close> produce it, and the process as
  its caller sees it: exit status, standard output and standard error.
\<close>

subsection \<open>The report line\<close>

fun F_NAME :: "fail_reason \<Rightarrow> string" where
  "F_NAME F_CONNECT = ''connect''"
| "F_NAME F_RESET = ''reset''"
| "F_NAME F_TIMEOUT = ''timeout''"
| "F_NAME F_TRUNC = ''truncated''"
| "F_NAME F_WRONGBYTES = ''wrongbytes''"
| "F_NAME F_OTHER = ''other''"

text \<open>\<open>"name":\<close>\<close>

definition json_key :: "string \<Rightarrow> string" where
  "json_key k = CHR 0x22 # k @ [CHR 0x22, CHR '':'']"

text \<open>The conversion \<open>%lu\<close>.\<close>

definition fmt_lu :: "64 word \<Rightarrow> string" where
  "fmt_lu w = print_nat (unat w)"

definition in_ms :: "(rat \<Rightarrow> rat) \<Rightarrow> int \<Rightarrow> rat" where
  "in_ms rnd us = rnd (of_int us / 1000)"

fun print_reasons :: "(fail_reason \<Rightarrow> 64 word) \<Rightarrow> fail_reason list \<Rightarrow> string" where
  "print_reasons failed [] = []"
| "print_reasons failed (r # rs) =
     (if r = F_CONNECT then [] else '','') @ json_key (F_NAME r) @ fmt_lu (failed r) @ print_reasons failed rs"

definition lg_print :: "(rat \<Rightarrow> rat) \<Rightarrow> lg_report \<Rightarrow> string" where
  "lg_print rnd r =
     (let a = r_totals r
      in ''{'' @
         json_key ''offered'' @ fmt_lu (a_offered a) @ '','' @
         json_key ''completed'' @ fmt_lu (a_completed a) @ '','' @
         json_key ''failed'' @ fmt_lu (a_failed_total a) @ '','' @
         json_key ''offered_cps'' @ fmt_fixed 1 (r_off_cps r) @ '','' @
         json_key ''completed_cps'' @ fmt_fixed 1 (r_comp_cps r) @ '','' @
         json_key ''failed_cps'' @ fmt_fixed 1 (r_fail_cps r) @ '','' @
         json_key ''drop_rate'' @ fmt_fixed 6 (r_drop r) @ '','' @
         json_key ''reply_ok'' @ (if r_reply_ok r then ''true'' else ''false'') @ '','' @
         json_key ''sampled'' @ fmt_lu (a_stot a) @ '','' @
         json_key ''sampled_bad'' @ fmt_lu (a_sbad a) @ '','' @
         json_key ''p50_ms'' @ fmt_fixed 3 (in_ms rnd (r_p50us r)) @ '','' @
         json_key ''p99_ms'' @ fmt_fixed 3 (in_ms rnd (r_p99us r)) @ '','' @
         json_key ''p99_9_ms'' @ fmt_fixed 3 (in_ms rnd (r_p999us r)) @ '','' @
         json_key ''max_ms'' @ fmt_fixed 3 (in_ms rnd (r_maxus r)) @ '','' @
         json_key ''loadgen_cpu'' @ fmt_fixed 4 (r_cpu_frac r) @ '','' @
         json_key ''loadgen_cores'' @ print_int (r_cores r) @ '','' @
         json_key ''source_ips'' @ print_nat (r_source_ips r) @ '','' @
         json_key ''threads'' @ print_int (r_threads r) @ '','' @
         json_key ''fail_reasons'' @ ''{'' @ print_reasons (a_failed a) F_REASONS @ ''}}'' @ [CHR 0x0A])"

subsection \<open>The process\<close>

record process =
  p_exit :: int
  p_stdout :: string
  p_stderr :: string

definition loadgen :: "lg_system \<Rightarrow> string list \<Rightarrow> process loop_exit option" where
  "loadgen m argv =
     (case lg_main m argv of
        None \<Rightarrow> None
      | Some Undefined \<Rightarrow> Some Undefined
      | Some (Exited (status, Some r)) \<Rightarrow>
          Some (Exited \<lparr>p_exit = status, p_stdout = lg_print (m_rnd m) r, p_stderr = []\<rparr>)
      | Some (Exited (status, None)) \<Rightarrow>
          Some (Exited \<lparr>p_exit = status, p_stdout = [],
            p_stderr = ''bad host '' @ lo_host (lg_parse m (tl argv) lg_defaults) @ [CHR 0x0A]\<rparr>))"

end
