(* ===== verification/Text_Tools.thy ===== *)
theory Text_Tools
  imports Report_Text
begin

text \<open>
  The text tools with which \<open>research/harness/run.sh\<close> takes values out of a report, as it uses
  them: command substitution and \<open>echo\<close>, \<open>sed\<close> with one substitution that keeps a group,
  \<open>grep -o\<close> with a literal and a character class, and \<open>cut -d: -f2\<close>. Taking the field of a report
  gives the text that was printed for it.
\<close>

subsection \<open>Lines\<close>

abbreviation (input) NL :: char where "NL \<equiv> CHR 0x0A"

fun text_lines :: "string \<Rightarrow> string \<Rightarrow> string list" where
  "text_lines acc [] = (if acc = [] then [] else [rev acc])"
| "text_lines acc (c # cs) = (if c = NL then rev acc # text_lines [] cs else text_lines (c # acc) cs)"

text \<open>\<open>$(...)\<close> removes the newlines at the end.\<close>

definition subst_out :: "string \<Rightarrow> string" where
  "subst_out s = rev (dropWhile (\<lambda>c. c = NL) (rev s))"

text \<open>\<open>$(echo "$s" | f)\<close> for a filter \<open>f\<close> that turns each line into lines.\<close>

definition echo_pipe :: "(string \<Rightarrow> string list) \<Rightarrow> string \<Rightarrow> string" where
  "echo_pipe f s = subst_out (concat (map (\<lambda>l. l @ [NL]) (concat (map f (text_lines [] (s @ [NL]))))))"

subsection \<open>The filters\<close>

text \<open>The text after the last place where \<open>lit\<close> occurs: \<open>.*\<close> takes as much as it can.\<close>

fun after_last :: "string \<Rightarrow> string \<Rightarrow> string option" where
  "after_last lit [] = (if lit = [] then Some [] else None)"
| "after_last lit (c # cs) =
     (case after_last lit cs of
        Some r \<Rightarrow> Some r
      | None \<Rightarrow> if take (length lit) (c # cs) = lit then Some (drop (length lit) (c # cs)) else None)"

text \<open>\<open>sed 's/.*lit\([class]*\).*/\1/'\<close>: a line without the literal stays as it is.\<close>

definition sed_keep :: "string \<Rightarrow> (char \<Rightarrow> bool) \<Rightarrow> string \<Rightarrow> string list" where
  "sed_keep lit cls l = [case after_last lit l of Some r \<Rightarrow> takeWhile cls r | None \<Rightarrow> l]"

text \<open>\<open>grep -o 'lit[class]*'\<close>\<close>

function grep_o :: "string \<Rightarrow> (char \<Rightarrow> bool) \<Rightarrow> string \<Rightarrow> string list" where
  "grep_o lit cls [] = []"
| "grep_o lit cls (c # cs) =
     (if lit \<noteq> [] \<and> take (length lit) (c # cs) = lit
      then (lit @ takeWhile cls (drop (length lit) (c # cs))) #
        grep_o lit cls (dropWhile cls (drop (length lit) (c # cs)))
      else grep_o lit cls cs)"
  by pat_completeness auto
termination
  by (relation "measure (\<lambda>(lit, cls, s). length s)")
    (auto intro: le_less_trans [OF length_dropWhile_le])

text \<open>\<open>cut -d: -f2\<close>\<close>

definition cut_2 :: "string \<Rightarrow> string" where
  "cut_2 l =
     (case dropWhile (\<lambda>c. c \<noteq> CHR '':'') l of
        [] \<Rightarrow> l
      | c # r \<Rightarrow> takeWhile (\<lambda>c. c \<noteq> CHR '':'') r)"

subsection \<open>One line\<close>

lemma text_lines_one: "NL \<notin> set s \<Longrightarrow> text_lines acc (s @ [NL]) = [rev acc @ s]"
  by (induction s arbitrary: acc) auto

lemma subst_out_none: "NL \<notin> set s \<Longrightarrow> subst_out s = s"
  unfolding subst_out_def by (metis (full_types) dropWhile_eq_self_iff hd_in_set rev_rev_ident set_rev)

lemma subst_out_line: "NL \<notin> set s \<Longrightarrow> subst_out (s @ [NL]) = s"
  using subst_out_none [of s] by (simp add: subst_out_def)

lemma echo_pipe_one:
  assumes "NL \<notin> set s" and "f s = [t]" and "NL \<notin> set t"
  shows "echo_pipe f s = t"
  using assms by (simp add: echo_pipe_def text_lines_one subst_out_line)

subsection \<open>Fields\<close>

abbreviation (input) QUOTE :: char where "QUOTE \<equiv> CHR 0x22"

definition plain :: "string \<Rightarrow> bool" where
  "plain s \<longleftrightarrow> QUOTE \<notin> set s \<and> NL \<notin> set s"

lemma after_last_plain:
  "QUOTE \<notin> set v \<Longrightarrow> after_last (json_key k) (v @ s) = after_last (json_key k) s"
  by (induction v) (auto simp: json_key_def split: option.splits)

text \<open>Two keys that begin at the same place are the same.\<close>

lemma key_prefix:
  assumes "QUOTE \<notin> set k" and "QUOTE \<notin> set n"
  shows "take (length (json_key k)) (json_key n @ s) = json_key k \<longleftrightarrow> n = k"
proof
  assume "take (length (json_key k)) (json_key n @ s) = json_key k"
  then obtain r where "json_key n @ s = json_key k @ r"
    by (metis append_take_drop_id)
  then have "n @ QUOTE # CHR '':'' # s = k @ QUOTE # CHR '':'' # r"
    by (simp add: json_key_def)
  then have "takeWhile (\<lambda>c. c \<noteq> QUOTE) (n @ QUOTE # CHR '':'' # s) = takeWhile (\<lambda>c. c \<noteq> QUOTE) (k @ QUOTE # CHR '':'' # r)"
    by simp
  with assms show "n = k"
    by (simp add: takeWhile_append takeWhile_eq_all_conv split: if_splits)
qed simp

definition is_name :: "string \<Rightarrow> bool" where
  "is_name k \<longleftrightarrow> k \<noteq> [] \<and> list_all (\<lambda>c. c \<noteq> QUOTE \<and> c \<noteq> CHR '':'' \<and> c \<noteq> NL) k"

lemma is_nameD: "is_name k \<Longrightarrow> k \<noteq> [] \<and> QUOTE \<notin> set k \<and> CHR '':'' \<notin> set k \<and> NL \<notin> set k"
  by (auto simp: is_name_def list_all_iff)

lemma after_last_key:
  assumes "is_name k" and "is_name n"
  shows "after_last (json_key k) (json_key n @ s) =
     (case after_last (json_key k) s of
        Some r \<Rightarrow> Some r
      | None \<Rightarrow> if n = k then Some s else None)"
proof -
  have "after_last (json_key k) (CHR '':'' # s) = after_last (json_key k) s"
    using after_last_plain [of "[CHR '':'']" k s] by simp
  moreover have "take (length (json_key k)) (QUOTE # CHR '':'' # s) \<noteq> json_key k"
    using is_nameD [OF assms(1)] by (cases k) (auto simp: json_key_def)
  ultimately have "after_last (json_key k) (QUOTE # CHR '':'' # s) = after_last (json_key k) s"
    by (simp split: option.splits)
  then have "after_last (json_key k) (n @ QUOTE # CHR '':'' # s) = after_last (json_key k) s"
    using is_nameD [OF assms(2)] by (subst after_last_plain) auto
  moreover have "json_key n @ s = QUOTE # n @ QUOTE # CHR '':'' # s"
    by (simp add: json_key_def)
  moreover have "drop (length (json_key k)) (json_key k @ s) = s"
    by simp
  ultimately show ?thesis
    using key_prefix [of k n s] is_nameD [OF assms(1)] is_nameD [OF assms(2)]
    by (auto split: option.splits)
qed

subsection \<open>A line of fields\<close>

text \<open>A sequence of keys, each with the text up to the next one.\<close>

fun field_text :: "(string \<times> string) list \<Rightarrow> string" where
  "field_text [] = []"
| "field_text ((k, v) # fs) = json_key k @ v @ field_text fs"

definition fields_ok :: "(string \<times> string) list \<Rightarrow> bool" where
  "fields_ok fs \<longleftrightarrow> distinct (map fst fs) \<and> list_all (\<lambda>(k, v). is_name k \<and> plain v) fs"

lemma field_text_append: "field_text (fs @ gs) = field_text fs @ field_text gs"
  by (induction fs rule: field_text.induct) simp_all

lemma fields_ok_Cons:
  "fields_ok ((k, v) # fs) \<longleftrightarrow> is_name k \<and> plain v \<and> k \<notin> fst ` set fs \<and> fields_ok fs"
  by (auto simp: fields_ok_def)

lemma field_text_no_NL: "fields_ok fs \<Longrightarrow> NL \<notin> set (field_text fs)"
  by (induction fs rule: field_text.induct)
    (auto simp: fields_ok_Cons json_key_def plain_def dest: is_nameD)

lemma after_last_absent:
  "fields_ok fs \<Longrightarrow> is_name k \<Longrightarrow> k \<notin> fst ` set fs \<Longrightarrow> after_last (json_key k) (field_text fs) = None"
proof (induction fs rule: field_text.induct)
  case 1
  then show ?case
    by (simp add: json_key_def)
next
  case (2 n v fs)
  then have "after_last (json_key k) (v @ field_text fs) = None"
    by (auto simp: fields_ok_Cons plain_def after_last_plain)
  with 2 show ?case
    by (auto simp: fields_ok_Cons after_last_key)
qed

lemma after_last_field:
  assumes "fields_ok (fs @ (k, v) # gs)"
  shows "after_last (json_key k) (field_text (fs @ (k, v) # gs)) = Some (v @ field_text gs)"
  using assms
proof (induction fs)
  case Nil
  then have k: "is_name k" and absent: "after_last (json_key k) (field_text gs) = None"
    by (auto simp: fields_ok_Cons intro: after_last_absent)
  from Nil absent have "after_last (json_key k) (v @ field_text gs) = None"
    by (simp add: fields_ok_Cons plain_def after_last_plain)
  with k show ?case
    by (simp add: after_last_key)
next
  case (Cons f fs)
  obtain n w where f: "f = (n, w)"
    by (cases f)
  with Cons.prems have "is_name n" "is_name k" "plain w"
    by (auto simp: fields_ok_def)
  with Cons f show ?case
    by (simp add: fields_ok_Cons after_last_key after_last_plain plain_def)
qed

text \<open>What \<open>sed\<close> keeps of a field whose value is followed by a character that is not in the class.\<close>

lemma sed_field:
  assumes "fields_ok fs" and "(k, v @ [d]) \<in> set fs" and "list_all cls v" and "\<not> cls d"
  shows "echo_pipe (sed_keep (json_key k) cls) (CHR ''{'' # field_text fs) = v"
proof -
  obtain pre post where fs: "fs = pre @ (k, v @ [d]) # post"
    using split_list [OF assms(2)] by auto
  have "after_last (json_key k) (CHR ''{'' # field_text fs) = Some ((v @ [d]) @ field_text post)"
    using after_last_plain [of "[CHR ''{'']" k "field_text fs"] after_last_field [of pre k "v @ [d]" post] assms(1)
    by (simp add: fs)
  moreover have "takeWhile cls ((v @ [d]) @ field_text post) = v"
    using assms(3,4) by (simp add: list_all_iff takeWhile_append)
  moreover have "NL \<notin> set v"
    using assms(1,2) by (auto simp: fields_ok_def list_all_iff plain_def)
  ultimately show ?thesis
    using field_text_no_NL [OF assms(1)] by (intro echo_pipe_one) (auto simp: sed_keep_def)
qed

lemma grep_o_plain: "QUOTE \<notin> set v \<Longrightarrow> grep_o (json_key k) cls (v @ s) = grep_o (json_key k) cls s"
  by (induction v) (auto simp: json_key_def)

lemma grep_o_key:
  assumes "is_name k" and "is_name n"
  shows "grep_o (json_key k) cls (json_key n @ s) =
     (if n = k then (json_key k @ takeWhile cls s) # grep_o (json_key k) cls (dropWhile cls s)
      else grep_o (json_key k) cls s)"
proof -
  have key: "json_key n @ s = QUOTE # n @ QUOTE # CHR '':'' # s"
    by (simp add: json_key_def)
  have "take (length (json_key k)) (QUOTE # CHR '':'' # s) \<noteq> json_key k"
    using is_nameD [OF assms(1)] by (cases k) (auto simp: json_key_def)
  then have "grep_o (json_key k) cls (QUOTE # CHR '':'' # s) = grep_o (json_key k) cls s"
    using grep_o_plain [of "[CHR '':'']" k cls s] by simp
  then have "grep_o (json_key k) cls (n @ QUOTE # CHR '':'' # s) = grep_o (json_key k) cls s"
    using is_nameD [OF assms(2)] by (subst grep_o_plain) auto
  moreover have "json_key k \<noteq> []"
    by (simp add: json_key_def)
  moreover have "drop (length (json_key k)) (json_key k @ s) = s"
    by simp
  ultimately show ?thesis
    using key_prefix [of k n s] is_nameD [OF assms(1)] is_nameD [OF assms(2)] key
    by (simp only: grep_o.simps) auto
qed

lemma grep_o_fields:
  "fields_ok fs \<Longrightarrow> is_name k \<Longrightarrow> k \<notin> fst ` set fs \<Longrightarrow> grep_o (json_key k) cls (field_text fs) = []"
  by (induction fs rule: field_text.induct)
    (auto simp: fields_ok_Cons grep_o_key grep_o_plain plain_def)

lemma grep_field:
  assumes "fields_ok (fs @ (k, v @ [d]) # gs)" and "list_all cls v" and "\<not> cls d" and "d \<noteq> QUOTE"
  shows "grep_o (json_key k) cls (field_text (fs @ (k, v @ [d]) # gs)) = [json_key k @ v]"
  using assms(1)
proof (induction fs)
  case Nil
  have "takeWhile cls (v @ d # field_text gs) = v" "dropWhile cls (v @ d # field_text gs) = d # field_text gs"
    using assms(2,3) by (auto simp: list_all_iff takeWhile_append dropWhile_append)
  moreover have "grep_o (json_key k) cls (d # field_text gs) = []"
    using Nil grep_o_plain [of "[d]" k cls "field_text gs"] assms(4) grep_o_fields [of gs k cls]
    by (simp add: fields_ok_Cons)
  ultimately show ?case
    using Nil by (simp add: fields_ok_Cons grep_o_key)
next
  case (Cons f fs)
  obtain n w where f: "f = (n, w)"
    by (cases f)
  with Cons.prems have "is_name n" "is_name k" "plain w"
    by (auto simp: fields_ok_def)
  with Cons f show ?case
    by (simp add: fields_ok_Cons grep_o_key grep_o_plain plain_def)
qed

lemma cut_key: "is_name k \<Longrightarrow> CHR '':'' \<notin> set v \<Longrightarrow> cut_2 (json_key k @ v) = v"
proof -
  assume k: "is_name k" and v: "CHR '':'' \<notin> set v"
  have "dropWhile (\<lambda>c. c \<noteq> CHR '':'') (json_key k @ v) = CHR '':'' # v"
    using is_nameD [OF k] by (auto simp: json_key_def dropWhile_append)
  moreover have "takeWhile (\<lambda>c. c \<noteq> CHR '':'') v = v"
    using v by (auto simp: takeWhile_eq_all_conv)
  ultimately show ?thesis
    by (simp add: cut_2_def)
qed

lemma grep_cut_field:
  assumes "fields_ok fs" and "(k, v @ [d]) \<in> set fs" and "list_all cls v" and "\<not> cls d"
    and "d \<noteq> QUOTE" and "\<not> cls (CHR '':'')"
  shows "echo_pipe (\<lambda>l. map cut_2 (grep_o (json_key k) cls l)) (CHR ''{'' # field_text fs) = v"
proof -
  obtain pre post where fs: "fs = pre @ (k, v @ [d]) # post"
    using split_list [OF assms(2)] by auto
  have "is_name k \<and> plain (v @ [d])"
    using assms(1,2) by (auto simp: fields_ok_def list_all_iff)
  then have k: "is_name k" and v: "NL \<notin> set v" "CHR '':'' \<notin> set v"
    using assms(3,6) unfolding plain_def list_all_iff by auto
  have "grep_o (json_key k) cls (field_text fs) = [json_key k @ v]"
    unfolding fs by (rule grep_field) (use assms fs in simp_all)
  with grep_o_plain [of "[CHR ''{'']" k cls "field_text fs"]
  have "grep_o (json_key k) cls (CHR ''{'' # field_text fs) = [json_key k @ v]"
    by simp
  with field_text_no_NL [OF assms(1)] cut_key [OF k v(2)] v(1) show ?thesis
    by (intro echo_pipe_one) simp_all
qed

end
