(* ===== verification/Json.thy ===== *)
theory Json
  imports Text_Tools
begin

text \<open>
  The part of JSON a report uses (objects, numbers, booleans; no white space), as Python's
  \<open>json.loads\<close> reads it and \<open>json.dumps\<close> with compact separators prints it. A number is kept as its
  numeral; without a point it is an \<open>int\<close>, with one a \<open>float\<close>, and is printed as that. Reading what was
  printed gives the value back.
\<close>

datatype json = JNum string | JBool bool | JObj "(string \<times> json) list"

subsection \<open>Reading\<close>

definition is_tokch :: "char \<Rightarrow> bool" where
  "is_tokch c \<longleftrightarrow> is_numch c \<or> c = CHR ''-''"

definition unsign :: "string \<Rightarrow> string" where
  "unsign tok = (if take 1 tok = ''-'' then tl tok else tok)"

text \<open>A sign, digits without a leading zero, and possibly a point with digits.\<close>

definition json_number :: "string \<Rightarrow> bool" where
  "json_number tok \<longleftrightarrow>
     (let t = unsign tok; a = takeWhile c_isdigit t; r = dropWhile c_isdigit t
      in a \<noteq> [] \<and> (hd a = CHR ''0'' \<longrightarrow> tl a = []) \<and>
         (case r of [] \<Rightarrow> True | c # b \<Rightarrow> c = CHR ''.'' \<and> b \<noteq> [] \<and> list_all c_isdigit b))"

fun json_value :: "nat \<Rightarrow> string \<Rightarrow> (json \<times> string) option"
  and json_members :: "nat \<Rightarrow> string \<Rightarrow> ((string \<times> json) list \<times> string) option" where
  "json_value 0 s = None"
| "json_value (Suc k) s =
     (if take 4 s = ''true'' then Some (JBool True, drop 4 s)
      else if take 5 s = ''false'' then Some (JBool False, drop 5 s)
      else if take 2 s = ''{}'' then Some (JObj [], drop 2 s)
      else if take 1 s = ''{'' then map_option (\<lambda>(ms, r). (JObj ms, r)) (json_members k (tl s))
      else let tok = takeWhile is_tokch s
           in if json_number tok then Some (JNum tok, drop (length tok) s) else None)"
| "json_members 0 s = None"
| "json_members (Suc k) s =
     (let key = takeWhile (\<lambda>c. c \<noteq> QUOTE) (tl s); r = dropWhile (\<lambda>c. c \<noteq> QUOTE) (tl s)
      in if take 1 s = [QUOTE] \<and> take 2 r = [QUOTE, CHR '':''] then
           case json_value k (drop 2 r) of
             None \<Rightarrow> None
           | Some (v, r) \<Rightarrow>
               if take 1 r = '','' then map_option (\<lambda>(ms, r). ((key, v) # ms, r)) (json_members k (tl r))
               else if take 1 r = ''}'' then Some ([(key, v)], tl r)
               else None
         else None)"

definition json_loads :: "string \<Rightarrow> json option" where
  "json_loads s = (case json_value (length s) s of Some (v, []) \<Rightarrow> Some v | _ \<Rightarrow> None)"

subsection \<open>Printing\<close>

text \<open>What Python prints for the number a numeral denotes.\<close>

definition py_number :: "string \<Rightarrow> string" where
  "py_number tok =
     (let t = unsign tok; a = takeWhile c_isdigit t; r = dropWhile c_isdigit t
      in if r = [] then print_int (if t = tok then read_digits a 0 else - read_digits a 0)
         else (if t = tok then [] else ''-'') @ py_repr (length (tl r)) (nat (read_digits (a @ tl r) 0)))"

text \<open>The text of a value, with a function that prints the numbers.\<close>

fun json_text :: "(string \<Rightarrow> string) \<Rightarrow> json \<Rightarrow> string"
  and members_text :: "(string \<Rightarrow> string) \<Rightarrow> (string \<times> json) list \<Rightarrow> string" where
  "json_text num (JNum tok) = num tok"
| "json_text num (JBool b) = (if b then ''true'' else ''false'')"
| "json_text num (JObj ms) = ''{'' @ members_text num ms @ ''}''"
| "members_text num [] = []"
| "members_text num ((k, v) # ms) =
     json_key k @ json_text num v @ (if ms = [] then [] else '','') @ members_text num ms"

definition json_dumps :: "json \<Rightarrow> string" where
  "json_dumps v = json_text py_number v"

subsection \<open>Reading what was printed\<close>

fun json_ok :: "json \<Rightarrow> bool" and members_ok :: "(string \<times> json) list \<Rightarrow> bool" where
  "json_ok (JNum tok) \<longleftrightarrow> json_number tok \<and> list_all is_tokch tok"
| "json_ok (JBool b) \<longleftrightarrow> True"
| "json_ok (JObj ms) \<longleftrightarrow> members_ok ms"
| "members_ok [] \<longleftrightarrow> True"
| "members_ok ((k, v) # ms) \<longleftrightarrow> QUOTE \<notin> set k \<and> json_ok v \<and> members_ok ms"

abbreviation (input) as_is :: "string \<Rightarrow> string" where "as_is \<equiv> (\<lambda>t. t)"

lemma tokch_first: "is_tokch c \<Longrightarrow> c \<noteq> CHR ''t'' \<and> c \<noteq> CHR ''f'' \<and> c \<noteq> CHR ''{'' \<and> c \<noteq> CHR '','' \<and> c \<noteq> CHR ''}''"
  by (auto simp: is_tokch_def is_numch_def c_isdigit_def digit_val_def)

lemma json_number_first: "json_number tok \<Longrightarrow> tok \<noteq> []"
  by (auto simp: json_number_def unsign_def Let_def)

text \<open>A number ends where no character of a numeral follows.\<close>

lemma json_value_num:
  assumes "json_number tok" and "list_all is_tokch tok" and "rest = [] \<or> \<not> is_tokch (hd rest)"
  shows "json_value (Suc k) (tok @ rest) = Some (JNum tok, rest)"
proof -
  obtain c cs where c: "tok = c # cs" "is_tokch c"
    using assms(2) json_number_first [OF assms(1)] by (cases tok) auto
  have "takeWhile is_tokch (tok @ rest) = tok"
    using assms(2,3) by (cases rest) (auto simp: takeWhile_append list_all_iff)
  with c tokch_first [OF c(2)] assms(1) show ?thesis
    by simp
qed

text \<open>What follows the value of a member: the end of the object, or the next member.\<close>

definition after_member :: "(string \<times> json) list \<Rightarrow> string \<Rightarrow> string" where
  "after_member ms rest =
     (if ms = [] then CHR ''}'' # rest else CHR '','' # members_text as_is ms @ CHR ''}'' # rest)"

lemma after_member_ends: "\<not> is_tokch (hd (after_member ms rest))"
  by (simp add: after_member_def is_tokch_def is_numch_def c_isdigit_def digit_val_def)

lemma json_members_step:
  assumes "QUOTE \<notin> set n"
    and "json_value k (json_text as_is v @ after_member ms rest) = Some (v, after_member ms rest)"
    and "ms \<noteq> [] \<Longrightarrow> json_members k (members_text as_is ms @ CHR ''}'' # rest) = Some (ms, rest)"
  shows "json_members (Suc k) (members_text as_is ((n, v) # ms) @ CHR ''}'' # rest) = Some ((n, v) # ms, rest)"
proof -
  have eq: "members_text as_is ((n, v) # ms) @ CHR ''}'' # rest =
      QUOTE # n @ QUOTE # CHR '':'' # json_text as_is v @ after_member ms rest"
    by (simp add: after_member_def json_key_def)
  have name: "takeWhile (\<lambda>c. c \<noteq> QUOTE) (n @ QUOTE # s) = n" "dropWhile (\<lambda>c. c \<noteq> QUOTE) (n @ QUOTE # s) = QUOTE # s" for s
    using assms(1) by (auto simp: takeWhile_append dropWhile_append)
  show ?thesis
    using assms(2,3) unfolding eq by (simp add: name) (simp add: after_member_def)
qed

lemma json_roundtrip:
  "json_ok v \<Longrightarrow> length (json_text as_is v) \<le> k \<Longrightarrow> rest = [] \<or> \<not> is_tokch (hd rest) \<Longrightarrow>
     json_value k (json_text as_is v @ rest) = Some (v, rest)"
  "members_ok ms \<Longrightarrow> ms \<noteq> [] \<Longrightarrow> length (members_text as_is ms) \<le> k \<Longrightarrow>
     json_members k (members_text as_is ms @ CHR ''}'' # rest') = Some (ms, rest')"
proof (induction v and ms arbitrary: k rest and k rest' rule: json_ok_members_ok.induct)
  case (1 tok)
  then obtain k' where "k = Suc k'"
    using json_number_first [of tok] by (cases k) auto
  with 1 json_value_num show ?case
    by simp
next
  case (2 b)
  then obtain k' where "k = Suc k'"
    by (cases k) (auto split: if_splits)
  then show ?case
    by simp
next
  case (3 ms)
  then obtain k' where k: "k = Suc k'" "length (members_text as_is ms) \<le> k'"
    by (cases k) auto
  show ?case
  proof (cases ms)
    case Nil
    then show ?thesis using k by simp
  next
    case (Cons m ms')
    obtain n v where "m = (n, v)"
      by (cases m)
    with 3 k Cons show ?thesis
      by (simp add: json_key_def)
  qed
next
  case 4
  then show ?case by simp
next
  case (5 n v ms)
  then obtain k' where k: "k = Suc k'"
    by (cases k) (auto simp: json_key_def)
  show ?case
    unfolding k
  proof (rule json_members_step)
    show "json_value k' (json_text as_is v @ after_member ms rest') = Some (v, after_member ms rest')"
      using 5 k after_member_ends by (intro 5(1)) (auto simp: json_key_def)
  qed (use 5 k in \<open>auto simp: json_key_def\<close>)
qed

lemma json_loads_text: "json_ok v \<Longrightarrow> json_loads (json_text as_is v) = Some v"
  using json_roundtrip(1) [of v "length (json_text as_is v)" "[]"] by (simp add: json_loads_def)

subsection \<open>The numbers of a report\<close>

lemma unsign_digits: "list_all c_isdigit a \<Longrightarrow> a \<noteq> [] \<Longrightarrow> unsign (a @ r) = a @ r"
  by (cases a) (auto simp: unsign_def c_isdigit_def digit_val_def)

lemma print_nat_zero: "hd (print_nat m) = CHR ''0'' \<Longrightarrow> tl (print_nat m) = []"
  using print_nat_leading [of m] by (cases "m = 0") (auto simp: print_nat.simps [of 0])

lemma minus_digits: "list_all c_isdigit a \<Longrightarrow> a \<noteq> [] \<Longrightarrow> a @ r \<noteq> CHR ''-'' # a @ r"
  by (metis append_Cons length_Cons n_not_Suc_n)

lemma number_whole:
  assumes "list_all c_isdigit a" and "a \<noteq> []" and "hd a = CHR ''0'' \<Longrightarrow> tl a = []"
  shows "json_number a" "json_number (CHR ''-'' # a)"
    and "py_number a = print_int (read_digits a 0)" "py_number (CHR ''-'' # a) = print_int (- read_digits a 0)"
proof -
  have "unsign a = a" "unsign (CHR ''-'' # a) = a" "a \<noteq> CHR ''-'' # a"
    using unsign_digits [OF assms(1,2), of "[]"] minus_digits [OF assms(1,2), of "[]"] by (simp_all add: unsign_def)
  moreover have "takeWhile c_isdigit a = a" "dropWhile c_isdigit a = []"
    using assms(1) by simp_all
  ultimately show "json_number a" "json_number (CHR ''-'' # a)"
    "py_number a = print_int (read_digits a 0)" "py_number (CHR ''-'' # a) = print_int (- read_digits a 0)"
    using assms unfolding json_number_def py_number_def Let_def by simp_all
qed

lemma number_point:
  assumes "list_all c_isdigit a" and "a \<noteq> []" and "hd a = CHR ''0'' \<Longrightarrow> tl a = []" and "list_all c_isdigit b" and "b \<noteq> []"
  defines "t \<equiv> a @ CHR ''.'' # b"
  shows "json_number t" "json_number (CHR ''-'' # t)"
    and "py_number t = py_repr (length b) (nat (read_digits (a @ b) 0))"
    and "py_number (CHR ''-'' # t) = CHR ''-'' # py_repr (length b) (nat (read_digits (a @ b) 0))"
proof -
  have "unsign t = t" "unsign (CHR ''-'' # t) = t" "t \<noteq> CHR ''-'' # t"
    using unsign_digits [OF assms(1,2), of "CHR ''.'' # b"] minus_digits [OF assms(1,2), of "CHR ''.'' # b"]
    by (simp_all add: unsign_def t_def)
  moreover have "takeWhile c_isdigit t = a" "dropWhile c_isdigit t = CHR ''.'' # b"
    using assms(1) by (simp_all add: t_def)
  ultimately show "json_number t" "json_number (CHR ''-'' # t)"
    "py_number t = py_repr (length b) (nat (read_digits (a @ b) 0))"
    "py_number (CHR ''-'' # t) = CHR ''-'' # py_repr (length b) (nat (read_digits (a @ b) 0))"
    using assms(2-5) unfolding json_number_def py_number_def Let_def by simp_all
qed

lemma number_int: "json_number (print_int i)" "py_number (print_int i) = print_int i"
  using number_whole [OF print_nat_digits print_nat_not_empty print_nat_zero, of "nat \<bar>i\<bar>"]
  by (auto simp: print_int_def read_print_nat)

lemma number_nat: "json_number (print_nat n)" "py_number (print_nat n) = print_nat n"
  using number_int [of "int n"] by (simp_all add: print_int_def)

lemma number_fixed:
  assumes "0 < n"
  shows "json_number (fmt_fixed n x)" "py_number (fmt_fixed n x) = (if x < 0 then ''-'' else []) @ py_repr n (dec_round n x)"
proof -
  let ?m = "dec_round n x"
  have "pad_nat n (?m mod 10 ^ n) \<noteq> []"
    using assms by (metis list.size(3) less_irrefl pad_nat_length)
  note num = number_point [OF print_nat_digits print_nat_not_empty print_nat_zero pad_nat_digits this, of "?m div 10 ^ n"]
  have "read_digits (print_nat (?m div 10 ^ n) @ pad_nat n (?m mod 10 ^ n)) 0 = int ?m"
    by (subst read_print_nat_acc) (simp_all add: div_mult_mod_eq)
  then show "json_number (fmt_fixed n x)" "py_number (fmt_fixed n x) = (if x < 0 then ''-'' else []) @ py_repr n ?m"
    using num assms by (auto simp: fmt_fixed_def dec_text_def)
qed

lemma tokch_texts: "list_all is_tokch (print_nat n)" "list_all is_tokch (print_int i)" "list_all is_tokch (fmt_fixed k x)"
proof -
  show nat: "list_all is_tokch (print_nat n)" for n
    using print_nat_digits [of n] by (auto simp: list_all_iff is_tokch_def is_numch_def)
  then show "list_all is_tokch (print_int i)"
    by (simp add: print_int_def is_tokch_def)
  show "list_all is_tokch (fmt_fixed k x)"
    using dec_text_numch [of k "dec_round k x"] by (auto simp: fmt_fixed_def list_all_iff is_tokch_def)
qed

end
