(* ===== verification/Harness.thy ===== *)
theory Harness
  imports Text_Tools Loadgen_Report
begin

text \<open>
  The referee \<open>research/harness/run.sh\<close>: what it reads out of the load generator's output, the
  smoke test, the gate of a measured step, and the score over the repetitions. Files, processes
  and performance counters are inputs: a step gets the output of its load generator and the CPU
  times before and after. \<open>awk\<close> compares two numerals as doubles.
\<close>

subsection \<open>The rules (\<open>harness/config\<close>)\<close>

definition DROP_CEILING :: string where "DROP_CEILING = ''0.0001''"

subsection \<open>Reading a report\<close>

definition is_az :: "char \<Rightarrow> bool" where
  "is_az c \<longleftrightarrow> 97 \<le> (of_char c :: nat) \<and> (of_char c :: nat) \<le> 122"

text \<open>\<open>$(echo "$res" | sed 's/.*"key":\([0-9.]*\).*/\1/')\<close>\<close>

definition get_num :: "string \<Rightarrow> string \<Rightarrow> string" where
  "get_num key res = echo_pipe (sed_keep (json_key key) is_numch) res"

text \<open>\<open>$(echo "$res" | sed 's/.*"completed":\([0-9]*\).*/\1/')\<close>\<close>

definition get_completed :: "string \<Rightarrow> string" where
  "get_completed res = echo_pipe (sed_keep (json_key ''completed'') c_isdigit) res"

text \<open>\<open>$(echo "$res" | grep -o '"reply_ok":[a-z]*' | cut -d: -f2)\<close>\<close>

definition get_reply_ok :: "string \<Rightarrow> string" where
  "get_reply_ok res = echo_pipe (\<lambda>l. map cut_2 (grep_o (json_key ''reply_ok'') is_az l)) res"

text \<open>\<open>${s:-d}\<close>\<close>

definition or_default :: "string \<Rightarrow> string \<Rightarrow> string" where
  "or_default s d = (if s = [] then d else s)"

subsection \<open>The smoke test\<close>

text \<open>
  One attempt: the text \<open>"reply_ok":true\<close> occurs, and the number of completed connections is at
  least 100 (\<open>test\<close> fails on anything that is no number).
\<close>

fun occurs :: "string \<Rightarrow> string \<Rightarrow> bool" where
  "occurs lit [] \<longleftrightarrow> lit = []"
| "occurs lit (c # cs) \<longleftrightarrow> take (length lit) (c # cs) = lit \<or> occurs lit cs"

definition test_ge :: "string \<Rightarrow> int \<Rightarrow> bool" where
  "test_ge s k \<longleftrightarrow> s \<noteq> [] \<and> list_all c_isdigit s \<and> k \<le> read_digits s 0"

definition smoke_passes :: "string \<Rightarrow> bool" where
  "smoke_passes res \<longleftrightarrow> occurs (json_key ''reply_ok'' @ ''true'') res \<and> test_ge (get_completed res) 100"

subsection \<open>A measured step\<close>

record step =
  M_COMP :: string
  M_CPU :: string
  M_RECVQ :: string
  M_DROP :: string
  M_GATE :: bool

text \<open>\<open>awk 'BEGIN{printf "%.3f", d/(c*w*1000000)}'\<close>, when both CPU times could be read.\<close>

definition cpu_util :: "(rat \<Rightarrow> rat) \<Rightarrow> int option \<Rightarrow> int option \<Rightarrow> nat \<Rightarrow> int \<Rightarrow> string" where
  "cpu_util rnd u0 u1 cores wall =
     (case (u0, u1) of
        (Some u0, Some u1) \<Rightarrow>
          fmt_fixed 3 (rnd (rnd (of_int (u1 - u0)) / rnd (rnd (of_nat cores * of_int wall) * 1000000)))
      | _ \<Rightarrow> ''0'')"

definition measure_step ::
  "(string \<Rightarrow> string \<Rightarrow> bool) \<Rightarrow> string \<Rightarrow> string \<Rightarrow> string \<Rightarrow> step" where
  "measure_step awk_less res cpuutil mq =
     (let comp = get_num ''completed_cps'' res;
          drop = get_num ''drop_rate'' res;
          ok = get_reply_ok res
      in \<lparr>M_COMP = or_default comp ''0'', M_CPU = cpuutil, M_RECVQ = or_default mq ''0'',
          M_DROP = or_default drop ''1'',
          M_GATE = (ok = ''true'' \<and> awk_less (or_default drop ''1'') DROP_CEILING)\<rparr>)"

text \<open>
  \<open>awk\<close> compares values that look like numbers as doubles, and doubles tell numerals of at most
  15 digits apart.
\<close>

definition awk_numeric :: "(string \<Rightarrow> string \<Rightarrow> bool) \<Rightarrow> (rat \<Rightarrow> rat) \<Rightarrow> bool" where
  "awk_numeric lt rnd \<longleftrightarrow>
     (\<forall>a b x y. dec_read a = Some x \<longrightarrow> dec_read b = Some y \<longrightarrow> lt a b = (rnd x < rnd y))"

definition dbl_dig :: "(rat \<Rightarrow> rat) \<Rightarrow> bool" where
  "dbl_dig rnd \<longleftrightarrow>
     (\<forall>i j n. i < j \<longrightarrow> j < 10 ^ 15 \<longrightarrow> n \<le> 15 \<longrightarrow> rnd (of_nat i / 10 ^ n) < rnd (of_nat j / 10 ^ n))"

subsection \<open>The fields of a report\<close>

definition report_fields :: "(rat \<Rightarrow> rat) \<Rightarrow> lg_report \<Rightarrow> (string \<times> string) list" where
  "report_fields rnd r =
     (let a = r_totals r
      in [(''offered'', fmt_lu (a_offered a) @ '',''),
          (''completed'', fmt_lu (a_completed a) @ '',''),
          (''failed'', fmt_lu (a_failed_total a) @ '',''),
          (''offered_cps'', fmt_fixed 1 (r_off_cps r) @ '',''),
          (''completed_cps'', fmt_fixed 1 (r_comp_cps r) @ '',''),
          (''failed_cps'', fmt_fixed 1 (r_fail_cps r) @ '',''),
          (''drop_rate'', fmt_fixed 6 (r_drop r) @ '',''),
          (''reply_ok'', (if r_reply_ok r then ''true'' else ''false'') @ '',''),
          (''sampled'', fmt_lu (a_stot a) @ '',''),
          (''sampled_bad'', fmt_lu (a_sbad a) @ '',''),
          (''p50_ms'', fmt_fixed 3 (in_ms rnd (r_p50us r)) @ '',''),
          (''p99_ms'', fmt_fixed 3 (in_ms rnd (r_p99us r)) @ '',''),
          (''p99_9_ms'', fmt_fixed 3 (in_ms rnd (r_p999us r)) @ '',''),
          (''max_ms'', fmt_fixed 3 (in_ms rnd (r_maxus r)) @ '',''),
          (''loadgen_cpu'', fmt_fixed 4 (r_cpu_frac r) @ '',''),
          (''loadgen_cores'', print_int (r_cores r) @ '',''),
          (''source_ips'', print_nat (r_source_ips r) @ '',''),
          (''threads'', print_int (r_threads r) @ '',''),
          (''fail_reasons'', ''{''),
          (''connect'', fmt_lu (a_failed a F_CONNECT) @ '',''),
          (''reset'', fmt_lu (a_failed a F_RESET) @ '',''),
          (''timeout'', fmt_lu (a_failed a F_TIMEOUT) @ '',''),
          (''truncated'', fmt_lu (a_failed a F_TRUNC) @ '',''),
          (''wrongbytes'', fmt_lu (a_failed a F_WRONGBYTES) @ '',''),
          (''other'', fmt_lu (a_failed a F_OTHER) @ ''}}'')])"

lemma lg_print_fields: "lg_print rnd r = ''{'' @ field_text (report_fields rnd r) @ [NL]"
  by (simp add: lg_print_def report_fields_def F_REASONS_def Let_def)

lemma digits_plain: "list_all c_isdigit s \<Longrightarrow> plain s"
  by (auto simp: plain_def list_all_iff c_isdigit_def digit_val_def)

lemma print_plain: "plain (print_nat n)" "plain (print_int x)" "plain (dec_text n m)" "plain (fmt_fixed n q)"
  "plain (fmt_lu w)"
proof -
  show nat: "plain (print_nat n)" for n
    by (rule digits_plain [OF print_nat_digits])
  then show "plain (print_int x)" "plain (fmt_lu w)"
    by (auto simp: print_int_def fmt_lu_def plain_def)
  show dec: "plain (dec_text n m)" for n m
    using nat [of "m div 10 ^ n"] digits_plain [OF pad_nat_digits [of n "m mod 10 ^ n"]]
    by (auto simp: dec_text_def plain_def)
  then show "plain (fmt_fixed n q)"
    by (auto simp: fmt_fixed_def plain_def)
qed

lemma plain_append [simp]: "plain (s @ t) \<longleftrightarrow> plain s \<and> plain t"
  by (auto simp: plain_def)

lemma report_fields_ok: "fields_ok (report_fields rnd r)"
  by (simp add: fields_ok_def report_fields_def Let_def is_name_def print_plain)
    (simp add: plain_def)

text \<open>What the harness has in \<open>$res\<close>: the line without its newline.\<close>

lemma report_line: "subst_out (lg_print rnd r) = CHR ''{'' # field_text (report_fields rnd r)"
  using subst_out_line [of "CHR ''{'' # field_text (report_fields rnd r)"] field_text_no_NL [OF report_fields_ok]
  by (simp add: lg_print_fields)

end
