(* ===== verification/Remote.thy ===== *)
theory Remote
  imports Json Harness
begin

text \<open>
  The load generator on another machine: \<open>research/loadgen/loadgen-server.py\<close> turns the query of the
  harness into a command line, runs the load generator and answers with its last line of output,
  read and printed again by Python. \<open>int\<close>, \<open>float\<close> and \<open>str\<close> of a float, the JSON text of a string and
  the quoting of a command line are parameters. On the other side, \<open>loadgen_run\<close> of
  \<open>research/harness/run.sh\<close> asks for a run here or there.
\<close>

record py_env =
  py_loadgen :: string \<comment> \<open>\<open>LOADGEN\<close>, the path of the load generator\<close>
  py_max_duration :: int \<comment> \<open>\<open>MAX_DURATION\<close>, 120 unless the environment says otherwise\<close>
  py_int :: "string \<Rightarrow> int option" \<comment> \<open>\<open>None\<close>: ValueError\<close>
  py_float :: "string \<Rightarrow> rat option"
  py_str_float :: "rat \<Rightarrow> string"
  py_json_str :: "string \<Rightarrow> string"
  py_cmdline :: "string list \<Rightarrow> string"
  py_exception :: string \<comment> \<open>the text of an exception\<close>

definition is_alnum :: "char \<Rightarrow> bool" where
  "is_alnum c \<longleftrightarrow> c_isdigit c \<or> is_az c \<or> 65 \<le> (of_char c :: nat) \<and> (of_char c :: nat) \<le> 90"

text \<open>\<open>g(k, d)\<close>\<close>

definition q_get :: "(string \<rightharpoonup> string) \<Rightarrow> string \<Rightarrow> string \<Rightarrow> string" where
  "q_get q k d = (case q k of Some v \<Rightarrow> v | None \<Rightarrow> d)"

text \<open>\<open>min(float(g("duration", "5")), MAX_DURATION)\<close>, as \<open>str\<close> prints it: the bound is an \<open>int\<close>.\<close>

definition dur_text :: "py_env \<Rightarrow> rat \<Rightarrow> string" where
  "dur_text py d = (if of_int (py_max_duration py) < d then print_int (py_max_duration py) else py_str_float py d)"

definition host_ok :: "string \<Rightarrow> bool" where
  "host_ok host \<longleftrightarrow>
     (let h = filter (\<lambda>c. c \<notin> {CHR ''.'', CHR '':'', CHR ''-''}) host in h \<noteq> [] \<and> list_all is_alnum h)"

definition source_ch :: "char \<Rightarrow> bool" where
  "source_ch c \<longleftrightarrow> is_alnum c \<or> c \<in> {CHR ''.'', CHR '','', CHR '':'', CHR ''-''}"

text \<open>The command, or an exception.\<close>

definition remote_cmd :: "py_env \<Rightarrow> (string \<rightharpoonup> string) \<Rightarrow> string list option" where
  "remote_cmd py q =
     (let host = q_get q ''host'' ''127.0.0.1''
      in do {
        port \<leftarrow> py_int py (q_get q ''port'' ''31'');
        rate \<leftarrow> py_float py (q_get q ''rate'' ''1000'');
        conns \<leftarrow> py_int py (q_get q ''conns'' ''0'');
        dur \<leftarrow> py_float py (q_get q ''duration'' ''5'');
        threads \<leftarrow> py_int py (q_get q ''threads'' ''8'');
        sample \<leftarrow> py_int py (q_get q ''sample_pct'' ''5'');
        let source_ips = q_get q ''source_ips'' [];
        if \<not> host_ok host then None
        else
          let cmd = [py_loadgen py, ''--host'', host, ''--port'', print_int port, ''--duration'', dur_text py dur,
                ''--threads'', print_int threads, ''--sample-pct'', print_int sample] @
                (if 0 < conns then [''--conns'', print_int conns] else [''--rate'', py_str_float py rate])
          in if source_ips = [] then Some cmd
             else if \<not> list_all source_ch source_ips then None
             else Some (cmd @ [''--source-ips'', source_ips])
      })"

text \<open>\<open>out.stdout.strip().splitlines()[-1]\<close>\<close>

definition py_strip :: "string \<Rightarrow> string" where
  "py_strip s = rev (dropWhile c_isspace (rev (dropWhile c_isspace s)))"

definition last_line :: "string \<Rightarrow> string option" where
  "last_line s = (let ls = text_lines [] (py_strip s) in if ls = [] then None else Some (last ls))"

text \<open>
  The answer to \<open>GET /run\<close>: status and body. The run is \<open>None\<close> when it takes longer than the time
  limit; every exception is answered with 500.
\<close>

definition remote_run :: "py_env \<Rightarrow> (string list \<Rightarrow> process option) \<Rightarrow> (string \<rightharpoonup> string) \<Rightarrow> nat \<times> string" where
  "remote_run py run q =
     (let failed = (500, ''{'' @ json_key ''error'' @ py_json_str py (py_exception py) @ ''}'')
      in case remote_cmd py q of
           None \<Rightarrow> failed
         | Some cmd \<Rightarrow>
             (case run cmd of
                None \<Rightarrow> failed
              | Some p \<Rightarrow>
                  if p_exit p \<noteq> 0 then
                    (200, ''{'' @ json_key ''error'' @ py_json_str py ''loadgen failed'' @ '','' @
                       json_key ''stderr'' @ py_json_str py (take 400 (p_stderr p)) @ '','' @
                       json_key ''cmd'' @ py_json_str py (py_cmdline py cmd) @ ''}'')
                  else case Option.bind (last_line (p_stdout p)) json_loads of
                         None \<Rightarrow> failed
                       | Some v \<Rightarrow> (200, json_dumps v)))"

subsection \<open>The harness asks\<close>

text \<open>\<open>curl -f\<close> prints the body unless the status is an error.\<close>

definition curl_f :: "nat \<times> string \<Rightarrow> string" where
  "curl_f answer = (if fst answer < 400 then snd answer else [])"

record lg_request =
  rq_host :: string
  rq_port :: string
  rq_kind :: string \<comment> \<open>rate or conns\<close>
  rq_level :: string
  rq_dur :: string
  rq_threads :: string
  rq_sample :: string
  rq_source :: string

text \<open>\<open>parse_qs\<close> keeps no empty value.\<close>

definition remote_query :: "lg_request \<Rightarrow> string \<rightharpoonup> string" where
  "remote_query rq = map_of (filter (\<lambda>(k, v). v \<noteq> [])
     [(''host'', rq_host rq), (''port'', rq_port rq), (rq_kind rq, rq_level rq), (''duration'', rq_dur rq),
      (''threads'', rq_threads rq), (''sample_pct'', rq_sample rq), (''source_ips'', rq_source rq)])"

definition local_argv :: "lg_request \<Rightarrow> string list" where
  "local_argv rq =
     [''loadgen/loadgen'', ''--host'', rq_host rq, ''--port'', rq_port rq, ''--'' @ rq_kind rq, rq_level rq,
      ''--duration'', rq_dur rq, ''--threads'', rq_threads rq, ''--sample-pct'', rq_sample rq] @
     (if rq_source rq = [] then [] else [''--source-ips'', rq_source rq])"

text \<open>\<open>$(loadgen_run ...)\<close> for a remote load generator.\<close>

definition remote_res :: "py_env \<Rightarrow> (string list \<Rightarrow> process option) \<Rightarrow> lg_request \<Rightarrow> string" where
  "remote_res py run rq = subst_out (curl_f (remote_run py run (remote_query rq)))"

end
