(* ===== verification/Harness_Props.thy ===== *)
theory Harness_Props
  imports Harness Loadgen_Props
begin

text \<open>
  The harness and the load generator together: what the harness reads is what the load generator
  counted, and what the gate decides.
\<close>

subsection \<open>Concrete surroundings\<close>

lemma ref_rounding: "rounding (m_rnd ref_system)"
  by (simp add: rounding_def ref_system_def mono_def)

definition id_rnd :: "rat \<Rightarrow> rat" where "id_rnd x = x"

lemma id_rnd_ok: "rounding id_rnd" "dbl_dig id_rnd"
  by (simp_all add: rounding_def dbl_dig_def id_rnd_def mono_def divide_strict_right_mono)

definition ref_awk :: "string \<Rightarrow> string \<Rightarrow> bool" where
  "ref_awk a b \<longleftrightarrow> (case (dec_read a, dec_read b) of (Some x, Some y) \<Rightarrow> x < y | _ \<Rightarrow> False)"

lemma ref_awk_ok: "awk_numeric ref_awk id_rnd"
  by (simp add: awk_numeric_def ref_awk_def id_rnd_def)

lemma default_opts:
  "lg_defaults = lg_parse m (tl [''loadgen'']) lg_defaults" "4 = lg_threads lg_defaults"
  by (simp_all add: lg_defaults_def lg_threads_def)

lemma ref_main: "\<exists>r. lg_main ref_system [''loadgen''] = Some (Exited (0, Some r))"
proof -
  have threads: "\<forall>i < nat 4. thread_ok ref_system lg_defaults 4 i"
    by (intro allI impI ref_threads) (simp_all add: lg_defaults_def lg_threads_def)
  have sys: "m_inet_pton ref_system (lo_host lg_defaults) \<noteq> None" "m_calloc ref_system 0" "m_calloc ref_system 1"
    by (simp_all add: ref_system_def)
  obtain sts :: "lg_thread list" where "lg_main ref_system [''loadgen''] = Some (Exited (0, Some (lg_summary ref_system lg_defaults 4 (map t_w sts))))"
    by (rule lg_main_returns [OF default_opts sys threads]) blast
  then show ?thesis by blast
qed

subsection \<open>Reading\<close>

lemma fixed_numch: "0 \<le> x \<Longrightarrow> list_all is_numch (fmt_fixed n x)"
  by (simp add: fmt_fixed_def dec_text_numch)

lemma comma_not_in: "\<not> is_numch (CHR '','')" "\<not> c_isdigit (CHR '','')" "\<not> is_az (CHR '','')" "\<not> is_az (CHR '':'')"
  by (simp_all add: is_numch_def is_az_def c_isdigit_def digit_val_def)

lemma get_num_field:
  assumes "(k, fmt_fixed n x @ '','') \<in> set (report_fields rnd r)" and "0 \<le> x"
  shows "get_num k (subst_out (lg_print rnd r)) = fmt_fixed n x"
  unfolding get_num_def report_line
  by (rule sed_field [OF report_fields_ok assms(1) fixed_numch [OF assms(2)] comma_not_in(1)])

lemma get_completed_field: "get_completed (subst_out (lg_print rnd r)) = print_nat (unat (a_completed (r_totals r)))"
  unfolding get_completed_def report_line
  by (rule sed_field [OF report_fields_ok _ print_nat_digits comma_not_in(2)])
    (simp add: report_fields_def Let_def fmt_lu_def)

lemma get_reply_ok_field: "get_reply_ok (subst_out (lg_print rnd r)) = (if r_reply_ok r then ''true'' else ''false'')"
  unfolding get_reply_ok_def report_line
  by (rule grep_cut_field [OF report_fields_ok, where d = "CHR '',''"])
    (simp_all add: report_fields_def Let_def is_az_def)

text \<open>Every double of a report that the harness reads is non-negative.\<close>

lemma fp_div_nonneg: "rounding rnd \<Longrightarrow> 0 \<le> x \<Longrightarrow> 0 \<le> fp_div rnd n x"
proof -
  assume rnd: "rounding rnd" and x: "0 \<le> x"
  have "0 \<le> rnd (of_nat (unat n))"
    by (rule rounding_nonneg [OF rnd of_nat_0_le_iff])
  with x show ?thesis
    unfolding fp_div_def by (intro rounding_nonneg [OF rnd, of "_ / _"] divide_nonneg_nonneg)
qed

lemma lg_drop_nonneg: "rounding rnd \<Longrightarrow> 0 \<le> lg_drop rnd f n"
  using fp_div_nonneg [of rnd "rnd (of_nat (unat n))" f] rounding_nonneg [OF _ of_nat_0_le_iff, of rnd "unat n"]
  by (simp add: lg_drop_def)

definition pct_ok :: "lg_pct \<Rightarrow> bool" where
  "pct_ok p \<longleftrightarrow> 0 \<le> us_or_0 (q_p50 p) \<and> 0 \<le> us_or_0 (q_p99 p) \<and> 0 \<le> us_or_0 (q_p999 p)"

lemma pct_ok_set:
  "pct_ok (p\<lparr>q_c := c\<rparr>) = pct_ok p"
  "0 \<le> b \<Longrightarrow> pct_ok p \<Longrightarrow> pct_ok (if P then p\<lparr>q_p50 := Some (b * HUS_PER)\<rparr> else p)"
  "0 \<le> b \<Longrightarrow> pct_ok p \<Longrightarrow> pct_ok (if P then p\<lparr>q_p99 := Some (b * HUS_PER)\<rparr> else p)"
  "0 \<le> b \<Longrightarrow> pct_ok p \<Longrightarrow> pct_ok (p\<lparr>q_p999 := Some (b * HUS_PER)\<rparr>)"
  by (simp_all add: pct_ok_def us_or_0_def HUS_PER_def)

lemma pct_nonneg: "0 \<le> b \<Longrightarrow> pct_ok p \<Longrightarrow> pct_ok (pct_loop rnd tot b h p)"
proof (induction h arbitrary: b p)
  case (Cons x h)
  have step: "pct_ok (let p = f p in if P p then p\<lparr>q_p999 := Some (b * HUS_PER)\<rparr> else pct_loop rnd tot (b + 1) h p)"
    if "pct_ok (f p)" for f P
    using that Cons.IH [of "b + 1"] Cons.prems(1) by (simp add: Let_def pct_ok_set(4))
  show ?case
    unfolding pct_loop.simps Let_def
    by (rule step [unfolded Let_def]) (intro pct_ok_set(2,3) Cons.prems(1), simp add: pct_ok_set(1) Cons.prems(2))
qed simp

lemma max_loop_nonneg: "0 \<le> b \<Longrightarrow> 0 \<le> m \<Longrightarrow> 0 \<le> max_loop b h m"
  by (induction h arbitrary: b m) (auto simp: HUS_PER_def)

lemma summary_nonneg:
  assumes "rounding (m_rnd m)" and "r = lg_summary m opts threads ws"
  shows "0 \<le> r_comp_cps r" "0 \<le> r_drop r" "0 \<le> r_p99us r" "0 \<le> r_p999us r" "0 \<le> r_maxus r"
proof -
  have "pct_ok (pct_loop (m_rnd m) tot 0 h \<lparr>q_c = 0, q_p50 = None, q_p99 = None, q_p999 = None\<rparr>)" for tot h
    by (rule pct_nonneg) (simp_all add: pct_ok_def us_or_0_def)
  then show "0 \<le> r_comp_cps r" "0 \<le> r_drop r" "0 \<le> r_p99us r" "0 \<le> r_p999us r" "0 \<le> r_maxus r"
    using assms max_loop_nonneg [of 0 0]
    by (simp_all add: lg_summary_def percentiles_def Let_def fp_div_nonneg lg_drop_nonneg pct_ok_def)
qed

lemma lg_main_summary:
  assumes "lg_main m argv = Some (Exited (0, Some r))"
  shows "\<exists>opts threads ws. r = lg_summary m opts threads ws"
  using assms by (auto simp: lg_main_def Let_def split: if_splits option.splits loop_exit.splits)

lemma loadgen_stdout:
  "lg_main m argv = Some (Exited (0, Some r)) \<Longrightarrow>
   loadgen m argv = Some (Exited \<lparr>p_exit = 0, p_stdout = lg_print (m_rnd m) r, p_stderr = []\<rparr>)"
  by (simp add: loadgen_def)

subsection \<open>The gate\<close>

lemma round_below: "round_even x < 100 \<longleftrightarrow> x < 199 / 2"
proof
  assume "x < 199 / 2"
  then show "round_even x < 100"
    using round_even_close [of x] by linarith
next
  assume "round_even x < 100"
  moreover have "round_even (199 / 2) = 100"
  proof -
    have "\<lfloor>199 / 2 :: rat\<rfloor> = 99"
      by (rule floor_unique) simp_all
    then show ?thesis
      by (simp add: round_even_def)
  qed
  ultimately show "x < 199 / 2"
    using round_even_mono [of "199 / 2" x] by linarith
qed

lemma dec_round_below: "0 \<le> x \<Longrightarrow> dec_round 6 x < 100 \<longleftrightarrow> x < 199 / 2000000"
  using round_below [of "x * 10 ^ 6"] by (simp add: dec_round_def nat_less_iff) linarith

text \<open>What \<open>awk\<close> makes of a drop rate with six decimals.\<close>

lemma awk_below_ceiling:
  assumes "awk_numeric lt rnd" and "rounding rnd" and "dbl_dig rnd" and "dec_read s = Some (of_nat k / 10 ^ 6)"
  shows "lt s DROP_CEILING \<longleftrightarrow> k < 100"
proof -
  have "dec_read DROP_CEILING = Some (of_nat 100 / 10 ^ 6)"
    by (simp add: DROP_CEILING_def dec_read_def c_isdigit_def digit_val_def)
  then have lt: "lt s DROP_CEILING \<longleftrightarrow> rnd (of_nat k / 10 ^ 6) < rnd (of_nat 100 / 10 ^ 6)"
    using assms(1,4) unfolding awk_numeric_def by blast
  show ?thesis
  proof (cases "k < 100")
    case True
    then have "rnd (of_nat k / 10 ^ 6) < rnd (of_nat 100 / 10 ^ 6)"
      by (intro assms(3) [unfolded dbl_dig_def, rule_format]) simp_all
    with True lt show ?thesis
      by simp
  next
    case False
    then have "of_nat 100 / 10 ^ 6 \<le> (of_nat k / 10 ^ 6 :: rat)"
      by (intro divide_right_mono) simp_all
    then have "rnd (of_nat 100 / 10 ^ 6) \<le> rnd (of_nat k / 10 ^ 6)"
      using assms(2) unfolding rounding_def by (metis monoD)
    with False lt show ?thesis
      by simp
  qed
qed

lemma fixed_not_empty: "fmt_fixed n x \<noteq> []"
  by (simp add: fmt_fixed_def dec_text_def print_nat_not_empty)

lemma gate_of_report:
  assumes "0 \<le> r_drop r" and "awk_numeric lt rnd" and "rounding rnd" and "dbl_dig rnd"
  shows "M_GATE (measure_step lt (subst_out (lg_print mrnd r)) cpu mq) \<longleftrightarrow> r_reply_ok r \<and> r_drop r < 199 / 2000000"
proof -
  have "get_num ''drop_rate'' (subst_out (lg_print mrnd r)) = fmt_fixed 6 (r_drop r)"
    by (rule get_num_field [OF _ assms(1)]) (simp add: report_fields_def Let_def)
  moreover from awk_below_ceiling [OF assms(2-4) dec_read_fixed [OF assms(1)]]
  have "lt (fmt_fixed 6 (r_drop r)) DROP_CEILING \<longleftrightarrow> r_drop r < 199 / 2000000"
    by (simp add: dec_round_below [OF assms(1)])
  ultimately show ?thesis
    by (simp add: measure_step_def Let_def get_reply_ok_field or_default_def fixed_not_empty)
qed

text \<open>
  C12. What the harness takes out of the load generator's output with \<open>sed\<close>, \<open>grep\<close> and \<open>cut\<close> is what
  the load generator counted: the number of completed connections is read back exactly, the
  completed rate, the drop rate and the latencies are the printed decimals of the report's doubles
  (one, six and three places, rounded to even), and the verdict on the replies is the flag of the
  report; no other field of the line is mistaken for the one that is asked for. Hence the gate of a
  measured step passes exactly if no sampled reply of any thread was wrong and the drop rate is
  below 0.0000995, the ceiling of 0.0001 less half a unit of the last printed decimal.
\<close>

theorem harness_reads_report:
  assumes "lg_main m argv = Some (Exited (0, Some r))" and "rounding (m_rnd m)"
    and "awk_numeric lt rnd" and "rounding rnd" and "dbl_dig rnd"
  shows "\<exists>out. loadgen m argv = Some (Exited \<lparr>p_exit = 0, p_stdout = out, p_stderr = []\<rparr>) \<and>
     (let res = subst_out out
      in read_digits (get_completed res) 0 = uint (a_completed (r_totals r)) \<and>
         dec_read (get_num ''completed_cps'' res) = Some (of_nat (dec_round 1 (r_comp_cps r)) / 10) \<and>
         dec_read (get_num ''drop_rate'' res) = Some (of_nat (dec_round 6 (r_drop r)) / 10 ^ 6) \<and>
         dec_read (get_num ''p99_ms'' res) = Some (of_nat (dec_round 3 (in_ms (m_rnd m) (r_p99us r))) / 10 ^ 3) \<and>
         dec_read (get_num ''p99_9_ms'' res) = Some (of_nat (dec_round 3 (in_ms (m_rnd m) (r_p999us r))) / 10 ^ 3) \<and>
         dec_read (get_num ''max_ms'' res) = Some (of_nat (dec_round 3 (in_ms (m_rnd m) (r_maxus r))) / 10 ^ 3) \<and>
         get_reply_ok res = (if a_sbad (r_totals r) = 0 then ''true'' else ''false'') \<and>
         (M_GATE (measure_step lt res cpu mq) \<longleftrightarrow> a_sbad (r_totals r) = 0 \<and>
            lg_drop (m_rnd m) (a_failed_total (r_totals r)) (a_offered (r_totals r)) < 199 / 2000000))"
proof -
  obtain opts threads ws where r: "r = lg_summary m opts threads ws"
    using lg_main_summary [OF assms(1)] by blast
  then have ok: "r_reply_ok r \<longleftrightarrow> a_sbad (r_totals r) = 0"
    and drop: "r_drop r = lg_drop (m_rnd m) (a_failed_total (r_totals r)) (a_offered (r_totals r))"
    by (simp_all add: lg_summary_def Let_def split: prod.splits)
  note nn = summary_nonneg [OF assms(2) r]
  have field: "dec_read (get_num k (subst_out (lg_print (m_rnd m) r))) = Some (of_nat (dec_round n x) / 10 ^ n)"
    if "(k, fmt_fixed n x @ '','') \<in> set (report_fields (m_rnd m) r)" "0 \<le> x" for k n x
    using get_num_field [OF that] dec_read_fixed [OF that(2)] by simp
  have ms: "0 \<le> in_ms (m_rnd m) us" if "0 \<le> us" for us
    using that by (simp add: in_ms_def rounding_nonneg [OF assms(2)])
  have gate: "M_GATE (measure_step lt (subst_out (lg_print (m_rnd m) r)) cpu mq) \<longleftrightarrow> a_sbad (r_totals r) = 0 \<and>
      lg_drop (m_rnd m) (a_failed_total (r_totals r)) (a_offered (r_totals r)) < 199 / 2000000"
    using gate_of_report [OF nn(2) assms(3-5)] ok drop by simp
  show ?thesis
    unfolding Let_def
    by (intro exI conjI, rule loadgen_stdout [OF assms(1)])
      (simp_all add: get_completed_field get_reply_ok_field ok gate read_print_nat
        field [where n = 1, unfolded power_one_right] field nn ms report_fields_def Let_def)
qed

theorem harness_reads_report_witness:
  "\<exists>r out. lg_main ref_system [''loadgen''] = Some (Exited (0, Some r)) \<and>
     loadgen ref_system [''loadgen''] = Some (Exited \<lparr>p_exit = 0, p_stdout = out, p_stderr = []\<rparr>) \<and>
     read_digits (get_completed (subst_out out)) 0 = uint (a_completed (r_totals r)) \<and>
     (M_GATE (measure_step ref_awk (subst_out out) ''0.500'' ''3'') \<longleftrightarrow> a_sbad (r_totals r) = 0 \<and>
        lg_drop (m_rnd ref_system) (a_failed_total (r_totals r)) (a_offered (r_totals r)) < 199 / 2000000)"
proof -
  obtain r where r: "lg_main ref_system [''loadgen''] = Some (Exited (0, Some r))"
    using ref_main by blast
  from harness_reads_report [OF r ref_rounding ref_awk_ok id_rnd_ok, of "''0.500''" "''3''"] r show ?thesis
    unfolding Let_def by blast
qed

subsection \<open>A load generator that cannot start anything\<close>

text \<open>No thread gets a socket (the process is out of descriptors).\<close>

definition no_sockets :: "loadgen_env \<Rightarrow> bool" where
  "no_sockets env \<longleftrightarrow> (\<forall>h. g_socket env h < 0)"

definition idle :: "lg_thread \<Rightarrow> bool" where
  "idle st \<longleftrightarrow> t_heap st = Map.empty \<and> t_inflight st = 0 \<and> lw_offered (t_w st) = 0 \<and>
     lw_completed (t_w st) = 0 \<and> lw_sampled_bad (t_w st) = 0"

lemma count_fail_bad [simp]: "lw_sampled_bad (count_fail r n w) = lw_sampled_bad w"
  by (simp add: count_fail_def)

lemma idle_frame [simp]: "idle (lcall k st) = idle st" "idle (st\<lparr>t_next_start := x\<rparr>) = idle st"
  by (simp_all add: idle_def lcall_def)

lemma start_one_idle:
  assumes "no_sockets env" and "idle st"
  shows "\<exists>st'. start_one env g_src st = Some (False, st') \<and> idle st'"
  using assms by (simp add: start_one_def conn_start_def no_sockets_def idle_def Let_def)

lemma start_closed_idle:
  assumes "no_sockets env" and "idle st" and "start_closed env g_src pl t st = Some st'"
  shows "idle st'"
  using assms start_one_idle [of env st g_src]
  by (auto simp: start_closed.simps [of env g_src pl t st] split: if_splits)

lemma start_open_idle:
  assumes "no_sockets env" and "idle st" and "start_open env g_src pl t st = Some st'"
  shows "idle st'"
proof -
  let ?P = "\<lambda>e s p u v r. e = env \<longrightarrow> s = g_src \<longrightarrow> idle v \<longrightarrow> idle r"
  have "?P env g_src pl t st st'"
  proof (rule start_open.raw_induct [where P = ?P, OF _ assms(3)], intro impI)
    fix f e s p u v r
    assume IH: "\<And>e s p u v r. f e s p u v = Some r \<Longrightarrow> ?P e s p u v r" and eq: "e = env" "s = g_src" "idle v"
      and res: "(if u < pl_tend p \<and> t_next_start v \<le> u \<and> t_inflight v < pl_cap p then
          Option.bind (start_one e s v) (\<lambda>(ok, st).
            let next_start = g_rnd e (t_next_start st + pl_interval p);
                next_start = (if next_start < u then u else next_start)
            in f e s p u (st\<lparr>t_next_start := next_start\<rparr>))
        else Some v) = Some r"
    obtain v' where "start_one env g_src v = Some (False, v')" "idle v'"
      using start_one_idle [OF assms(1) eq(3)] by blast
    with res eq IH show "idle r"
      by (auto simp: Let_def split: if_splits)
  qed
  with assms(2) show ?thesis by simp
qed

lemma lg_loop_body_idle:
  assumes "lg_contract env" and "no_sockets env" and "lg_inv st" and "idle st"
    and "lg_pacing env pl" and "lg_loop_body env g_src pl st = Some r"
  shows "case r of Continue st' \<Rightarrow> idle st' | Break st' \<Rightarrow> idle st'"
proof -
  define t where "t = seconds (g_rnd env) (g_clock env (t_log st))"
  define st1 where "st1 = lcall (L_clock (g_clock env (t_log st))) st"
  have now: "now_s env st = (t, st1)"
    by (simp add: now_s_def t_def st1_def Let_def)
  have st1: "idle st1" "lg_ready st1"
    using assms(3,4) by (simp_all add: st1_def lg_ready_def) (simp add: idle_def)
  show ?thesis
  proof (cases "pl_tend pl \<le> t \<and> t_inflight st1 = 0 \<or> pl_drain_deadline pl \<le> t")
    case True
    with now st1(1) assms(6) show ?thesis
      by (auto simp: lg_loop_body_def idle_def count_fail_simps split: if_splits)
  next
    case False
    obtain st2 where st2: "(if 0 < pl_target pl then start_closed env g_src pl t st1 else start_open env g_src pl t st1) = Some st2"
        "lg_ready st2"
      using start_phase_ok [OF assms(1,5) st1(2) t_def] by blast
    then have "idle st2"
      using start_closed_idle [OF assms(2) st1(1)] start_open_idle [OF assms(2) st1(1)] by (auto split: if_splits)
    moreover have "g_epoll_wait env (t_log st2) 1024 = []"
    proof -
      have "a \<notin> set (map fst (g_epoll_wait env (t_log st2) 1024))" for a
        using lg_contractD(5) [OF assms(1), of a "t_log st2" 1024] st2(2) \<open>idle st2\<close>
        by (auto simp: lg_ready_def lg_inv_def idle_def)
      then show ?thesis
        by (metis list.set_intros(1) list.map_disc_iff neq_Nil_conv)
    qed
    ultimately show ?thesis
      using False now st2(1) assms(6) by (auto simp: lg_loop_body_def Let_def)
  qed
qed

interpretation idle_loop: loop_contract "\<lambda>_. False" "lg_loop_body env g_src pl"
  "\<lambda>st. lg_contract env \<and> lg_pacing env pl \<and> no_sockets env \<and> lg_ready st \<and> idle st" idle "\<lambda>st. length (t_log st)"
proof (unfold_locales, goal_cases)
  case (1 st st')
  then show ?case
    using lg_loop_body_ok [of env pl st g_src] lg_loop_body_idle [of env st pl g_src "Continue st'"]
    by (auto simp: lg_ready_def)
next
  case (2 st st')
  then show ?case
    using lg_loop_body_idle [of env st pl g_src "Break st'"] by (auto simp: lg_ready_def)
next
  case (3 st)
  then show ?case
    using lg_loop_body_ok [of env pl st g_src] by auto
qed simp

lemma worker_main_idle:
  assumes "lg_contract env" and "no_sockets env" and "lg_fresh w" and "lw_sampled_bad w = 0"
    and "lg_pacing env (fst (lg_enter env w))" and "worker_main env g_src w = Some (Exited st)"
  shows "idle st"
proof -
  obtain pl st0 where enter: "lg_enter env w = (pl, st0)"
    by (cases "lg_enter env w")
  have "idle st0"
    using enter assms(3,4) by (auto simp: lg_enter_def now_s_def Let_def idle_def lg_fresh_def lcall_def)
  moreover obtain st1 where "run_loop (\<lambda>_. False) (lg_loop_body env g_src pl) st0 = Some (Exited st1)"
      "st = lcall (L_close (g_epoll_create env [])) st1"
    using assms(6) enter by (auto simp: worker_main_def split: option.splits loop_exit.splits)
  ultimately show ?thesis
    using idle_loop.exit_inv [of env g_src pl st0 "Exited st1"] lg_enter_ready [OF assms(3) enter] assms(1,2,5) enter
    by auto
qed

lemma add_failed_sbad: "a_sbad (fold (add_failed w) rs a) = a_sbad a"
  by (induction rs arbitrary: a) (simp_all add: add_failed_def)

lemma fold_add_worker_idle:
  "\<forall>st \<in> set sts. idle st \<Longrightarrow> a_offered (fold add_worker (map t_w sts) a) = a_offered a \<and>
     a_completed (fold add_worker (map t_w sts) a) = a_completed a \<and> a_sbad (fold add_worker (map t_w sts) a) = a_sbad a"
proof (induction sts arbitrary: a)
  case (Cons st sts)
  then have "a_offered (add_worker (t_w st) a) = a_offered a" "a_completed (add_worker (t_w st) a) = a_completed a"
      "a_sbad (add_worker (t_w st) a) = a_sbad a"
    by (simp_all add: add_worker_totals idle_def) (simp add: add_worker_def add_failed_sbad)
  with Cons show ?case
    by simp
qed simp

lemma no_sockets_report:
  assumes "opts = lg_parse m (tl argv) lg_defaults" and "threads = lg_threads opts"
    and "m_inet_pton m (lo_host opts) \<noteq> None" and "m_calloc m 0" and "m_calloc m 1"
    and "\<forall>i < nat threads. thread_ok m opts threads i \<and> no_sockets (m_thread m i)"
  obtains r sts where "lg_main m argv = Some (Exited (0, Some r))"
    and "list_all2 (\<lambda>i st. worker_main (m_thread m i) (lo_src opts) (lg_worker m opts threads (int i)) = Some (Exited st))
       [0..<nat threads] sts"
    and "a_completed (r_totals r) = 0" and "a_failed_total (r_totals r) = of_nat (\<Sum>st\<leftarrow>sts. refused (t_log st))"
    and "r_reply_ok r" and "r_drop r = 0"
proof -
  have "\<forall>i < nat threads. thread_ok m opts threads i"
    using assms(6) by blast
  then obtain sts where sts: "lg_main m argv = Some (Exited (0, Some (lg_summary m opts threads (map t_w sts))))"
    "\<forall>st \<in> set sts. lg_done st"
    "list_all2 (\<lambda>i st. worker_main (m_thread m i) (lo_src opts) (lg_worker m opts threads (int i)) = Some (Exited st))
      [0..<nat threads] sts"
    by (rule lg_main_returns [OF assms(1-5)])
  have "idle st" if "st \<in> set sts" for st
  proof -
    from that obtain k where k: "k < length sts" "st = sts ! k"
      by (metis in_set_conv_nth)
    with sts(3) have i: "k < nat threads" and
      run: "worker_main (m_thread m k) (lo_src opts) (lg_worker m opts threads (int k)) = Some (Exited st)"
      by (auto simp: list_all2_conv_all_nth)
    show ?thesis
      by (rule worker_main_idle [OF _ _ lg_worker_fresh _ _ run])
        (use assms(6) i in \<open>auto simp: thread_ok_def lg_worker_def\<close>)
  qed
  then have zero: "a_offered (aggregate (map t_w sts)) = 0" "a_sbad (aggregate (map t_w sts)) = 0"
      "a_completed (aggregate (map t_w sts)) = 0"
    unfolding aggregate_def using fold_add_worker_idle [of sts lg_zero] by (simp_all add: lg_zero_def)
  with aggregate_accounts [OF sts(2)] show thesis
    by (intro that [OF sts(1,3)]) (simp_all add: lg_summary_def lg_drop_def Let_def split: prod.splits)
qed

text \<open>
  C14. A run that could not start a single connection passes the gate. When no thread ever gets a
  socket, the load generator still exits with 0; it has offered and completed nothing and failed
  as often as it tried, but the drop rate is the quotient of failed and offered, which is taken as
  0 when nothing was offered: the harness reads a completed count of 0 and the gate says yes.
\<close>

theorem gate_blind:
  assumes "opts = lg_parse m (tl argv) lg_defaults" and "threads = lg_threads opts"
    and "m_inet_pton m (lo_host opts) \<noteq> None" and "m_calloc m 0" and "m_calloc m 1"
    and "\<forall>i < nat threads. thread_ok m opts threads i \<and> no_sockets (m_thread m i)"
    and "awk_numeric lt rnd" and "rounding rnd" and "dbl_dig rnd"
  shows "\<exists>out r sts. loadgen m argv = Some (Exited \<lparr>p_exit = 0, p_stdout = out, p_stderr = []\<rparr>) \<and>
     lg_main m argv = Some (Exited (0, Some r)) \<and>
     list_all2 (\<lambda>i st. worker_main (m_thread m i) (lo_src opts) (lg_worker m opts threads (int i)) = Some (Exited st))
       [0..<nat threads] sts \<and>
     a_completed (r_totals r) = 0 \<and> a_failed_total (r_totals r) = of_nat (\<Sum>st\<leftarrow>sts. refused (t_log st)) \<and>
     read_digits (get_completed (subst_out out)) 0 = 0 \<and> M_GATE (measure_step lt (subst_out out) cpu mq)"
proof -
  obtain r sts where r: "lg_main m argv = Some (Exited (0, Some r))"
    "list_all2 (\<lambda>i st. worker_main (m_thread m i) (lo_src opts) (lg_worker m opts threads (int i)) = Some (Exited st))
       [0..<nat threads] sts"
    "a_completed (r_totals r) = 0" "a_failed_total (r_totals r) = of_nat (\<Sum>st\<leftarrow>sts. refused (t_log st))"
    "r_reply_ok r" "r_drop r = 0"
    by (rule no_sockets_report [OF assms(1-6)])
  then have "M_GATE (measure_step lt (subst_out (lg_print (m_rnd m) r)) cpu mq)"
    using gate_of_report [OF _ assms(7-9), of r "m_rnd m" cpu mq] by simp
  moreover have "read_digits (get_completed (subst_out (lg_print (m_rnd m) r))) 0 = 0"
    using r(3) by (simp add: get_completed_field read_print_nat)
  ultimately show ?thesis
    using r(1-4) loadgen_stdout [OF r(1)] by blast
qed

definition deaf_loadgen :: loadgen_env where
  "deaf_loadgen = ref_loadgen\<lparr>g_socket := \<lambda>h. -1\<rparr>"

definition deaf_system :: lg_system where
  "deaf_system = ref_system\<lparr>m_thread := \<lambda>i. deaf_loadgen\<rparr>"

lemma deaf_contract: "lg_contract deaf_loadgen"
proof -
  have "- 1 \<notin> lg_open h" for h
    by (induction h rule: top_fd.induct) (auto split: if_splits)
  then show ?thesis
    using ref_loadgen_contract by (simp add: lg_contract_def deaf_loadgen_def)
qed

lemma deaf_thread:
  assumes "lo_conns opts = 0" and "lo_rate opts = 1000" and "lg_threads opts = 4"
  shows "thread_ok deaf_system opts 4 i \<and> no_sockets (m_thread deaf_system i)"
proof -
  have "thread_ok ref_system opts 4 i"
    by (rule ref_threads [OF assms])
  moreover have "lg_worker deaf_system opts threads k = lg_worker ref_system opts threads k" for opts threads k
    by (simp add: lg_worker_def deaf_system_def ref_system_def)
  moreover have "lg_enter deaf_loadgen w = lg_enter ref_loadgen w" for w
    by (simp add: lg_enter_def lg_plan_of_def now_s_def deaf_loadgen_def ref_loadgen_def Let_def)
  ultimately show ?thesis
    using deaf_contract by (simp add: thread_ok_def)
      (simp add: deaf_system_def deaf_loadgen_def ref_system_def no_sockets_def lg_pacing_def paced_def clock_runs_def)
qed

theorem gate_blind_witness:
  "\<exists>out r. loadgen deaf_system [''loadgen''] = Some (Exited \<lparr>p_exit = 0, p_stdout = out, p_stderr = []\<rparr>) \<and>
     lg_main deaf_system [''loadgen''] = Some (Exited (0, Some r)) \<and> a_completed (r_totals r) = 0 \<and>
     M_GATE (measure_step ref_awk (subst_out out) ''0.500'' ''3'')"
proof -
  have sys: "m_inet_pton deaf_system (lo_host lg_defaults) \<noteq> None" "m_calloc deaf_system 0" "m_calloc deaf_system 1"
    by (simp_all add: deaf_system_def ref_system_def)
  have "\<forall>i < nat 4. thread_ok deaf_system lg_defaults 4 i \<and> no_sockets (m_thread deaf_system i)"
    by (intro allI impI deaf_thread) (simp_all add: lg_defaults_def lg_threads_def)
  from gate_blind [OF default_opts sys this ref_awk_ok id_rnd_ok, of "''0.500''" "''3''"] show ?thesis
    by blast
qed

end
