(* ===== verification/Remote_Props.thy ===== *)
theory Remote_Props
  imports Remote Harness_Props
begin

text \<open>
  The remote load generator compared with the local one: it is started with the same options, and
  the gate decides differently on what it answers, because Python prints small numbers in another
  form than C.
\<close>

subsection \<open>The report, read and printed by Python\<close>

definition report_json :: "(rat \<Rightarrow> rat) \<Rightarrow> lg_report \<Rightarrow> json" where
  "report_json rnd r =
     (let a = r_totals r; lu = (\<lambda>w. JNum (fmt_lu w))
      in JObj [(''offered'', lu (a_offered a)), (''completed'', lu (a_completed a)), (''failed'', lu (a_failed_total a)),
          (''offered_cps'', JNum (fmt_fixed 1 (r_off_cps r))), (''completed_cps'', JNum (fmt_fixed 1 (r_comp_cps r))),
          (''failed_cps'', JNum (fmt_fixed 1 (r_fail_cps r))), (''drop_rate'', JNum (fmt_fixed 6 (r_drop r))),
          (''reply_ok'', JBool (r_reply_ok r)), (''sampled'', lu (a_stot a)), (''sampled_bad'', lu (a_sbad a)),
          (''p50_ms'', JNum (fmt_fixed 3 (in_ms rnd (r_p50us r)))), (''p99_ms'', JNum (fmt_fixed 3 (in_ms rnd (r_p99us r)))),
          (''p99_9_ms'', JNum (fmt_fixed 3 (in_ms rnd (r_p999us r)))), (''max_ms'', JNum (fmt_fixed 3 (in_ms rnd (r_maxus r)))),
          (''loadgen_cpu'', JNum (fmt_fixed 4 (r_cpu_frac r))), (''loadgen_cores'', JNum (print_int (r_cores r))),
          (''source_ips'', JNum (print_nat (r_source_ips r))), (''threads'', JNum (print_int (r_threads r))),
          (''fail_reasons'', JObj [(''connect'', lu (a_failed a F_CONNECT)), (''reset'', lu (a_failed a F_RESET)),
             (''timeout'', lu (a_failed a F_TIMEOUT)), (''truncated'', lu (a_failed a F_TRUNC)),
             (''wrongbytes'', lu (a_failed a F_WRONGBYTES)), (''other'', lu (a_failed a F_OTHER))])])"

lemma lg_print_json: "lg_print rnd r = json_text as_is (report_json rnd r) @ [NL]"
  by (simp add: lg_print_def report_json_def F_REASONS_def Let_def)

lemma report_json_ok: "json_ok (report_json rnd r)"
  by (simp add: report_json_def Let_def fmt_lu_def number_nat number_int number_fixed tokch_texts)

definition py_fixed :: "nat \<Rightarrow> rat \<Rightarrow> string" where
  "py_fixed n x = (if x < 0 then ''-'' else []) @ py_repr n (dec_round n x)"

definition remote_fields :: "(rat \<Rightarrow> rat) \<Rightarrow> lg_report \<Rightarrow> (string \<times> string) list" where
  "remote_fields rnd r =
     (let a = r_totals r
      in [(''offered'', fmt_lu (a_offered a) @ '',''),
          (''completed'', fmt_lu (a_completed a) @ '',''),
          (''failed'', fmt_lu (a_failed_total a) @ '',''),
          (''offered_cps'', py_fixed 1 (r_off_cps r) @ '',''),
          (''completed_cps'', py_fixed 1 (r_comp_cps r) @ '',''),
          (''failed_cps'', py_fixed 1 (r_fail_cps r) @ '',''),
          (''drop_rate'', py_fixed 6 (r_drop r) @ '',''),
          (''reply_ok'', (if r_reply_ok r then ''true'' else ''false'') @ '',''),
          (''sampled'', fmt_lu (a_stot a) @ '',''),
          (''sampled_bad'', fmt_lu (a_sbad a) @ '',''),
          (''p50_ms'', py_fixed 3 (in_ms rnd (r_p50us r)) @ '',''),
          (''p99_ms'', py_fixed 3 (in_ms rnd (r_p99us r)) @ '',''),
          (''p99_9_ms'', py_fixed 3 (in_ms rnd (r_p999us r)) @ '',''),
          (''max_ms'', py_fixed 3 (in_ms rnd (r_maxus r)) @ '',''),
          (''loadgen_cpu'', py_fixed 4 (r_cpu_frac r) @ '',''),
          (''loadgen_cores'', print_int (r_cores r) @ '',''),
          (''source_ips'', print_nat (r_source_ips r) @ '',''),
          (''threads'', print_int (r_threads r) @ '',''),
          (''fail_reasons'', ''{''),
          (''connect'', fmt_lu (a_failed a F_CONNECT) @ '',''),
          (''reset'', fmt_lu (a_failed a F_RESET) @ '',''),
          (''timeout'', fmt_lu (a_failed a F_TIMEOUT) @ '',''),
          (''truncated'', fmt_lu (a_failed a F_TRUNC) @ '',''),
          (''wrongbytes'', fmt_lu (a_failed a F_WRONGBYTES) @ '',''),
          (''other'', fmt_lu (a_failed a F_OTHER) @ ''}}'')])"

lemma remote_line: "json_dumps (report_json rnd r) = CHR ''{'' # field_text (remote_fields rnd r)"
  by (simp add: json_dumps_def report_json_def remote_fields_def Let_def fmt_lu_def number_nat number_int number_fixed py_fixed_def)

text \<open>The numerals Python prints have no quotes.\<close>

lemma strip_zeros_set: "set (strip_zeros ds) \<subseteq> set ds"
  by (auto simp: strip_zeros_def dest: set_dropWhileD)

lemma py_repr_plain: "plain (py_repr n m)"
proof (cases "m = 0")
  case False
  let ?ds = "strip_zeros (print_nat m)"
  have "?ds \<noteq> []"
    by (rule print_nat_parts [of m]) (use False in auto)
  then obtain c cs where c: "?ds = c # cs"
    by (cases ?ds) auto
  have "plain ?ds"
    using print_plain(1) [of m] strip_zeros_set [of "print_nat m"] by (auto simp: plain_def)
  moreover have "plain (take k ?ds)" "plain (drop k ?ds)" for k
    using calculation by (auto simp: plain_def dest: in_set_takeD in_set_dropD)
  moreover have "plain (py_exponent e)" for e
    using digits_plain [OF pad_nat_digits [of 2 "nat \<bar>e\<bar>"]] print_plain(1) [of "nat \<bar>e\<bar>"]
    by (auto simp: py_exponent_def plain_def)
  ultimately show ?thesis
    using c False by (auto simp: py_repr_def Let_def plain_def)
qed (simp add: py_repr_def plain_def)

lemma py_fixed_plain: "plain (py_fixed n x)"
  using py_repr_plain by (simp add: py_fixed_def plain_def)

lemma remote_fields_ok: "fields_ok (remote_fields rnd r)"
  by (simp add: fields_ok_def remote_fields_def Let_def is_name_def print_plain py_fixed_plain)
    (simp add: plain_def)

subsection \<open>What the harness gets\<close>

lemma line_bounds:
  obtains t where "json_text as_is (report_json rnd r) = CHR ''{'' # t @ ''}''" and "NL \<notin> set t"
proof -
  have "json_text as_is (report_json rnd r) @ [NL] = CHR ''{'' # field_text (report_fields rnd r) @ [NL]"
    using lg_print_json [of rnd r] lg_print_fields [of rnd r] by simp
  then have eq: "json_text as_is (report_json rnd r) = CHR ''{'' # field_text (report_fields rnd r)"
    by simp
  have "\<exists>ms. report_json rnd r = JObj ms"
    by (simp add: report_json_def Let_def)
  then obtain ms where "json_text as_is (report_json rnd r) = CHR ''{'' # members_text as_is ms @ ''}''"
    by auto
  moreover from this eq have "NL \<notin> set (members_text as_is ms)"
    using field_text_no_NL [OF report_fields_ok, of rnd r] by (metis Un_iff list.inject set_append)
  ultimately show thesis
    by (rule that)
qed

lemma last_line_report: "last_line (lg_print rnd r) = Some (json_text as_is (report_json rnd r))"
proof -
  obtain t where t: "json_text as_is (report_json rnd r) = CHR ''{'' # t @ ''}''" "NL \<notin> set t"
    by (rule line_bounds)
  have strip: "py_strip (CHR ''{'' # t @ ''}'' @ [NL]) = CHR ''{'' # t @ ''}''"
    by (simp add: py_strip_def c_isspace_def)
  have "text_lines acc s = [rev acc @ s]" if "NL \<notin> set s" "acc @ s \<noteq> []" for acc s
    using that by (induction s arbitrary: acc) auto
  from this [of "CHR ''{'' # t @ ''}''" "[]"] t(2) have "text_lines [] (CHR ''{'' # t @ ''}'') = [CHR ''{'' # t @ ''}'']"
    by simp
  with strip show ?thesis
    by (simp add: last_line_def lg_print_json t(1) Let_def)
qed

lemma remote_report:
  assumes "remote_cmd py (remote_query rq) = Some cmd"
    and "run cmd = Some \<lparr>p_exit = 0, p_stdout = lg_print rnd r, p_stderr = e\<rparr>"
  shows "remote_res py run rq = CHR ''{'' # field_text (remote_fields rnd r)"
proof -
  have "remote_run py run (remote_query rq) = (200, CHR ''{'' # field_text (remote_fields rnd r))"
    using assms by (simp add: remote_run_def last_line_report json_loads_text [OF report_json_ok] remote_line)
  moreover have "subst_out (CHR ''{'' # field_text (remote_fields rnd r)) = CHR ''{'' # field_text (remote_fields rnd r)"
    using field_text_no_NL [OF remote_fields_ok, of rnd r] by (intro subst_out_none) simp
  ultimately show ?thesis
    by (simp add: remote_res_def curl_f_def)
qed

lemma remote_completed:
  "get_completed (CHR ''{'' # field_text (remote_fields rnd r)) = print_nat (unat (a_completed (r_totals r)))"
  unfolding get_completed_def
  by (rule sed_field [OF remote_fields_ok _ print_nat_digits comma_not_in(2)])
    (simp add: remote_fields_def Let_def fmt_lu_def)

lemma remote_reply_ok:
  "get_reply_ok (CHR ''{'' # field_text (remote_fields rnd r)) = (if r_reply_ok r then ''true'' else ''false'')"
  unfolding get_reply_ok_def
  by (rule grep_cut_field [OF remote_fields_ok, where d = "CHR '',''"])
    (simp_all add: remote_fields_def Let_def is_az_def)

lemma remote_num:
  assumes "(k, py_fixed n x @ '','') \<in> set (remote_fields rnd r)" and "0 \<le> x"
  shows "get_num k (CHR ''{'' # field_text (remote_fields rnd r)) = takeWhile is_numch (py_repr n (dec_round n x) @ '','')"
proof -
  obtain pre post where fs: "remote_fields rnd r = pre @ (k, py_fixed n x @ '','') # post"
    using split_list [OF assms(1)] by auto
  let ?v = "py_repr n (dec_round n x)"
  have "after_last (json_key k) (CHR ''{'' # field_text (remote_fields rnd r)) = Some ((?v @ '','') @ field_text post)"
    using after_last_plain [of "[CHR ''{'']" k "field_text (remote_fields rnd r)"] after_last_field [of pre k "py_fixed n x @ '',''" post]
      remote_fields_ok [of rnd r] assms(2) by (simp add: fs py_fixed_def)
  moreover have "takeWhile is_numch ((?v @ '','') @ field_text post) = takeWhile is_numch (?v @ '','')"
    using comma_not_in(1) by (simp add: takeWhile_append)
  moreover have "NL \<notin> set (takeWhile is_numch (?v @ '',''))"
    by (auto simp: is_numch_def c_isdigit_def digit_val_def dest: set_takeWhileD)
  ultimately show ?thesis
    using field_text_no_NL [OF remote_fields_ok, of rnd r]
    unfolding get_num_def by (intro echo_pipe_one) (auto simp: sed_keep_def)
qed

text \<open>
  What is read for a drop rate of \<open>k\<close> millionths: zero for zero, at least one for the rates below the
  ceiling, and the rate itself from the ceiling on.
\<close>

lemma remote_drop_read:
  assumes "k < 10 ^ 15"
  shows "\<exists>x. dec_read (takeWhile is_numch (py_repr 6 k @ '','')) = Some x \<and>
     (if k = 0 then x = 0 else if k < 100 then 1 \<le> x else x = of_nat k / 10 ^ 6)"
proof -
  consider "k = 0" | "0 < k" "k < 100" | "100 \<le> k"
    by linarith
  then show ?thesis
  proof cases
    case 1
    then show ?thesis
      by (simp add: py_repr_def is_numch_def dec_read_def c_isdigit_def digit_val_def)
  next
    case 2
    with print_nat_short [of k 2] py_repr_scientific [of k 6 "'',''"] show ?thesis
      by auto
  next
    case 3
    with assms print_nat_long [of 2 k] print_nat_short [of k 15]
    have r: "dec_read (py_repr 6 k) = Some (of_nat k / 10 ^ 6)"
      by (intro py_repr_positional) auto
    moreover have "takeWhile is_numch (py_repr 6 k @ '','') = py_repr 6 k"
      using dec_read_numch [OF r] comma_not_in(1) by (simp add: takeWhile_append list_all_iff)
    ultimately show ?thesis
      using 3 by (intro exI [of _ "of_nat k / 10 ^ 6"]) simp
  qed
qed

lemma remote_gate_of_report:
  assumes "0 \<le> r_drop r" and "dec_round 6 (r_drop r) < 10 ^ 15" and awk: "awk_numeric lt rnd" "rounding rnd" "dbl_dig rnd"
  shows "M_GATE (measure_step lt (CHR ''{'' # field_text (remote_fields mrnd r)) cpu mq) \<longleftrightarrow>
     r_reply_ok r \<and> dec_round 6 (r_drop r) = 0"
proof -
  let ?k = "dec_round 6 (r_drop r)" and ?res = "CHR ''{'' # field_text (remote_fields mrnd r)"
  have num: "get_num ''drop_rate'' ?res = takeWhile is_numch (py_repr 6 ?k @ '','')"
    by (rule remote_num [OF _ assms(1)]) (simp add: remote_fields_def Let_def)
  obtain x where x: "dec_read (get_num ''drop_rate'' ?res) = Some x"
    "if ?k = 0 then x = 0 else if ?k < 100 then 1 \<le> x else x = of_nat ?k / 10 ^ 6"
    using remote_drop_read [OF assms(2)] num by auto
  then have ne: "get_num ''drop_rate'' ?res \<noteq> []"
    by (auto simp: dec_read_def)
  have "lt (get_num ''drop_rate'' ?res) DROP_CEILING \<longleftrightarrow> ?k = 0"
  proof (cases "0 < ?k \<and> ?k < 100")
    case True
    have "dec_read DROP_CEILING = Some (1 / 10000)"
      by (simp add: DROP_CEILING_def dec_read_def c_isdigit_def digit_val_def)
    then have "lt (get_num ''drop_rate'' ?res) DROP_CEILING \<longleftrightarrow> rnd x < rnd (1 / 10000)"
      using awk(1) x(1) unfolding awk_numeric_def by blast
    moreover have "rnd (1 / 10000) \<le> rnd x"
      using awk(2) True x(2) unfolding rounding_def by (intro monoD [of rnd]) auto
    ultimately show ?thesis
      using True by simp
  next
    case False
    with x(2) have "x = of_nat ?k / 10 ^ 6"
      by (auto split: if_splits)
    with awk_below_ceiling [OF awk] x(1) False show ?thesis
      by auto
  qed
  then show ?thesis
    using ne by (simp add: measure_step_def Let_def remote_reply_ok or_default_def)
qed

subsection \<open>The gate on a remote report\<close>

text \<open>
  C24. The same run of the load generator, measured over the remote interface, is judged by another
  gate: it passes exactly if the replies are right and the printed drop rate is 0.000000. The server
  claims to pass the report on byte for byte, but Python prints a float below 0.0001 in scientific
  notation, of which the harness reads the mantissa only; so every drop rate that is positive
  and below the ceiling, which passes locally, is taken for at least 100 percent. The number of
  completed connections is read as locally.
\<close>

theorem remote_gate_stricter:
  assumes "remote_cmd py (remote_query rq) = Some cmd" and "lg_main m cmd = Some (Exited (0, Some r))"
    and "loadgen m cmd = Some (Exited p)" and "run cmd = Some p" and "rounding (m_rnd m)"
    and "dec_round 6 (r_drop r) < 10 ^ 15" and "awk_numeric lt rnd" and "rounding rnd" and "dbl_dig rnd"
  shows "get_completed (remote_res py run rq) = get_completed (subst_out (p_stdout p)) \<and>
     (M_GATE (measure_step lt (subst_out (p_stdout p)) cpu mq) \<longleftrightarrow> r_reply_ok r \<and> dec_round 6 (r_drop r) < 100) \<and>
     (M_GATE (measure_step lt (remote_res py run rq) cpu mq) \<longleftrightarrow> r_reply_ok r \<and> dec_round 6 (r_drop r) = 0)"
proof -
  obtain opts threads ws where "r = lg_summary m opts threads ws"
    using lg_main_summary [OF assms(2)] by blast
  then have nn: "0 \<le> r_drop r"
    by (rule summary_nonneg(2) [OF assms(5)])
  have p: "p = \<lparr>p_exit = 0, p_stdout = lg_print (m_rnd m) r, p_stderr = []\<rparr>"
    using loadgen_stdout [OF assms(2)] assms(3) by simp
  with assms(4) have res: "remote_res py run rq = CHR ''{'' # field_text (remote_fields (m_rnd m) r)"
    by (intro remote_report [OF assms(1)]) simp
  show ?thesis
    using gate_of_report [OF nn assms(7-9)] dec_round_below [OF nn] remote_gate_of_report [OF nn assms(6-9)]
    by (simp add: res p remote_completed get_completed_field)
qed

text \<open>One failure in 50000 offered connections passes here and not there.\<close>

lemma remote_gate_differs:
  assumes "r_reply_ok r" and "r_drop r = 1 / 50000" and "awk_numeric lt rnd" "rounding rnd" "dbl_dig rnd"
  shows "M_GATE (measure_step lt (subst_out (lg_print mrnd r)) cpu mq)"
    and "\<not> M_GATE (measure_step lt (CHR ''{'' # field_text (remote_fields mrnd r)) cpu mq)"
proof -
  have "dec_round 6 (r_drop r) = 20"
    unfolding assms(2) using round_even_of_int [of 20] by (simp add: dec_round_def)
  then show "M_GATE (measure_step lt (subst_out (lg_print mrnd r)) cpu mq)"
    "\<not> M_GATE (measure_step lt (CHR ''{'' # field_text (remote_fields mrnd r)) cpu mq)"
    using gate_of_report [OF _ assms(3-5), of r mrnd cpu mq] remote_gate_of_report [OF _ _ assms(3-5), of r mrnd cpu mq] assms(1,2)
    by simp_all
qed

definition ref_py :: py_env where
  "ref_py = \<lparr>py_loadgen = ''loadgen'', py_max_duration = 120, py_int = (\<lambda>s. Some (atoi s)), py_float = (\<lambda>s. Some 1000),
     py_str_float = (\<lambda>x. ''1000.0''), py_json_str = (\<lambda>s. CHR 0x22 # s @ [CHR 0x22]), py_cmdline = concat, py_exception = []\<rparr>"

definition ref_request :: lg_request where
  "ref_request = \<lparr>rq_host = ''127.0.0.1'', rq_port = ''31'', rq_kind = ''rate'', rq_level = ''1000'', rq_dur = ''1000'',
     rq_threads = ''4'', rq_sample = ''5'', rq_source = []\<rparr>"

definition ref_cmd :: "string list" where
  "ref_cmd = [''loadgen'', ''--host'', ''127.0.0.1'', ''--port'', ''31'', ''--duration'', ''120'', ''--threads'', ''4'',
     ''--sample-pct'', ''5'', ''--rate'', ''1000.0'']"

lemma digit_chars:
  "print_nat 31 = ''31''" "print_nat 4 = ''4''" "print_nat 5 = ''5''" "print_nat 120 = ''120''"
  "print_nat 0 = ''0''" "print_nat 1000 = ''1000''"
  by code_simp+

lemma ref_atoi: "atoi ''31'' = 31" "atoi ''4'' = 4" "atoi ''5'' = 5" "atoi ''0'' = 0"
  using atoi_print [of 31] atoi_print [of 4] atoi_print [of 5] atoi_print [of 0]
  by (simp_all add: print_int_def digit_chars is_c_int_def)

lemma ref_remote_cmd: "remote_cmd ref_py (remote_query ref_request) = Some ref_cmd"
  by (simp add: remote_cmd_def remote_query_def ref_request_def ref_py_def q_get_def ref_atoi host_ok_def dur_text_def
      print_int_def digit_chars ref_cmd_def is_alnum_def c_isdigit_def digit_val_def)

definition remote_system :: lg_system where
  "remote_system = deaf_system\<lparr>m_atof := \<lambda>s. 1000\<rparr>"

theorem remote_gate_stricter_witness:
  "\<exists>r p. lg_main remote_system ref_cmd = Some (Exited (0, Some r)) \<and> loadgen remote_system ref_cmd = Some (Exited p) \<and>
     get_completed (remote_res ref_py (\<lambda>c. Some p) ref_request) = get_completed (subst_out (p_stdout p)) \<and>
     (M_GATE (measure_step ref_awk (remote_res ref_py (\<lambda>c. Some p) ref_request) ''0.500'' ''3'') \<longleftrightarrow>
       r_reply_ok r \<and> dec_round 6 (r_drop r) = 0)"
proof -
  define opts where "opts = lg_parse remote_system (tl ref_cmd) lg_defaults"
  have opt: "lo_conns opts = 0" "lo_rate opts = 1000" "lg_threads opts = 4"
    by (simp_all add: opts_def ref_cmd_def remote_system_def lg_defaults_def lg_threads_def ref_atoi)
  have worker: "lg_worker remote_system = lg_worker deaf_system"
    by (intro ext) (simp add: lg_worker_def remote_system_def)
  have "thread_ok remote_system opts 4 i \<and> no_sockets (m_thread remote_system i)" for i
    using deaf_thread [OF opt, of i] by (simp add: thread_ok_def worker) (simp add: remote_system_def)
  then have threads: "\<forall>i < nat 4. thread_ok remote_system opts 4 i \<and> no_sockets (m_thread remote_system i)"
    by blast
  have sys: "m_inet_pton remote_system (lo_host opts) \<noteq> None" "m_calloc remote_system 0" "m_calloc remote_system 1"
    and rnd: "rounding (m_rnd remote_system)"
    by (simp_all add: remote_system_def deaf_system_def ref_system_def rounding_def mono_def)
  obtain r where r: "lg_main remote_system ref_cmd = Some (Exited (0, Some r))" "r_drop r = 0"
    by (rule no_sockets_report [OF opts_def opt(3) [symmetric] sys threads]) blast
  then have small: "dec_round 6 (r_drop r) < 10 ^ 15"
    using round_even_of_int [of 0] by (simp add: dec_round_def)
  from remote_gate_stricter [OF ref_remote_cmd r(1) loadgen_stdout [OF r(1)] refl rnd small ref_awk_ok id_rnd_ok,
      of "''0.500''" "''3''"]
  show ?thesis
    using r(1) loadgen_stdout [OF r(1)] by blast
qed

subsection \<open>The same run, here and there\<close>

text \<open>
  What is relied on: Python's \<open>int\<close> and \<open>float\<close> and the \<open>atof\<close> of C read a decimal numeral of at most
  15 digits exactly, and \<open>atof\<close> reads what \<open>str\<close> prints for such a float.
\<close>

definition py_reads :: "py_env \<Rightarrow> (string \<Rightarrow> rat) \<Rightarrow> bool" where
  "py_reads py atof \<longleftrightarrow> (\<forall>n < 10 ^ 15.
     py_int py (print_nat n) = Some (int n) \<and> py_float py (print_nat n) = Some (of_nat n) \<and>
     atof (print_nat n) = of_nat n \<and> atof (py_str_float py (of_nat n)) = of_nat n)"

text \<open>A request of the harness: numerals of at most 15 digits, a host and a list of addresses that pass
  the checks.\<close>

definition request_ok :: "lg_request \<Rightarrow> nat \<Rightarrow> bool" where
  "request_ok rq d \<longleftrightarrow>
     (\<exists>port level threads sample. rq_port rq = print_nat port \<and> rq_level rq = print_nat level \<and> rq_dur rq = print_nat d \<and>
        rq_threads rq = print_nat threads \<and> rq_sample rq = print_nat sample \<and>
        list_all (\<lambda>n. n < 10 ^ 15) [port, level, d, threads, sample] \<and>
        (rq_kind rq = ''rate'' \<or> rq_kind rq = ''conns'' \<and> 0 < level)) \<and>
     host_ok (rq_host rq) \<and>
     list_all source_ch (rq_source rq)"

lemma host_ok_not_empty: "host_ok h \<Longrightarrow> h \<noteq> []"
  by (auto simp: host_ok_def Let_def)

lemma print_int_nat: "print_int (int n) = print_nat n"
  by (simp add: print_int_def)

text \<open>The duration on the remote command line: clamped to the maximum.\<close>

lemma dur_text_clamps:
  assumes "py_reads py atof" and "0 \<le> py_max_duration py" and "py_max_duration py < 10 ^ 15" and "d < 10 ^ 15"
  shows "atof (dur_text py (of_nat d)) = of_nat (min d (nat (py_max_duration py)))"
proof -
  define mx where "mx = nat (py_max_duration py)"
  have mx: "py_max_duration py = int mx" "mx < 10 ^ 15"
    using assms(2,3) by (simp_all add: mx_def nat_less_iff)
  with assms(1,4) show ?thesis
    by (simp add: dur_text_def py_reads_def mx_def [symmetric] print_int_nat)
qed

text \<open>
  C26. A run measured over the remote interface is started as the local one would be: for a request
  of the harness the server accepts the query and builds a command line from which the load
  generator takes the same options (host, port, rate or connections, threads, sampling, source
  addresses) as from the local command line, although the arguments come in another order and
  the numbers were read and printed by Python. The duration is the one asked for up to the server's
  maximum (120 seconds unless its environment says otherwise), and that maximum for longer requests.
\<close>

theorem remote_same_options:
  assumes "request_ok rq d" and "0 \<le> py_max_duration py" and "py_max_duration py < 10 ^ 15"
    and "py_reads py (m_atof m)"
  shows "\<exists>cmd. remote_cmd py (remote_query rq) = Some cmd \<and>
     lg_parse m (tl cmd) lg_defaults =
       (lg_parse m (tl (local_argv rq)) lg_defaults)\<lparr>lo_dur := of_nat (min d (nat (py_max_duration py)))\<rparr> \<and>
     lo_dur (lg_parse m (tl (local_argv rq)) lg_defaults) = of_nat d"
proof -
  obtain port level threads sample where rq: "rq_port rq = print_nat port" "rq_level rq = print_nat level" "rq_dur rq = print_nat d"
      "rq_threads rq = print_nat threads" "rq_sample rq = print_nat sample"
    and size: "list_all (\<lambda>n. n < 10 ^ 15) [port, level, d, threads, sample]"
    and kind: "rq_kind rq = ''rate'' \<or> rq_kind rq = ''conns'' \<and> 0 < level"
    and host: "host_ok (rq_host rq)" and src: "list_all source_ch (rq_source rq)"
    using assms(1) unfolding request_ok_def by blast
  have py: "py_int py (print_nat n) = Some (int n)" "py_float py (print_nat n) = Some (of_nat n)"
      "m_atof m (print_nat n) = of_nat n" "m_atof m (py_str_float py (of_nat n)) = of_nat n"
    if "n \<in> {port, level, d, threads, sample, 0, 1000}" for n
  proof -
    have "n < 10 ^ 15"
      using that size by auto
    then show "py_int py (print_nat n) = Some (int n)" "py_float py (print_nat n) = Some (of_nat n)"
      "m_atof m (print_nat n) = of_nat n" "m_atof m (py_str_float py (of_nat n)) = of_nat n"
      using assms(4) unfolding py_reads_def by blast+
  qed
  have dur: "m_atof m (dur_text py (of_nat d)) = of_nat (min d (nat (py_max_duration py)))"
    using dur_text_clamps [OF assms(4,2,3)] size by simp
  have "py_int py ''0'' = Some 0" "py_float py ''1000'' = Some 1000"
    using py(1) [of 0] py(2) [of 1000] digit_chars(5,6) by simp_all
  note eval = remote_cmd_def remote_query_def q_get_def rq py this dur print_int_nat host src host_ok_not_empty [OF host]
    print_nat_not_empty local_argv_def lg_defaults_def Let_def
  from kind show ?thesis
    by (elim disjE conjE; cases "rq_source rq = []") (simp_all add: eval)
qed

definition dec_py :: py_env where
  "dec_py = ref_py\<lparr>py_int := \<lambda>s. Some (read_digits s 0), py_float := \<lambda>s. Some (of_int (read_digits s 0)),
     py_str_float := \<lambda>x. print_int \<lfloor>x\<rfloor>\<rparr>"

definition dec_atof :: "string \<Rightarrow> rat" where
  "dec_atof s = of_int (read_digits s 0)"

lemma dec_py_reads: "py_reads dec_py dec_atof"
  by (simp add: py_reads_def dec_py_def dec_atof_def read_print_nat print_int_def)

theorem remote_same_options_witness:
  "\<exists>cmd. remote_cmd dec_py (remote_query (ref_request\<lparr>rq_dur := ''1000''\<rparr>)) = Some cmd \<and>
     lo_dur (lg_parse (ref_system\<lparr>m_atof := dec_atof\<rparr>) (tl cmd) lg_defaults) = 120 \<and>
     lo_dur (lg_parse (ref_system\<lparr>m_atof := dec_atof\<rparr>) (tl (local_argv (ref_request\<lparr>rq_dur := ''1000''\<rparr>))) lg_defaults) = 1000"
proof -
  have "request_ok (ref_request\<lparr>rq_dur := ''1000''\<rparr>) 1000"
    unfolding request_ok_def ref_request_def
    by (intro conjI exI [of _ 31] exI [of _ 1000] exI [of _ 4] exI [of _ 5])
      (simp_all add: digit_chars host_ok_def is_alnum_def c_isdigit_def digit_val_def)
  moreover have "py_max_duration dec_py = 120"
    by (simp add: dec_py_def ref_py_def)
  ultimately show ?thesis
    using remote_same_options [of "ref_request\<lparr>rq_dur := ''1000''\<rparr>" 1000 dec_py "ref_system\<lparr>m_atof := dec_atof\<rparr>"]
      dec_py_reads by fastforce
qed

end
