(* ===== verification/Referee.thy ===== *)
theory Referee
  imports Harness Event_Loop
begin

text \<open>
  How a version of the benchmark server is judged: the main part of \<open>research/harness/run.sh\<close> (the
  repetitions, the score over them) and the optimisation loop \<open>research/harness/loop.sh\<close> that keeps
  or reverts one commit per iteration. What processes, counters and git answer is an input of
  each repetition and each iteration.
\<close>

subsection \<open>The repetitions\<close>

record rep_obs =
  ob_smoke :: bool \<comment> \<open>did the smoke test pass in time\<close>
  ob_res :: string \<comment> \<open>the output of the load generator in the measured window\<close>
  ob_cpu :: string
  ob_recvq :: string
  ob_ipc :: string \<comment> \<open>instructions per connection, as the performance pass printed it\<close>

record rep_entry =
  re_conns :: string
  re_cpu :: string
  re_instr :: string
  re_gate :: bool

definition measure_rep :: "(string \<Rightarrow> string \<Rightarrow> bool) \<Rightarrow> rep_obs \<Rightarrow> rep_entry" where
  "measure_rep awk_less ob =
     (let s = measure_step awk_less (ob_res ob) (ob_cpu ob) (ob_recvq ob)
      in if M_GATE s then
           \<lparr>re_conns = or_default (M_COMP s) ''0'', re_cpu = or_default (M_CPU s) ''0'',
            re_instr = or_default (ob_ipc ob) ''0'', re_gate = True\<rparr>
         else \<lparr>re_conns = ''0'', re_cpu = or_default (M_CPU s) ''0'', re_instr = ''0'', re_gate = False\<rparr>)"

text \<open>A failed smoke test ends the run.\<close>

fun run_reps :: "(string \<Rightarrow> string \<Rightarrow> bool) \<Rightarrow> rep_obs list \<Rightarrow> rep_entry list option" where
  "run_reps awk_less [] = Some []"
| "run_reps awk_less (ob # obs) =
     (if ob_smoke ob then map_option (\<lambda>es. measure_rep awk_less ob # es) (run_reps awk_less obs) else None)"

subsection \<open>The score\<close>

text \<open>
  The Python part: \<open>float\<close> of a text and \<open>sum\<close> of a list of floats are parameters. Repetitions
  with no instruction count are left out of the mean.
\<close>

record python =
  pf_float :: "string \<Rightarrow> rat"
  pf_sum :: "rat list \<Rightarrow> rat"
  pf_rnd :: "rat \<Rightarrow> rat"

record run_means =
  s_mean_conn :: string
  s_mean_cpu :: string
  s_mean_instr :: string
  s_score :: string
  s_eff :: string
  s_spread :: string

definition mean_of :: "python \<Rightarrow> rat list \<Rightarrow> rat" where
  "mean_of py xs = (if xs = [] then 0 else pf_rnd py (pf_sum py xs / of_nat (length xs)))"

definition run_stats :: "python \<Rightarrow> rat \<Rightarrow> rep_entry list \<Rightarrow> run_means" where
  "run_stats py cores es =
     (let rnd = pf_rnd py;
          conns = map (\<lambda>e. pf_float py (re_conns e)) es;
          cpus = map (\<lambda>e. pf_float py (re_cpu e)) es;
          instr = filter (\<lambda>x. 0 < x) (map (\<lambda>e. pf_float py (re_instr e)) es);
          mc = mean_of py conns;
          mu = max (mean_of py cpus) (rnd (5 / 1000));
          mi = mean_of py instr;
          score = (if 0 < mi then rnd (1000000000 / mi) else 0);
          eff = (if 0 < mu then rnd (mc / rnd (mu * cores)) else 0);
          lo = foldr min (tl instr) (hd instr);
          hi = foldr max (tl instr) (hd instr);
          spread = (if 1 < length instr \<and> 0 < lo then rnd (rnd (rnd (hi - lo) / lo) * 100) else 0)
      in \<lparr>s_mean_conn = fmt_fixed 0 mc, s_mean_cpu = fmt_fixed 4 mu, s_mean_instr = fmt_fixed 0 mi,
          s_score = fmt_fixed 1 score, s_eff = fmt_fixed 1 eff, s_spread = fmt_fixed 1 spread\<rparr>)"

text \<open>
  What a run records and prints: score, connections per second, CPU at the ceiling, spread and
  reason. The means are those of the Python part.
\<close>

record run_row =
  rr_score :: string
  rr_conn :: string
  rr_cpu :: string
  rr_spread :: string
  rr_reason :: string

definition failed_row :: "string \<Rightarrow> run_row" where
  "failed_row reason = \<lparr>rr_score = ''0'', rr_conn = ''0'', rr_cpu = ''0'', rr_spread = ''0'', rr_reason = reason\<rparr>"

definition referee ::
  "(string \<Rightarrow> string \<Rightarrow> bool) \<Rightarrow> python \<Rightarrow> rat \<Rightarrow> bool \<Rightarrow> rep_obs list \<Rightarrow> run_row" where
  "referee awk_less py cores built obs =
     (if \<not> built then failed_row ''build_fail''
      else case run_reps awk_less obs of
             None \<Rightarrow> failed_row ''smoke_fail''
           | Some es \<Rightarrow>
               let m = run_stats py cores es
               in \<lparr>rr_score = s_score m, rr_conn = s_mean_conn m, rr_cpu = s_mean_cpu m, rr_spread = s_spread m,
                   rr_reason = (if list_all re_gate es then ''fixed@512conns'' else ''gate_fail@512'')\<rparr>)"

subsection \<open>The optimisation loop\<close>

datatype verdict = Revert_fail | Promote | Revert_regression

record loop_env =
  le_rnd :: "rat \<Rightarrow> rat"
  le_print :: "rat \<Rightarrow> rat" \<comment> \<open>what awk prints with \<open>%.6g\<close> and reads again\<close>
  le_max_iters :: nat

definition EPSILON :: rat where "EPSILON = 3 / 100"
definition PATIENCE :: nat where "PATIENCE = 30"
definition WATCHDOG_K :: nat where "WATCHDOG_K = 20"

text \<open>\<open>awk 'BEGIN{printf "%.6f", b*(1+e)}'\<close>, as it is read again.\<close>

definition promote_above :: "(rat \<Rightarrow> rat) \<Rightarrow> rat \<Rightarrow> rat" where
  "promote_above rnd b =
     (let x = rnd (b * rnd (1 + rnd EPSILON)); v = rnd (of_nat (dec_round 6 x) / 10 ^ 6)
      in if x < 0 then - v else v)"

definition judge :: "(rat \<Rightarrow> rat) \<Rightarrow> rat \<Rightarrow> rat \<Rightarrow> verdict" where
  "judge rnd score best =
     (if score \<le> 0 then Revert_fail
      else if promote_above rnd best < score then Promote
      else Revert_regression)"

text \<open>What an iteration meets.\<close>

record 'c iter_obs =
  io_stop :: bool \<comment> \<open>the file STOP is there\<close>
  io_rc :: int \<comment> \<open>exit status of the optimizer; 124 after a timeout\<close>
  io_own :: "'c list" \<comment> \<open>commits the optimizer made by itself, the last one first\<close>
  io_changed :: bool \<comment> \<open>the working tree differs from HEAD under treatment or kbs\<close>
  io_commit_ok :: bool
  io_commit :: 'c
  io_score :: rat
  io_control :: rat \<comment> \<open>the score of the control arm, when the watchdog asks for it\<close>

record 'c loop_state =
  ls_iter :: nat
  ls_no_improve :: nat
  ls_best :: rat \<comment> \<open>the score in BEST.json, 0 if there is none\<close>
  ls_branch :: "'c list" \<comment> \<open>the commits, HEAD first\<close>
  ls_baseline :: "rat option" \<comment> \<open>CONTROL_BASELINE.json\<close>

text \<open>\<open>git reset --hard HEAD~1\<close>, which fails when there is no commit before HEAD.\<close>

definition reset_head :: "'c list \<Rightarrow> 'c list" where
  "reset_head branch = (if length branch \<le> 1 then branch else tl branch)"

definition apply_verdict :: "verdict \<Rightarrow> rat \<Rightarrow> 'c loop_state \<Rightarrow> 'c loop_state" where
  "apply_verdict v score st =
     (case v of
        Promote \<Rightarrow> st\<lparr>ls_best := score, ls_no_improve := 0\<rparr>
      | _ \<Rightarrow> st\<lparr>ls_branch := reset_head (ls_branch st), ls_no_improve := ls_no_improve st + 1\<rparr>)"

text \<open>The control-drift watchdog: the new state, and whether the loop pauses.\<close>

definition watchdog :: "loop_env \<Rightarrow> 'c iter_obs \<Rightarrow> 'c loop_state \<Rightarrow> 'c loop_state \<times> bool" where
  "watchdog env ob st =
     (if ls_iter st mod WATCHDOG_K \<noteq> 0 then (st, False)
      else case ls_baseline st of
             None \<Rightarrow> (st\<lparr>ls_baseline := Some (io_control ob)\<rparr>, False)
           | Some b \<Rightarrow>
               let rnd = le_rnd env;
                   drift = le_print env (if 0 < b then rnd (rnd (rnd (io_control ob - b) / b) * 100) else 0)
               in (st, drift < - 5 \<or> 5 < drift))"

text \<open>
  One iteration. What the optimizer committed by itself stays on the branch whatever comes after:
  only changes of the working tree are committed by the loop, measured, and kept or reverted.
\<close>

definition loop_body :: "loop_env \<Rightarrow> (nat \<Rightarrow> 'c iter_obs) \<Rightarrow> 'c loop_state \<Rightarrow> 'c loop_state loop_next option" where
  "loop_body env ans st =
     (let ob = ans (ls_iter st)
      in if io_stop ob then Some (Break st)
         else
           let st = st\<lparr>ls_iter := ls_iter st + 1, ls_branch := io_own ob @ ls_branch st\<rparr>
           in if io_rc ob \<noteq> 0 \<or> \<not> io_changed ob then Some (Continue st)
              else
                let st = (if io_commit_ok ob then st\<lparr>ls_branch := io_commit ob # ls_branch st\<rparr> else st);
                    st = apply_verdict (judge (le_rnd env) (io_score ob) (ls_best st)) (io_score ob) st;
                    (st, pause) = watchdog env ob st
                in if pause \<or> PATIENCE \<le> ls_no_improve st then Some (Break st) else Some (Continue st))"

definition loop_done :: "loop_env \<Rightarrow> 'c loop_state \<Rightarrow> bool" where
  "loop_done env st \<longleftrightarrow> le_max_iters env \<le> ls_iter st"

definition optimize :: "loop_env \<Rightarrow> (nat \<Rightarrow> 'c iter_obs) \<Rightarrow> 'c loop_state \<Rightarrow> 'c loop_state loop_exit option" where
  "optimize env ans st = run_loop (loop_done env) (loop_body env ans) st"

end
