(* ===== verification/Referee_Props.thy ===== *)
theory Referee_Props
  imports Referee Harness_Props
begin

text \<open>
  The properties of the referee: which repetitions a score counts, and what the optimisation loop
  keeps.
\<close>

subsection \<open>The score\<close>

lemma failed_rep: "\<not> re_gate (measure_rep lt ob) \<Longrightarrow> re_instr (measure_rep lt ob) = ''0''"
  by (auto simp: measure_rep_def Let_def split: if_splits)

lemma failed_rep_conns: "\<not> re_gate (measure_rep lt ob) \<Longrightarrow> re_conns (measure_rep lt ob) = ''0''"
  by (auto simp: measure_rep_def Let_def split: if_splits)

lemma run_reps_entries: "run_reps lt obs = Some es \<Longrightarrow> es = map (measure_rep lt) obs \<and> list_all ob_smoke obs"
  by (induction obs arbitrary: es) (auto split: if_splits)

lemma counted_instr:
  assumes "pf_float py ''0'' = 0" and "\<forall>e \<in> set es. \<not> re_gate e \<longrightarrow> re_instr e = ''0''"
  shows "filter (\<lambda>x. 0 < x) (map (\<lambda>e. pf_float py (re_instr e)) es) =
     filter (\<lambda>x. 0 < x) (map (\<lambda>e. pf_float py (re_instr e)) (filter re_gate es))"
  using assms(2) by (induction es) (auto simp: assms(1))

text \<open>
  C27. The score of a run counts only the repetitions that passed the gate. A repetition that failed
  it is entered with zero instructions, and zeros are left out of the mean: score and spread are
  those the passing repetitions alone would get, however many others failed. The other figures
  count every repetition: in the recorded connections per second a failed one counts as 0, in the
  CPU as measured; and the recorded reason tells that some repetition failed. The loop looks at the
  score only. (The configuration says that a failed gate scores 0.)
\<close>

theorem score_ignores_failed_reps:
  assumes "run_reps lt obs = Some es" and "pf_float py ''0'' = 0"
  shows "rr_score (referee lt py cores True obs) = s_score (run_stats py cores (filter re_gate es)) \<and>
     rr_spread (referee lt py cores True obs) = s_spread (run_stats py cores (filter re_gate es)) \<and>
     rr_conn (referee lt py cores True obs) =
       fmt_fixed 0 (mean_of py (map (\<lambda>e. if re_gate e then pf_float py (re_conns e) else 0) es)) \<and>
     rr_cpu (referee lt py cores True obs) = s_mean_cpu (run_stats py cores es) \<and>
     (rr_reason (referee lt py cores True obs) = ''gate_fail@512'' \<longleftrightarrow> (\<exists>ob \<in> set obs. \<not> re_gate (measure_rep lt ob)))"
proof -
  have es: "es = map (measure_rep lt) obs"
    using run_reps_entries [OF assms(1)] by simp
  then have "\<forall>e \<in> set es. \<not> re_gate e \<longrightarrow> re_instr e = ''0''"
    using failed_rep by auto
  from counted_instr [OF assms(2) this]
  have "s_score (run_stats py cores es) = s_score (run_stats py cores (filter re_gate es))"
    "s_spread (run_stats py cores es) = s_spread (run_stats py cores (filter re_gate es))"
    by (simp_all add: run_stats_def Let_def)
  moreover have conns: "map (\<lambda>e. pf_float py (re_conns e)) es = map (\<lambda>e. if re_gate e then pf_float py (re_conns e) else 0) es"
    using failed_rep_conns assms(2) by (auto simp: es)
  have "s_mean_conn (run_stats py cores es) = fmt_fixed 0 (mean_of py (map (\<lambda>e. pf_float py (re_conns e)) es))"
    by (simp add: run_stats_def Let_def)
  then have "s_mean_conn (run_stats py cores es) =
      fmt_fixed 0 (mean_of py (map (\<lambda>e. if re_gate e then pf_float py (re_conns e) else 0) es))"
    unfolding conns .
  ultimately show ?thesis
    using assms(1) unfolding referee_def by (auto simp: es list_all_iff Let_def)
qed

definition good_rep :: rep_obs where
  "good_rep = \<lparr>ob_smoke = True,
     ob_res = ''{'' @ json_key ''completed_cps'' @ ''9.5,'' @ json_key ''drop_rate'' @ ''0.000000,'' @ json_key ''reply_ok'' @ ''true}'',
     ob_cpu = ''0.500'', ob_recvq = ''3'', ob_ipc = ''40000''\<rparr>"

definition bad_rep :: rep_obs where
  "bad_rep = good_rep\<lparr>ob_res := []\<rparr>"

definition ref_python :: python where
  "ref_python = \<lparr>pf_float = (\<lambda>s. case dec_read s of Some x \<Rightarrow> x | None \<Rightarrow> 0), pf_sum = sum_list, pf_rnd = (\<lambda>x. x)\<rparr>"

lemma bad_rep_fails: "\<not> re_gate (measure_rep ref_awk bad_rep)"
  by (simp add: measure_rep_def measure_step_def bad_rep_def good_rep_def Let_def get_reply_ok_def echo_pipe_def subst_out_def)

theorem score_ignores_failed_reps_witness:
  "\<exists>es. length es = 2 \<and>
     rr_score (referee ref_awk ref_python 1 True [good_rep, bad_rep]) = s_score (run_stats ref_python 1 (filter re_gate es)) \<and>
     rr_reason (referee ref_awk ref_python 1 True [good_rep, bad_rep]) = ''gate_fail@512''"
proof -
  have run: "run_reps ref_awk [good_rep, bad_rep] = Some [measure_rep ref_awk good_rep, measure_rep ref_awk bad_rep]"
    by (simp add: good_rep_def bad_rep_def)
  have "pf_float ref_python ''0'' = 0"
    by (simp add: ref_python_def dec_read_def c_isdigit_def digit_val_def)
  from score_ignores_failed_reps [OF run this, of 1] bad_rep_fails show ?thesis
    by (intro exI [of _ "[measure_rep ref_awk good_rep, measure_rep ref_awk bad_rep]"]) auto
qed

subsection \<open>What the loop keeps\<close>


inductive lineage :: "loop_env \<Rightarrow> (nat \<Rightarrow> 'c iter_obs) \<Rightarrow> rat \<times> 'c list \<Rightarrow> rat \<times> 'c list \<Rightarrow> bool"
  for env ans x0 where
  founder: "lineage env ans x0 x0"
| champion: "lineage env ans x0 (best, branch) \<Longrightarrow> ob = ans i \<Longrightarrow> 0 < io_score ob \<Longrightarrow>
    promote_above (le_rnd env) best < io_score ob \<Longrightarrow>
    lineage env ans x0 (io_score ob, io_commit ob # branch)"

inductive_cases lineageE: "lineage env ans x0 (best, branch)"














text \<open>When the commit fails, a verdict against the new version removes the champion's commit.\<close>

lemma failed_commit_drops_champion:
  assumes "\<not> io_commit_ok (ans (ls_iter st))" and "\<not> io_stop (ans (ls_iter st))" and "io_rc (ans (ls_iter st)) = 0"
    and "io_own (ans (ls_iter st)) = []" and "io_changed (ans (ls_iter st))" and "io_score (ans (ls_iter st)) \<le> 0" and "ls_branch st = c # d # cs"
  shows "\<exists>st'. (loop_body env ans st = Some (Continue st') \<or> loop_body env ans st = Some (Break st')) \<and>
     ls_branch st' = d # cs \<and> ls_best st' = ls_best st"
  using assms
  by (auto simp: loop_body_def Let_def judge_def apply_verdict_def reset_head_def watchdog_def split: option.splits prod.splits)

text \<open>
  When the optimizer commits by itself and leaves a clean tree (\<open>docs/OPTIMIZER_HEADLESS.md\<close> says that it
  commits, its prompt says that it does not), its commit stays on the branch without ever being
  measured.
\<close>

lemma own_commit_unmeasured:
  assumes "\<not> io_stop (ans (ls_iter st))" and "\<not> io_changed (ans (ls_iter st))"
  shows "loop_body env ans st =
     Some (Continue (st\<lparr>ls_iter := ls_iter st + 1, ls_branch := io_own (ans (ls_iter st)) @ ls_branch st\<rparr>))"
  using assms by (simp add: loop_body_def Let_def)

end
