(* ===== verification/Spec2Isabelle.thy ===== *)
theory Spec2Isabelle
  imports Worker_Props Reply_Props Lifecycle_Props Server_Props Echo Treat_Props Extracted_Props
    Loadgen_Props Control Exchange Package_Test Remote_Props Referee_Props
begin

text \<open>
  \<^bold>\<open>flashaccept: a verification library.\<close>

  \<^bold>\<open>The program.\<close> flashaccept is a TCP server library for Linux built on io_uring
  (\<open>src/flashaccept.c\<close>, interface in \<open>include/flashaccept.h\<close>). A server owns one worker per
  CPU. Each worker has its own listening socket (SO_REUSEPORT), its own ring, a freelist of
  connection objects and one reply scratch buffer, and shares nothing but the configuration and
  the stop flag. It keeps one (multishot) accept armed; an accepted descriptor gets a connection
  object and one receive; a received request is given to the application's handler, whose reply
  is queued as a send followed by a close. Around the library the repository has an example
  server (\<open>examples/echo_server.c\<close>), a package test, and a benchmark: a stand-alone variant of the
  same server (\<open>research/treatment/accept-treat.c\<close>), the load generator that measures it
  (\<open>research/loadgen/loadgen.c\<close>), a Go server the variant is compared with
  (\<open>research/control\<close>), and the scripts that turn measurements into decisions: the referee
  \<open>research/harness/run.sh\<close> starts the load generator here or, through
  \<open>research/loadgen/loadgen-server.py\<close>, on another machine, reads its report, gates and scores it,
  and \<open>research/harness/loop.sh\<close> keeps or reverts a version by that score. The model covers all C
  programs of the repository, the Go server, and the decisions of the scripts.

  \<^bold>\<open>How the code is modelled.\<close> Structs are records, enums are datatypes, one definition per C
  function or per branch of a long function. State is passed explicitly. Pointers are addresses in
  a memory that belongs to one thread; freelists are linked through memory as in the code. A
  result \<open>None\<close> of an operation is undefined behaviour (dangling pointer, access out of bounds,
  NULL dereference); \<open>run_loop\<close> has the result \<open>None\<close> when the loop never ends. C integers are
  \<open>int\<close> with the conversions written out (\<open>c_int\<close>, \<open>c_size_t\<close>, \<open>c_ushort\<close>), or words where they
  are unsigned counters.

  The kernel, liburing, libc and the request handler are parameters. Every external call of a
  thread is appended to its history, and every answer is a function of the history (records
  \<open>uring_env\<close>, \<open>os_env\<close>, \<open>loadgen_env\<close>). Since these functions are arbitrary, a theorem covers
  every behaviour of the outside world and every interleaving with other threads; what is relied
  on is a named contract: \<open>malloc_fresh\<close> (no live object is handed out again), \<open>kernel_ok\<close> (a
  receive completes once, with at most the bytes asked for), \<open>handler_ok\<close> (the handler stays
  within its capacity), \<open>sq_drained\<close> (a submit frees entries), \<open>os_ready\<close> and \<open>listener\<close> for the
  server, \<open>lg_contract\<close>, \<open>clock_runs\<close> and \<open>rounding\<close> for the load generator, \<open>awk_numeric\<close> (awk
  compares numerals as doubles), \<open>dbl_dig\<close> (doubles tell numerals of 15 digits apart) and \<open>py_reads\<close>
  (Python and C read a numeral of up to 15 digits alike) for the scripts, \<open>writer_ok\<close> (a write makes
  progress or fails) for the Go server. Some theorems describe a scenario and name its conditions: \<open>room_for\<close>
  (the submission queue has room for the next few entries, C8), \<open>unhurried\<close> (waits do not time out and
  nobody stops the worker, the converse of C15), \<open>paced\<close> (the interval between two starts is not lost
  in rounding, C39), \<open>untouched\<close> (only the loop commits, and its commits succeed, the second part of C32).
  \<open>Ref_Env\<close>, \<open>Server_Props\<close>,
  \<open>Loadgen_Props\<close>, \<open>Harness_Props\<close> and \<open>Remote_Props\<close> give concrete environments that meet them, and the
  witnesses of the theorems use those.

  \<^bold>\<open>The theories.\<close>

  \<^item> \<open>Prelude\<close>: C integers, byte buffers, linked lists in memory, multisets of owners.
  \<^item> \<open>Uring\<close>: submission and completion entries, calls, histories and their readings
    (\<open>inflight\<close>, \<open>accepted\<close>, \<open>closed\<close>, \<open>transmitted\<close>, \<open>standing\<close>), contracts.
  \<^item> \<open>Conn_Pool\<close>: ownership of connection objects, and the interface \<open>conn_pool\<close> that both
    servers' freelists implement.
  \<^item> \<open>Event_Loop\<close>: batches and loops, with the interfaces \<open>completion_handler\<close>, \<open>loop_contract\<close>
    and \<open>event_loop\<close>, of which all event loops of the repository are instances, and
    \<open>batch_simulation\<close> and \<open>loop_simulation\<close> for a loop that follows another.
  \<^item> \<open>Freelist\<close>, \<open>Sqe_Helpers\<close>, \<open>Worker\<close>: the worker of \<open>src/flashaccept.c\<close> (\<open>fa_conn_alloc\<close> to
    \<open>fa_thread_entry\<close>). \<open>Protocol\<close>: the ledger of descriptors and the discipline of the entries.
  \<^item> \<open>Worker_Inv\<close>, \<open>Accept_Standing\<close>, \<open>Replies\<close>: the invariants through every branch, batch and
    iteration. \<open>Worker_Props\<close> (C1 to C7): no undefined behaviour, connections partitioned, no
    descriptor closed twice or lost, well-formed entries, one accept always standing, the loop
    stops. \<open>Reply_Props\<close> (C8 to C11, C13): what one completion does, and what clients receive.
  \<^item> \<open>Lifecycle\<close>, \<open>Refinement\<close>, \<open>Lifecycle_Props\<close> (C34): an abstract specification of the
    life of a connection, and the proof that the worker refines it.
  \<^item> \<open>Os\<close>, \<open>Server\<close>, \<open>Server_Inv\<close>, \<open>Server_Run\<close>, \<open>Server_Props\<close> (C16 to C18, C20 to C23, C25): creating, running,
    stopping and freeing a server, with all failure paths; what is returned, closed, freed, leaked.
  \<^item> \<open>C_Args\<close>, \<open>Echo\<close> (C29): atoi, and the example server end to end.
  \<^item> \<open>Treat\<close>, \<open>Treat_Inv\<close>, \<open>Treat_Props\<close> (C30, C31): the benchmark server, by the same interfaces.
  \<^item> \<open>Extracted\<close>, \<open>Extracted_Props\<close> (C15, C35): the library was extracted from the benchmark
    server; a simulation in both directions shows that it kept the behaviour call for call, and
    carries the refinement of the life cycle over to the benchmark server.
  \<^item> \<open>Loadgen\<close>, \<open>Loadgen_Run\<close>: the load generator's connections, threads and program.
    \<open>Loadgen_Inv\<close>, \<open>Loadgen_Loop\<close>, \<open>Loadgen_Report\<close>, \<open>Loadgen_Main\<close>, \<open>Loadgen_Props\<close> (C36 to C40): the
    program returns and its report counts every attempt of every thread once, connection objects are well formed, a completed
    connection has exchanged the exact bytes, the open loop starts at most two connections per
    round, the percentiles are the reference percentiles.
  \<^item> \<open>Control\<close> (C19, C28): the control arm, a Go server: its listening sockets and the scaler, its
    accept loop, its connections, its own number printing.
  \<^item> \<open>Exchange\<close>, and C33 at the end of this theory: the programs together; what any of the three
    servers sends passes the load generator's validation.
  \<^item> \<open>Package_Test\<close>: the package test and the version macros.
  \<^item> \<open>Decimal\<close>, \<open>Report_Text\<close>: printing and reading of decimal numerals, and the JSON line the load
    generator writes, character for character.
  \<^item> \<open>Text_Tools\<close>, \<open>Harness\<close>, \<open>Harness_Props\<close> (C12, C14): the tools with which the referee takes values
    out of a report, the smoke test and the gate of a step; that what is read is what was counted,
    when the gate passes, and that it also passes when no connection could be started.
  \<^item> \<open>Json\<close>, \<open>Remote\<close>, \<open>Remote_Props\<close> (C24, C26): the report on its way through the remote interface,
    which starts the load generator with the same options but prints the report differently.
  \<^item> \<open>Referee\<close>, \<open>Referee_Props\<close> (C27, C32): the repetitions, the score and the optimisation loop; which
    repetitions a score counts, and which versions the loop keeps.

  \<^bold>\<open>Bounds and loops.\<close> There is no fuel. Loops that end by themselves are recursive functions with
  a termination proof; the event loops and the open-loop start are partial functions in the
  option type, and that they return is proved (C7, C22, C28, C29, C32, C36, C39). Times of the load
  generator are rational numbers with the rounding of double arithmetic as a parameter.

  \<^bold>\<open>Not modelled.\<close> The text of the library's diagnostics; the load generator's attempt to raise its
  descriptor limit; infinite or undefined doubles; memory ordering of the stop flag (a worker may
  read it as set at any time after it was set); the Go runtime's scheduling and its flag package
  (port and scaler flag are inputs of the model; finalizers are modelled where they close
  descriptors); the address a connection of the load generator goes to. A thread reads the stop
  flag as its environment says; that a flag set while threads run is seen in the end is a
  hypothesis of the theorems on termination. C15 compares calls, not the bytes in the reply buffer,
  which C9 pins. Of the scripts: what processes, performance
  counters, git and the optimizer answer are inputs; the function \<open>run_ramp\<close> of \<open>run.sh\<close>, which its
  main part never calls, the profiling passes and the records they write into files and the
  database are left out. JSON is modelled as far as reports use it (objects, numbers, booleans), and
  \<open>py_repr\<close> is what Python prints for numerals of at most 15 significant digits, which all numerals of
  a report have unless a rate exceeds \<open>10 ^ 14\<close>. The web interface
  (\<open>research/webui\<close>) and build and packaging descriptions have no part in what is proved.
\<close>

subsection \<open>The programs together\<close>

text \<open>
  C33. A client on the other side of a server of this repository never counts a wrong reply. Let
  the bytes that arrive on a connection of the load generator, in chunks of any size, be those the
  benchmark server, the example server or the control arm sends to a client. Then handling an event
  on a connection that waits for its reply ends in one of three ways: it waits for more, the
  connection broke (reset, closed early, another error) and is counted as that, or the connection
  is counted as completed; neither the wrong-bytes failures nor the bad samples grow.
\<close>

theorem served_clients_validate:
  assumes "lg_contract env" and "lg_inv st" and "t_heap st a = Some c" and "c_state c = 2"
    and "ev AND (EPOLLERR OR EPOLLHUP) = 0" and "served b" and "delivers env (t_log st) (c_fd c) b"
  shows "\<exists>r st'. handle env a ev st = Some (r, st') \<and>
     lw_failed (t_w st') F_WRONGBYTES = lw_failed (t_w st) F_WRONGBYTES \<and>
     lw_sampled_bad (t_w st') = lw_sampled_bad (t_w st) \<and>
     (r = Some 0 \<and> t_w st' = t_w st \<or>
      r = Some 1 \<and> (\<exists>reason \<in> {F_TRUNC, F_RESET, F_OTHER}. t_w st' = count_fail reason 1 (t_w st)) \<or>
      r = Some 1 \<and> lw_completed (t_w st') = lw_completed (t_w st) + 1)"
proof -
  obtain r st' where out: "read_loop env a st = Some (r, st')"
    using read_loop_defined [OF assms(1-4)] by fastforce
  have "delivers env (t_log st) (c_fd c) REPLY"
    using assms(6,7) served_reply by blast
  from read_loop_outcome [OF assms(1-4) this out] out handle_reads [OF assms(3-5)] show ?thesis
    by (auto simp: good_outcome_def faultless_def)
qed

theorem served_clients_validate_witness:
  "\<exists>r st'. handle seven_bytes 0 EPOLLIN waiting_client = Some (r, st') \<and>
     lw_failed (t_w st') F_WRONGBYTES = 0 \<and> lw_sampled_bad (t_w st') = 0"
proof -
  obtain v where v: "treat_heads treat_demo (treat_new_worker 3) v" "transmitted (wc_log v) = [(5, TREAT_REPLY)]"
    by (rule treat_served)
  then have "served TREAT_REPLY"
    by (intro served.by_benchmark [OF treat_new_idle v(1), of 5]) simp
  moreover have "TREAT_REPLY = REPLY"
    by (simp add: TREAT_REPLY_def REPLY_def)
  moreover have "t_heap waiting_client 0 = Some waiting_conn" "c_state waiting_conn = 2" "c_fd waiting_conn = 4"
    "lw_failed (t_w waiting_client) F_WRONGBYTES = 0" "lw_sampled_bad (t_w waiting_client) = 0"
    by (simp_all add: waiting_client_def waiting_conn_def ref_worker_def)
  moreover have "EPOLLIN AND (EPOLLERR OR EPOLLHUP) = 0"
    by (simp add: EPOLLIN_def EPOLLERR_def EPOLLHUP_def)
  ultimately show ?thesis
    using served_clients_validate [OF seven_bytes_contract waiting_client_inv, of 0 waiting_conn EPOLLIN TREAT_REPLY]
      seven_bytes_delivers by auto
qed

end
